(* ===== verification/Prelude.thy ===== *)
theory Prelude
  imports Main "HOL-Library.Word"
begin

text \<open>
  The shared vocabulary of the development: the machine integers and byte slices of the Rust
  sources, the outcome of a fallible call (an error value, a panic, or undefined behaviour of an
  \<open>unsafe\<close> block), the \<open>?\<close> operator on such outcomes, and the big- and little-endian byte
  representations of the standard library (\<open>to_be_bytes\<close>, \<open>from_be_bytes\<close>, \<open>to_le_bytes\<close>,
  \<open>from_le_bytes\<close>) with their round trips.
\<close>

unbundle bit_operations_syntax

named_theorems res_simps \<open>evaluation of the outcome combinators\<close>
named_theorems codec_defs \<open>definitions of the raw codecs\<close>

subsection \<open>Machine integers and slices\<close>

type_synonym u8 = "8 word"
type_synonym u16 = "16 word"
type_synonym u32 = "32 word"
type_synonym u64 = "64 word"
type_synonym u128 = "128 word"
type_synonym bytes = "u8 list"

subsection \<open>Outcomes of fallible code\<close>

text \<open>
  A call of the source either returns \<open>Ok\<close>, or returns \<open>Err\<close> with an error of type \<open>'e\<close>, or
  panics (a slice index out of range, an \<open>unwrap\<close> of an error, a failed \<open>assert!\<close>, an arithmetic
  underflow), or executes an \<open>unsafe\<close> block outside its contract.
\<close>

datatype 'e fault = Err 'e | Panic | UB

definition rbind :: "'f + 'a \<Rightarrow> ('a \<Rightarrow> 'f + 'b) \<Rightarrow> 'f + 'b" where
  "rbind m f = (case m of Inl e \<Rightarrow> Inl e | Inr x \<Rightarrow> f x)"

definition runwrap :: "'e fault + 'a \<Rightarrow> 'e fault + 'a" where
  "runwrap m = (case m of Inl UB \<Rightarrow> Inl UB | Inl _ \<Rightarrow> Inl Panic | Inr x \<Rightarrow> Inr x)"

definition checked_sub :: "nat \<Rightarrow> nat \<Rightarrow> 'e fault + nat" where
  "checked_sub a b = (if b \<le> a then Inr (a - b) else Inl Panic)"

definition rassert :: "bool \<Rightarrow> 'e fault + unit" where
  "rassert b = (if b then Inr () else Inl Panic)"

lemma rbind_simps [simp, res_simps]:
  "rbind (Inl e) f = Inl e"
  "rbind (Inr x) f = f x"
  by (simp_all add: rbind_def)

lemma rbind_eq_Inr: "rbind m f = Inr y \<longleftrightarrow> (\<exists>x. m = Inr x \<and> f x = Inr y)"
  by (cases m) simp_all

lemma rbind_eq_Inl: "rbind m f = Inl e \<longleftrightarrow> m = Inl e \<or> (\<exists>x. m = Inr x \<and> f x = Inl e)"
  by (cases m) auto

lemma rbind_assoc: "rbind (rbind m f) g = rbind m (\<lambda>x. rbind (f x) g)"
  by (cases m) simp_all

lemma runwrap_simps [simp, res_simps]:
  "runwrap (Inr x) = Inr x"
  "runwrap (Inl (Err e)) = Inl Panic"
  "runwrap (Inl Panic) = Inl Panic"
  "runwrap (Inl UB) = Inl UB"
  by (simp_all add: runwrap_def)

lemma checked_sub_simps [simp, res_simps]:
  "b \<le> a \<Longrightarrow> checked_sub a b = Inr (a - b)"
  "\<not> b \<le> a \<Longrightarrow> checked_sub a b = Inl Panic"
  by (simp_all add: checked_sub_def)

lemma rassert_simps [simp, res_simps]:
  "b \<Longrightarrow> rassert b = Inr ()"
  "\<not> b \<Longrightarrow> rassert b = Inl Panic"
  by (simp_all add: rassert_def)

text \<open>
  An outcome is \<^emph>\<open>safe\<close> when it is a returned value or a returned error: no panic and no
  undefined behaviour.
\<close>

definition safe :: "'e fault + 'a \<Rightarrow> bool" where
  "safe m = (case m of Inl Panic \<Rightarrow> False | Inl UB \<Rightarrow> False | _ \<Rightarrow> True)"

lemma safe_simps [simp, res_simps]:
  "safe (Inr x)"
  "safe (Inl (Err e))"
  "\<not> safe (Inl Panic)"
  "\<not> safe (Inl UB)"
  by (simp_all add: safe_def)

lemma safe_Inl: "safe (Inl f :: 'e fault + 'a) \<longleftrightarrow> (\<exists>e. f = Err e)"
  by (cases f) simp_all

lemma safe_rbind:
  "safe m \<Longrightarrow> (\<And>x. m = Inr x \<Longrightarrow> safe (f x)) \<Longrightarrow> safe (rbind m f)"
  by (cases m) (simp_all add: safe_def split: fault.splits)

subsection \<open>Byte representations\<close>

fun be_digits :: "nat \<Rightarrow> nat \<Rightarrow> bytes" where
  "be_digits 0 v = []"
| "be_digits (Suc n) v = word_of_nat (v div 256 ^ n) # be_digits n (v mod 256 ^ n)"

fun be_value :: "bytes \<Rightarrow> nat" where
  "be_value [] = 0"
| "be_value (b # bs) = unat b * 256 ^ length bs + be_value bs"

definition to_be_bytes :: "'a::len word \<Rightarrow> bytes" where
  "to_be_bytes w = be_digits (LENGTH('a) div 8) (unat w)"

definition from_be_bytes :: "bytes \<Rightarrow> 'a::len word" where
  "from_be_bytes bs = word_of_nat (be_value bs)"

definition to_le_bytes :: "'a::len word \<Rightarrow> bytes" where
  "to_le_bytes w = rev (to_be_bytes w)"

definition from_le_bytes :: "bytes \<Rightarrow> 'a::len word" where
  "from_le_bytes bs = from_be_bytes (rev bs)"

lemma length_be_digits [simp]: "length (be_digits n v) = n"
  by (induction n arbitrary: v) simp_all

lemma be_digits_numeral:
  "be_digits (numeral k) v =
     word_of_nat (v div 256 ^ pred_numeral k) # be_digits (pred_numeral k) (v mod 256 ^ pred_numeral k)"
  by (simp add: numeral_eq_Suc)

lemma be_digits_one: "be_digits 1 v = [word_of_nat v]"
  by simp

lemma be_value_digits: "v < 256 ^ n \<Longrightarrow> be_value (be_digits n v) = v"
proof (induction n arbitrary: v)
  case 0
  then show ?case by simp
next
  case (Suc n)
  from Suc.prems have "v div 256 ^ n < 256"
    by (simp add: less_mult_imp_div_less)
  then have hi: "unat (word_of_nat (v div 256 ^ n) :: u8) = v div 256 ^ n"
    by (simp add: unat_of_nat)
  have "be_value (be_digits n (v mod 256 ^ n)) = v mod 256 ^ n"
    by (rule Suc.IH) simp
  with hi show ?case by (simp add: div_mult_mod_eq)
qed

lemma be_value_bound: "be_value bs < 256 ^ length bs"
proof (induction bs)
  case Nil
  then show ?case by simp
next
  case (Cons b bs)
  have "unat b \<le> 255" using unsigned_less [of b, where 'a = nat] by simp
  then have "unat b * 256 ^ length bs \<le> 255 * 256 ^ length bs" by (rule mult_le_mono1)
  with Cons.IH have "unat b * 256 ^ length bs + be_value bs < 256 * 256 ^ length bs"
    by linarith
  then show ?case by simp
qed

lemma be_digits_value: "be_digits (length bs) (be_value bs) = bs"
proof (induction bs)
  case Nil
  then show ?case by simp
next
  case (Cons b bs)
  have "be_value bs < 256 ^ length bs" by (rule be_value_bound)
  with Cons.IH show ?case by simp
qed

lemma length_to_be_bytes: "length (to_be_bytes (w :: 'a::len word)) = LENGTH('a) div 8"
  by (simp add: to_be_bytes_def)

lemma length_to_be_bytes_simps [simp]:
  "length (to_be_bytes (a :: u8)) = 1"
  "length (to_be_bytes (b :: u16)) = 2"
  "length (to_be_bytes (c :: u32)) = 4"
  "length (to_be_bytes (d :: u64)) = 8"
  "length (to_be_bytes (e :: u128)) = 16"
  by (simp_all add: length_to_be_bytes)

lemma from_to_be_bytes:
  fixes w :: "'a::len word"
  assumes "8 dvd LENGTH('a)"
  shows "from_be_bytes (to_be_bytes w) = w"
proof -
  from assms obtain k where k: "LENGTH('a) = 8 * k" ..
  have "(256::nat) ^ k = 2 ^ (8 * k)" by (simp add: power_mult)
  then have "unat w < 256 ^ (LENGTH('a) div 8)"
    using unsigned_less [of w, where 'a = nat] k by simp
  then show ?thesis
    by (simp add: to_be_bytes_def from_be_bytes_def be_value_digits)
qed

lemma to_from_be_bytes:
  assumes "LENGTH('a::len) = 8 * length bs"
  shows "to_be_bytes (from_be_bytes bs :: 'a word) = bs"
proof -
  have "be_value bs < 2 ^ LENGTH('a)"
    using be_value_bound [of bs] assms by (simp add: power_mult)
  then have "unat (word_of_nat (be_value bs) :: 'a word) = be_value bs"
    by (simp add: unsigned_of_nat take_bit_nat_eq_self)
  with assms show ?thesis
    by (simp add: to_be_bytes_def from_be_bytes_def be_digits_value)
qed

lemma from_to_be_bytes_simps [simp]:
  "from_be_bytes (to_be_bytes (a :: u8)) = a"
  "from_be_bytes (to_be_bytes (b :: u16)) = b"
  "from_be_bytes (to_be_bytes (c :: u32)) = c"
  "from_be_bytes (to_be_bytes (d :: u64)) = d"
  "from_be_bytes (to_be_bytes (e :: u128)) = e"
  by (simp_all add: from_to_be_bytes)

lemma length_to_le_bytes [simp]: "length (to_le_bytes w) = length (to_be_bytes w)"
  by (simp add: to_le_bytes_def)

lemma from_to_le_bytes [simp]: "from_le_bytes (to_le_bytes (w :: u16)) = w"
  by (simp add: to_le_bytes_def from_le_bytes_def)

subsection \<open>Flag bits\<close>

text \<open>A length in the low bits of a word with a flag in the high bits, and the two top bits of a
  byte.\<close>

lemma top2_table: "list_all (\<lambda>n::int. n AND 192 = 64 * (n div 64)) [0..255]" by code_simp

lemma and_mask_nat: "(n::nat) AND (2 ^ k - 1) = n mod 2 ^ k"
  by (metis take_bit_eq_mod take_bit_eq_mask mask_eq_exp_minus_1)

lemma or_flag_nat:
  assumes "n < 2 ^ k"
  shows "(n::nat) OR (c * 2 ^ k) = n + c * 2 ^ k"
proof -
  have n: "take_bit k n = n" using assms by (simp add: take_bit_nat_eq_self)
  have "take_bit k n AND push_bit k c = 0"
    by (rule bit_eqI) (auto simp: bit_simps)
  with n have "n AND push_bit k c = 0" by simp
  then have "n + push_bit k c = n OR push_bit k c" by (rule disjunctive_add_eq_or)
  then show ?thesis by (simp add: push_bit_eq_mult)
qed

lemma top2_unat: "unat ((b :: u8) AND 192) = 64 * (unat b div 64)"
proof -
  have "uint b < 256" using unsigned_less [of b, where 'a = int] by simp
  then have "uint b \<in> set [0..255]" by simp
  then have "uint b AND 192 = 64 * (uint b div 64)"
    using top2_table unfolding list_all_iff by blast
  then have "uint (b AND 192) = 64 * (uint b div 64)"
    by (simp add: unsigned_and_eq)
  then have "int (unat (b AND 192)) = int (64 * (unat b div 64))"
    by (simp add: of_nat_div)
  then show ?thesis by (simp only: of_nat_eq_iff)
qed

lemma top2_cases:
  "(b :: u8) AND 192 = 0 \<longleftrightarrow> unat b < 64"
  "b AND 192 = 64 \<longleftrightarrow> 64 \<le> unat b \<and> unat b < 128"
  "b AND 192 = 128 \<longleftrightarrow> 128 \<le> unat b \<and> unat b < 192"
  "b AND 192 = 192 \<longleftrightarrow> 192 \<le> unat b"
  using unsigned_less [of b, where 'a = nat]
  by (auto simp: word_unat_eq_iff top2_unat)
subsection \<open>Lists and prefixes\<close>

text \<open>The bytes of an ASCII string literal.\<close>

definition str :: "string \<Rightarrow> bytes" where
  "str s = map of_char s"

lemma drop_eq_suffix: "xs = ys @ zs \<Longrightarrow> drop (length xs - length zs) xs = zs"
  by simp

lemma take_take_drop_append: "k \<le> length xs \<Longrightarrow> take k xs @ drop k xs = xs"
  by simp

end
