(* ===== verification/ErrorCode.thy ===== *)
theory ErrorCode
  imports Prelude
begin

text \<open>
  The error codes of \<^verbatim>\<open>component/cyfs-base/src/base/error.rs\<close>: the numbered codes
  \<open>BuckySystemErrorCode\<close>, the compatibility enum \<open>BuckyErrorCode\<close> with its payload-carrying
  MetaChain and DEC codes, the conversions between them, and the \<open>u16\<close>/\<open>u32\<close> codes that
  travel in packages, HTTP headers and JSON. The lemmas say exactly which codes survive a
  conversion round trip.
  The text of an error (\<open>msg\<close>) and its \<open>origin\<close> carry no control flow and are not modelled.
\<close>

subsection \<open>Code ranges\<close>

definition BUCKY_SYSTEM_ERROR_CODE_END :: u16 where
  "BUCKY_SYSTEM_ERROR_CODE_END = 5000"

definition BUCKY_META_ERROR_CODE_START :: u16 where
  "BUCKY_META_ERROR_CODE_START = 5000"

definition BUCKY_META_ERROR_CODE_END :: u16 where
  "BUCKY_META_ERROR_CODE_END = 6000"

definition BUCKY_META_ERROR_CODE_MAX :: u16 where
  "BUCKY_META_ERROR_CODE_MAX = BUCKY_META_ERROR_CODE_END - BUCKY_META_ERROR_CODE_START - 1"

definition BUCKY_DEC_ERROR_CODE_START :: u16 where
  "BUCKY_DEC_ERROR_CODE_START = 15000"

definition BUCKY_DEC_ERROR_CODE_END :: u16 where
  "BUCKY_DEC_ERROR_CODE_END = 65535"

definition BUCKY_DEC_ERROR_CODE_MAX :: u16 where
  "BUCKY_DEC_ERROR_CODE_MAX = BUCKY_DEC_ERROR_CODE_END - BUCKY_DEC_ERROR_CODE_START"

lemmas code_range_defs = BUCKY_SYSTEM_ERROR_CODE_END_def BUCKY_META_ERROR_CODE_START_def
  BUCKY_META_ERROR_CODE_END_def BUCKY_META_ERROR_CODE_MAX_def BUCKY_DEC_ERROR_CODE_START_def
  BUCKY_DEC_ERROR_CODE_END_def BUCKY_DEC_ERROR_CODE_MAX_def

definition is_system_error_code :: "u16 \<Rightarrow> bool" where
  "is_system_error_code code = (code < BUCKY_SYSTEM_ERROR_CODE_END)"

definition is_meta_error_code :: "u16 \<Rightarrow> bool" where
  "is_meta_error_code code =
     (BUCKY_META_ERROR_CODE_START \<le> code \<and> code < BUCKY_META_ERROR_CODE_END)"

definition is_dec_error_code :: "u16 \<Rightarrow> bool" where
  "is_dec_error_code code = (BUCKY_DEC_ERROR_CODE_START \<le> code)"

lemmas code_kind_defs = is_system_error_code_def is_meta_error_code_def is_dec_error_code_def
  code_range_defs

subsection \<open>The two enums\<close>

datatype (plugins only: code) bucky_system_error_code =
    Ok | Failed | InvalidParam | Timeout | NotFound | AlreadyExists | NotSupport | ErrorState
    | InvalidFormat | Expired | OutOfLimit | InternalError | PermissionDenied
    | ConnectionRefused | ConnectionReset | ConnectionAborted | NotConnected | AddrInUse
    | AddrNotAvailable | Interrupted | InvalidInput | InvalidData | WriteZero | UnexpectedEof
    | BrokenPipe | WouldBlock | UnSupport | Unmatch | ExecuteError | Reject | Ignored
    | InvalidSignature | AlreadyExistsAndSignatureMerged | TargetNotFound | Aborted
    | ConnectFailed | ConnectInterZoneFailed | InnerPathNotFound | RangeNotSatisfiable
    | UserCanceled | Conflict | OutofSessionLimit | Redirect | MongoDBError | SqliteError
    | UrlError | ZipError | HttpError | JsonError | HexError | RsaError | CryptoError
    | MpscSendError | MpscRecvError | IoError | NetworkError | CodeError | UnknownBdtError
    | UnknownIOError | Unknown | Pending | NotChange | NotMatch | NotImplement | NotInit
    | ParseError | NotHandled | InvalidTarget | ErrorTimestamp | DecNotRunning | MetaError
    | DecError

datatype (plugins only: code) bucky_error_code =
    Ok | Failed | InvalidParam | Timeout | NotFound | AlreadyExists | NotSupport | ErrorState
    | InvalidFormat | Expired | OutOfLimit | InternalError | PermissionDenied
    | ConnectionRefused | ConnectionReset | ConnectionAborted | NotConnected | AddrInUse
    | AddrNotAvailable | Interrupted | InvalidInput | InvalidData | WriteZero | UnexpectedEof
    | BrokenPipe | WouldBlock | UnSupport | Unmatch | ExecuteError | Reject | Ignored
    | InvalidSignature | AlreadyExistsAndSignatureMerged | TargetNotFound | Aborted
    | ConnectFailed | ConnectInterZoneFailed | InnerPathNotFound | RangeNotSatisfiable
    | UserCanceled | Conflict | OutofSessionLimit | Redirect | MongoDBError | SqliteError
    | UrlError | ZipError | HttpError | JsonError | HexError | RsaError | CryptoError
    | MpscSendError | MpscRecvError | IoError | NetworkError | CodeError | UnknownBdtError
    | UnknownIOError | Unknown | Pending | NotChange | NotMatch | NotImplement | NotInit
    | ParseError | NotHandled | InvalidTarget | ErrorTimestamp | DecNotRunning | MetaError u16
    | DecError u16

text \<open>The discriminants of \<open>BuckySystemErrorCode\<close> (\<open>self as u16\<close>).\<close>

primrec sys_into_u16 :: "bucky_system_error_code \<Rightarrow> u16" where
  "sys_into_u16 bucky_system_error_code.Ok = 0"
| "sys_into_u16 bucky_system_error_code.Failed = 1"
| "sys_into_u16 bucky_system_error_code.InvalidParam = 2"
| "sys_into_u16 bucky_system_error_code.Timeout = 3"
| "sys_into_u16 bucky_system_error_code.NotFound = 4"
| "sys_into_u16 bucky_system_error_code.AlreadyExists = 5"
| "sys_into_u16 bucky_system_error_code.NotSupport = 6"
| "sys_into_u16 bucky_system_error_code.ErrorState = 7"
| "sys_into_u16 bucky_system_error_code.InvalidFormat = 8"
| "sys_into_u16 bucky_system_error_code.Expired = 9"
| "sys_into_u16 bucky_system_error_code.OutOfLimit = 10"
| "sys_into_u16 bucky_system_error_code.InternalError = 11"
| "sys_into_u16 bucky_system_error_code.PermissionDenied = 12"
| "sys_into_u16 bucky_system_error_code.ConnectionRefused = 13"
| "sys_into_u16 bucky_system_error_code.ConnectionReset = 14"
| "sys_into_u16 bucky_system_error_code.ConnectionAborted = 15"
| "sys_into_u16 bucky_system_error_code.NotConnected = 16"
| "sys_into_u16 bucky_system_error_code.AddrInUse = 18"
| "sys_into_u16 bucky_system_error_code.AddrNotAvailable = 19"
| "sys_into_u16 bucky_system_error_code.Interrupted = 20"
| "sys_into_u16 bucky_system_error_code.InvalidInput = 21"
| "sys_into_u16 bucky_system_error_code.InvalidData = 22"
| "sys_into_u16 bucky_system_error_code.WriteZero = 23"
| "sys_into_u16 bucky_system_error_code.UnexpectedEof = 24"
| "sys_into_u16 bucky_system_error_code.BrokenPipe = 25"
| "sys_into_u16 bucky_system_error_code.WouldBlock = 26"
| "sys_into_u16 bucky_system_error_code.UnSupport = 27"
| "sys_into_u16 bucky_system_error_code.Unmatch = 28"
| "sys_into_u16 bucky_system_error_code.ExecuteError = 29"
| "sys_into_u16 bucky_system_error_code.Reject = 30"
| "sys_into_u16 bucky_system_error_code.Ignored = 31"
| "sys_into_u16 bucky_system_error_code.InvalidSignature = 32"
| "sys_into_u16 bucky_system_error_code.AlreadyExistsAndSignatureMerged = 33"
| "sys_into_u16 bucky_system_error_code.TargetNotFound = 34"
| "sys_into_u16 bucky_system_error_code.Aborted = 35"
| "sys_into_u16 bucky_system_error_code.ConnectFailed = 40"
| "sys_into_u16 bucky_system_error_code.ConnectInterZoneFailed = 41"
| "sys_into_u16 bucky_system_error_code.InnerPathNotFound = 42"
| "sys_into_u16 bucky_system_error_code.RangeNotSatisfiable = 43"
| "sys_into_u16 bucky_system_error_code.UserCanceled = 44"
| "sys_into_u16 bucky_system_error_code.Conflict = 50"
| "sys_into_u16 bucky_system_error_code.OutofSessionLimit = 60"
| "sys_into_u16 bucky_system_error_code.Redirect = 66"
| "sys_into_u16 bucky_system_error_code.MongoDBError = 99"
| "sys_into_u16 bucky_system_error_code.SqliteError = 100"
| "sys_into_u16 bucky_system_error_code.UrlError = 101"
| "sys_into_u16 bucky_system_error_code.ZipError = 102"
| "sys_into_u16 bucky_system_error_code.HttpError = 103"
| "sys_into_u16 bucky_system_error_code.JsonError = 104"
| "sys_into_u16 bucky_system_error_code.HexError = 105"
| "sys_into_u16 bucky_system_error_code.RsaError = 106"
| "sys_into_u16 bucky_system_error_code.CryptoError = 107"
| "sys_into_u16 bucky_system_error_code.MpscSendError = 108"
| "sys_into_u16 bucky_system_error_code.MpscRecvError = 109"
| "sys_into_u16 bucky_system_error_code.IoError = 110"
| "sys_into_u16 bucky_system_error_code.NetworkError = 111"
| "sys_into_u16 bucky_system_error_code.CodeError = 250"
| "sys_into_u16 bucky_system_error_code.UnknownBdtError = 253"
| "sys_into_u16 bucky_system_error_code.UnknownIOError = 254"
| "sys_into_u16 bucky_system_error_code.Unknown = 255"
| "sys_into_u16 bucky_system_error_code.Pending = 256"
| "sys_into_u16 bucky_system_error_code.NotChange = 257"
| "sys_into_u16 bucky_system_error_code.NotMatch = 258"
| "sys_into_u16 bucky_system_error_code.NotImplement = 259"
| "sys_into_u16 bucky_system_error_code.NotInit = 260"
| "sys_into_u16 bucky_system_error_code.ParseError = 261"
| "sys_into_u16 bucky_system_error_code.NotHandled = 262"
| "sys_into_u16 bucky_system_error_code.InvalidTarget = 263"
| "sys_into_u16 bucky_system_error_code.ErrorTimestamp = 264"
| "sys_into_u16 bucky_system_error_code.DecNotRunning = 265"
| "sys_into_u16 bucky_system_error_code.MetaError = 5000"
| "sys_into_u16 bucky_system_error_code.DecError = 15000"

definition all_system_codes :: "bucky_system_error_code list" where
  "all_system_codes =
    [bucky_system_error_code.Ok, bucky_system_error_code.Failed
     , bucky_system_error_code.InvalidParam, bucky_system_error_code.Timeout
     , bucky_system_error_code.NotFound, bucky_system_error_code.AlreadyExists
     , bucky_system_error_code.NotSupport, bucky_system_error_code.ErrorState
     , bucky_system_error_code.InvalidFormat, bucky_system_error_code.Expired
     , bucky_system_error_code.OutOfLimit, bucky_system_error_code.InternalError
     , bucky_system_error_code.PermissionDenied, bucky_system_error_code.ConnectionRefused
     , bucky_system_error_code.ConnectionReset, bucky_system_error_code.ConnectionAborted
     , bucky_system_error_code.NotConnected, bucky_system_error_code.AddrInUse
     , bucky_system_error_code.AddrNotAvailable, bucky_system_error_code.Interrupted
     , bucky_system_error_code.InvalidInput, bucky_system_error_code.InvalidData
     , bucky_system_error_code.WriteZero, bucky_system_error_code.UnexpectedEof
     , bucky_system_error_code.BrokenPipe, bucky_system_error_code.WouldBlock
     , bucky_system_error_code.UnSupport, bucky_system_error_code.Unmatch
     , bucky_system_error_code.ExecuteError, bucky_system_error_code.Reject
     , bucky_system_error_code.Ignored, bucky_system_error_code.InvalidSignature
     , bucky_system_error_code.AlreadyExistsAndSignatureMerged
     , bucky_system_error_code.TargetNotFound, bucky_system_error_code.Aborted
     , bucky_system_error_code.ConnectFailed, bucky_system_error_code.ConnectInterZoneFailed
     , bucky_system_error_code.InnerPathNotFound, bucky_system_error_code.RangeNotSatisfiable
     , bucky_system_error_code.UserCanceled, bucky_system_error_code.Conflict
     , bucky_system_error_code.OutofSessionLimit, bucky_system_error_code.Redirect
     , bucky_system_error_code.MongoDBError, bucky_system_error_code.SqliteError
     , bucky_system_error_code.UrlError, bucky_system_error_code.ZipError
     , bucky_system_error_code.HttpError, bucky_system_error_code.JsonError
     , bucky_system_error_code.HexError, bucky_system_error_code.RsaError
     , bucky_system_error_code.CryptoError, bucky_system_error_code.MpscSendError
     , bucky_system_error_code.MpscRecvError, bucky_system_error_code.IoError
     , bucky_system_error_code.NetworkError, bucky_system_error_code.CodeError
     , bucky_system_error_code.UnknownBdtError, bucky_system_error_code.UnknownIOError
     , bucky_system_error_code.Unknown, bucky_system_error_code.Pending
     , bucky_system_error_code.NotChange, bucky_system_error_code.NotMatch
     , bucky_system_error_code.NotImplement, bucky_system_error_code.NotInit
     , bucky_system_error_code.ParseError, bucky_system_error_code.NotHandled
     , bucky_system_error_code.InvalidTarget, bucky_system_error_code.ErrorTimestamp
     , bucky_system_error_code.DecNotRunning, bucky_system_error_code.MetaError
     , bucky_system_error_code.DecError]"

text \<open>The derived \<open>IntEnum::from_int\<close>: the code with that discriminant, if there is one.\<close>

definition sys_from_int :: "u16 \<Rightarrow> bucky_system_error_code option" where
  "sys_from_int code = List.find (\<lambda>c. sys_into_u16 c = code) all_system_codes"

definition sys_from_u16 :: "u16 \<Rightarrow> bucky_system_error_code" where
  "sys_from_u16 code =
     (case sys_from_int code of
        Some c \<Rightarrow> c
      | None \<Rightarrow>
          if is_dec_error_code code then bucky_system_error_code.DecError
          else if is_meta_error_code code then bucky_system_error_code.MetaError
          else bucky_system_error_code.Unknown)"

subsection \<open>Conversions between the enums\<close>

primrec err_into_sys :: "bucky_error_code \<Rightarrow> bucky_system_error_code" where
  "err_into_sys bucky_error_code.Ok = bucky_system_error_code.Ok"
| "err_into_sys bucky_error_code.Failed = bucky_system_error_code.Failed"
| "err_into_sys bucky_error_code.InvalidParam = bucky_system_error_code.InvalidParam"
| "err_into_sys bucky_error_code.Timeout = bucky_system_error_code.Timeout"
| "err_into_sys bucky_error_code.NotFound = bucky_system_error_code.NotFound"
| "err_into_sys bucky_error_code.AlreadyExists = bucky_system_error_code.AlreadyExists"
| "err_into_sys bucky_error_code.NotSupport = bucky_system_error_code.NotSupport"
| "err_into_sys bucky_error_code.ErrorState = bucky_system_error_code.ErrorState"
| "err_into_sys bucky_error_code.InvalidFormat = bucky_system_error_code.InvalidFormat"
| "err_into_sys bucky_error_code.Expired = bucky_system_error_code.Expired"
| "err_into_sys bucky_error_code.OutOfLimit = bucky_system_error_code.OutOfLimit"
| "err_into_sys bucky_error_code.InternalError = bucky_system_error_code.InternalError"
| "err_into_sys bucky_error_code.PermissionDenied = bucky_system_error_code.PermissionDenied"
| "err_into_sys bucky_error_code.ConnectionRefused = bucky_system_error_code.ConnectionRefused"
| "err_into_sys bucky_error_code.ConnectionReset = bucky_system_error_code.ConnectionReset"
| "err_into_sys bucky_error_code.ConnectionAborted = bucky_system_error_code.ConnectionAborted"
| "err_into_sys bucky_error_code.NotConnected = bucky_system_error_code.NotConnected"
| "err_into_sys bucky_error_code.AddrInUse = bucky_system_error_code.AddrInUse"
| "err_into_sys bucky_error_code.AddrNotAvailable = bucky_system_error_code.AddrNotAvailable"
| "err_into_sys bucky_error_code.Interrupted = bucky_system_error_code.Interrupted"
| "err_into_sys bucky_error_code.InvalidInput = bucky_system_error_code.InvalidInput"
| "err_into_sys bucky_error_code.InvalidData = bucky_system_error_code.InvalidData"
| "err_into_sys bucky_error_code.WriteZero = bucky_system_error_code.WriteZero"
| "err_into_sys bucky_error_code.UnexpectedEof = bucky_system_error_code.UnexpectedEof"
| "err_into_sys bucky_error_code.BrokenPipe = bucky_system_error_code.BrokenPipe"
| "err_into_sys bucky_error_code.WouldBlock = bucky_system_error_code.WouldBlock"
| "err_into_sys bucky_error_code.UnSupport = bucky_system_error_code.UnSupport"
| "err_into_sys bucky_error_code.Unmatch = bucky_system_error_code.Unmatch"
| "err_into_sys bucky_error_code.ExecuteError = bucky_system_error_code.ExecuteError"
| "err_into_sys bucky_error_code.Reject = bucky_system_error_code.Reject"
| "err_into_sys bucky_error_code.Ignored = bucky_system_error_code.Ignored"
| "err_into_sys bucky_error_code.InvalidSignature = bucky_system_error_code.InvalidSignature"
| "err_into_sys bucky_error_code.AlreadyExistsAndSignatureMerged = bucky_system_error_code.AlreadyExistsAndSignatureMerged"
| "err_into_sys bucky_error_code.TargetNotFound = bucky_system_error_code.TargetNotFound"
| "err_into_sys bucky_error_code.Aborted = bucky_system_error_code.Aborted"
| "err_into_sys bucky_error_code.ConnectFailed = bucky_system_error_code.ConnectFailed"
| "err_into_sys bucky_error_code.ConnectInterZoneFailed = bucky_system_error_code.ConnectInterZoneFailed"
| "err_into_sys bucky_error_code.InnerPathNotFound = bucky_system_error_code.InnerPathNotFound"
| "err_into_sys bucky_error_code.RangeNotSatisfiable = bucky_system_error_code.RangeNotSatisfiable"
| "err_into_sys bucky_error_code.UserCanceled = bucky_system_error_code.UserCanceled"
| "err_into_sys bucky_error_code.Conflict = bucky_system_error_code.Conflict"
| "err_into_sys bucky_error_code.OutofSessionLimit = bucky_system_error_code.OutofSessionLimit"
| "err_into_sys bucky_error_code.Redirect = bucky_system_error_code.Redirect"
| "err_into_sys bucky_error_code.MongoDBError = bucky_system_error_code.MongoDBError"
| "err_into_sys bucky_error_code.SqliteError = bucky_system_error_code.SqliteError"
| "err_into_sys bucky_error_code.UrlError = bucky_system_error_code.UrlError"
| "err_into_sys bucky_error_code.ZipError = bucky_system_error_code.ZipError"
| "err_into_sys bucky_error_code.HttpError = bucky_system_error_code.HttpError"
| "err_into_sys bucky_error_code.JsonError = bucky_system_error_code.JsonError"
| "err_into_sys bucky_error_code.HexError = bucky_system_error_code.RsaError"
| "err_into_sys bucky_error_code.RsaError = bucky_system_error_code.InternalError"
| "err_into_sys bucky_error_code.CryptoError = bucky_system_error_code.CryptoError"
| "err_into_sys bucky_error_code.MpscSendError = bucky_system_error_code.MpscSendError"
| "err_into_sys bucky_error_code.MpscRecvError = bucky_system_error_code.MpscRecvError"
| "err_into_sys bucky_error_code.IoError = bucky_system_error_code.IoError"
| "err_into_sys bucky_error_code.NetworkError = bucky_system_error_code.NetworkError"
| "err_into_sys bucky_error_code.CodeError = bucky_system_error_code.CodeError"
| "err_into_sys bucky_error_code.UnknownBdtError = bucky_system_error_code.UnknownBdtError"
| "err_into_sys bucky_error_code.UnknownIOError = bucky_system_error_code.UnknownIOError"
| "err_into_sys bucky_error_code.Unknown = bucky_system_error_code.Unknown"
| "err_into_sys bucky_error_code.Pending = bucky_system_error_code.Pending"
| "err_into_sys bucky_error_code.NotChange = bucky_system_error_code.NotChange"
| "err_into_sys bucky_error_code.NotMatch = bucky_system_error_code.NotMatch"
| "err_into_sys bucky_error_code.NotImplement = bucky_system_error_code.NotImplement"
| "err_into_sys bucky_error_code.NotInit = bucky_system_error_code.NotInit"
| "err_into_sys bucky_error_code.ParseError = bucky_system_error_code.ParseError"
| "err_into_sys bucky_error_code.NotHandled = bucky_system_error_code.NotHandled"
| "err_into_sys bucky_error_code.InvalidTarget = bucky_system_error_code.InvalidTarget"
| "err_into_sys bucky_error_code.ErrorTimestamp = bucky_system_error_code.ErrorTimestamp"
| "err_into_sys bucky_error_code.DecNotRunning = bucky_system_error_code.DecNotRunning"
| "err_into_sys (bucky_error_code.MetaError v) = bucky_system_error_code.MetaError"
| "err_into_sys (bucky_error_code.DecError v) = bucky_system_error_code.DecError"

primrec sys_into_err :: "bucky_system_error_code \<Rightarrow> bucky_error_code" where
  "sys_into_err bucky_system_error_code.Ok = bucky_error_code.Ok"
| "sys_into_err bucky_system_error_code.Failed = bucky_error_code.Failed"
| "sys_into_err bucky_system_error_code.InvalidParam = bucky_error_code.InvalidParam"
| "sys_into_err bucky_system_error_code.Timeout = bucky_error_code.Timeout"
| "sys_into_err bucky_system_error_code.NotFound = bucky_error_code.NotFound"
| "sys_into_err bucky_system_error_code.AlreadyExists = bucky_error_code.AlreadyExists"
| "sys_into_err bucky_system_error_code.NotSupport = bucky_error_code.NotSupport"
| "sys_into_err bucky_system_error_code.ErrorState = bucky_error_code.ErrorState"
| "sys_into_err bucky_system_error_code.InvalidFormat = bucky_error_code.InvalidFormat"
| "sys_into_err bucky_system_error_code.Expired = bucky_error_code.Expired"
| "sys_into_err bucky_system_error_code.OutOfLimit = bucky_error_code.OutOfLimit"
| "sys_into_err bucky_system_error_code.InternalError = bucky_error_code.InternalError"
| "sys_into_err bucky_system_error_code.PermissionDenied = bucky_error_code.PermissionDenied"
| "sys_into_err bucky_system_error_code.ConnectionRefused = bucky_error_code.ConnectionRefused"
| "sys_into_err bucky_system_error_code.ConnectionReset = bucky_error_code.ConnectionReset"
| "sys_into_err bucky_system_error_code.ConnectionAborted = bucky_error_code.ConnectionAborted"
| "sys_into_err bucky_system_error_code.NotConnected = bucky_error_code.NotConnected"
| "sys_into_err bucky_system_error_code.AddrInUse = bucky_error_code.AddrInUse"
| "sys_into_err bucky_system_error_code.AddrNotAvailable = bucky_error_code.AddrNotAvailable"
| "sys_into_err bucky_system_error_code.Interrupted = bucky_error_code.Interrupted"
| "sys_into_err bucky_system_error_code.InvalidInput = bucky_error_code.InvalidInput"
| "sys_into_err bucky_system_error_code.InvalidData = bucky_error_code.InvalidData"
| "sys_into_err bucky_system_error_code.WriteZero = bucky_error_code.WriteZero"
| "sys_into_err bucky_system_error_code.UnexpectedEof = bucky_error_code.UnexpectedEof"
| "sys_into_err bucky_system_error_code.BrokenPipe = bucky_error_code.BrokenPipe"
| "sys_into_err bucky_system_error_code.WouldBlock = bucky_error_code.WouldBlock"
| "sys_into_err bucky_system_error_code.UnSupport = bucky_error_code.UnSupport"
| "sys_into_err bucky_system_error_code.Unmatch = bucky_error_code.Unmatch"
| "sys_into_err bucky_system_error_code.ExecuteError = bucky_error_code.ExecuteError"
| "sys_into_err bucky_system_error_code.Reject = bucky_error_code.Reject"
| "sys_into_err bucky_system_error_code.Ignored = bucky_error_code.Ignored"
| "sys_into_err bucky_system_error_code.InvalidSignature = bucky_error_code.InvalidSignature"
| "sys_into_err bucky_system_error_code.AlreadyExistsAndSignatureMerged = bucky_error_code.AlreadyExistsAndSignatureMerged"
| "sys_into_err bucky_system_error_code.TargetNotFound = bucky_error_code.TargetNotFound"
| "sys_into_err bucky_system_error_code.Aborted = bucky_error_code.Aborted"
| "sys_into_err bucky_system_error_code.ConnectFailed = bucky_error_code.ConnectFailed"
| "sys_into_err bucky_system_error_code.ConnectInterZoneFailed = bucky_error_code.ConnectInterZoneFailed"
| "sys_into_err bucky_system_error_code.InnerPathNotFound = bucky_error_code.InnerPathNotFound"
| "sys_into_err bucky_system_error_code.RangeNotSatisfiable = bucky_error_code.RangeNotSatisfiable"
| "sys_into_err bucky_system_error_code.UserCanceled = bucky_error_code.UserCanceled"
| "sys_into_err bucky_system_error_code.Conflict = bucky_error_code.Conflict"
| "sys_into_err bucky_system_error_code.OutofSessionLimit = bucky_error_code.OutofSessionLimit"
| "sys_into_err bucky_system_error_code.Redirect = bucky_error_code.Redirect"
| "sys_into_err bucky_system_error_code.MongoDBError = bucky_error_code.MongoDBError"
| "sys_into_err bucky_system_error_code.SqliteError = bucky_error_code.SqliteError"
| "sys_into_err bucky_system_error_code.UrlError = bucky_error_code.UrlError"
| "sys_into_err bucky_system_error_code.ZipError = bucky_error_code.ZipError"
| "sys_into_err bucky_system_error_code.HttpError = bucky_error_code.HttpError"
| "sys_into_err bucky_system_error_code.JsonError = bucky_error_code.JsonError"
| "sys_into_err bucky_system_error_code.HexError = bucky_error_code.RsaError"
| "sys_into_err bucky_system_error_code.RsaError = bucky_error_code.InternalError"
| "sys_into_err bucky_system_error_code.CryptoError = bucky_error_code.CryptoError"
| "sys_into_err bucky_system_error_code.MpscSendError = bucky_error_code.MpscSendError"
| "sys_into_err bucky_system_error_code.MpscRecvError = bucky_error_code.MpscRecvError"
| "sys_into_err bucky_system_error_code.IoError = bucky_error_code.IoError"
| "sys_into_err bucky_system_error_code.NetworkError = bucky_error_code.NetworkError"
| "sys_into_err bucky_system_error_code.CodeError = bucky_error_code.CodeError"
| "sys_into_err bucky_system_error_code.UnknownBdtError = bucky_error_code.UnknownBdtError"
| "sys_into_err bucky_system_error_code.UnknownIOError = bucky_error_code.UnknownIOError"
| "sys_into_err bucky_system_error_code.Unknown = bucky_error_code.Unknown"
| "sys_into_err bucky_system_error_code.Pending = bucky_error_code.Pending"
| "sys_into_err bucky_system_error_code.NotChange = bucky_error_code.NotChange"
| "sys_into_err bucky_system_error_code.NotMatch = bucky_error_code.NotMatch"
| "sys_into_err bucky_system_error_code.NotImplement = bucky_error_code.NotImplement"
| "sys_into_err bucky_system_error_code.NotInit = bucky_error_code.NotInit"
| "sys_into_err bucky_system_error_code.ParseError = bucky_error_code.ParseError"
| "sys_into_err bucky_system_error_code.NotHandled = bucky_error_code.NotHandled"
| "sys_into_err bucky_system_error_code.InvalidTarget = bucky_error_code.InvalidTarget"
| "sys_into_err bucky_system_error_code.ErrorTimestamp = bucky_error_code.ErrorTimestamp"
| "sys_into_err bucky_system_error_code.DecNotRunning = bucky_error_code.DecNotRunning"
| "sys_into_err bucky_system_error_code.MetaError = bucky_error_code.MetaError 0"
| "sys_into_err bucky_system_error_code.DecError = bucky_error_code.DecError 0"

subsection \<open>Numeric codes\<close>

definition err_into_u16 :: "bucky_error_code \<Rightarrow> u16" where
  "err_into_u16 c =
     (case c of
        bucky_error_code.MetaError v \<Rightarrow>
          BUCKY_META_ERROR_CODE_START +
            (if v > BUCKY_META_ERROR_CODE_MAX then BUCKY_META_ERROR_CODE_MAX else v)
      | bucky_error_code.DecError v \<Rightarrow>
          BUCKY_DEC_ERROR_CODE_START +
            (if v > BUCKY_DEC_ERROR_CODE_MAX then BUCKY_DEC_ERROR_CODE_MAX else v)
      | _ \<Rightarrow> sys_into_u16 (err_into_sys c))"

definition err_from_u16 :: "u16 \<Rightarrow> bucky_error_code" where
  "err_from_u16 code =
     (if is_system_error_code code then sys_into_err (sys_from_u16 code)
      else if is_meta_error_code code
      then bucky_error_code.MetaError (code - BUCKY_META_ERROR_CODE_START)
      else if is_dec_error_code code
      then bucky_error_code.DecError (code - BUCKY_DEC_ERROR_CODE_START)
      else bucky_error_code.Unknown)"

definition err_into_u32 :: "bucky_error_code \<Rightarrow> u32" where
  "err_into_u32 c = ucast (err_into_u16 c)"

definition err_from_u32 :: "u32 \<Rightarrow> bucky_error_code" where
  "err_from_u32 code =
     (if code < 65535 then err_from_u16 (ucast code) else bucky_error_code.Unknown)"

text \<open>\<open>as_u8\<close> and \<open>into_u8\<close>: the low byte of the code.\<close>

definition err_as_u8 :: "bucky_error_code \<Rightarrow> u8" where
  "err_as_u8 c = ucast (err_into_u16 c)"

definition err_is_meta_error :: "bucky_error_code \<Rightarrow> bool" where
  "err_is_meta_error c = (case c of bucky_error_code.MetaError _ \<Rightarrow> True | _ \<Rightarrow> False)"

definition err_is_dec_error :: "bucky_error_code \<Rightarrow> bool" where
  "err_is_dec_error c = (case c of bucky_error_code.DecError _ \<Rightarrow> True | _ \<Rightarrow> False)"

text \<open>The visitor of the serde deserialiser, for a JSON number.\<close>

definition visit_u64 :: "u64 \<Rightarrow> bucky_error_code" where
  "visit_u64 v = (if v < 65535 then err_from_u16 (ucast v) else bucky_error_code.Unknown)"

subsection \<open>The standard form\<close>

datatype bucky_error_code_ex =
  System bucky_system_error_code | ExMetaError u16 | ExDecError u16

primrec ex_into_err :: "bucky_error_code_ex \<Rightarrow> bucky_error_code" where
  "ex_into_err (System code) = sys_into_err code"
| "ex_into_err (ExMetaError v) = bucky_error_code.MetaError v"
| "ex_into_err (ExDecError v) = bucky_error_code.DecError v"

text \<open>
  \<open>Into<BuckyErrorCodeEx> for BuckyErrorCode\<close>: the wildcard arm \<open>_ => self.into()\<close> resolves to
  the same implementation, so the call is its own recursion. \<open>None\<close> is a call that does not
  return.
\<close>

partial_function (option) err_into_ex ::
    "bucky_error_code \<Rightarrow> bucky_error_code_ex option" where
  "err_into_ex c =
     (case c of
        bucky_error_code.MetaError v \<Rightarrow> Some (ExMetaError v)
      | bucky_error_code.DecError v \<Rightarrow> Some (ExDecError v)
      | _ \<Rightarrow> err_into_ex c)"

subsection \<open>I/O error kinds\<close>

text \<open>The kinds of \<open>std::io::ErrorKind\<close> that the conversions name; \<open>KOther\<close> stands for every
  other kind.\<close>

datatype error_kind =
    KNotFound | KPermissionDenied | KConnectionRefused | KConnectionReset | KConnectionAborted
  | KNotConnected | KAddrInUse | KAddrNotAvailable | KBrokenPipe | KAlreadyExists | KWouldBlock
  | KInvalidInput | KInvalidData | KTimedOut | KWriteZero | KInterrupted | KUnexpectedEof
  | KUnsupported | KOutOfMemory | KOther

definition io_error_kind_to_code :: "error_kind \<Rightarrow> bucky_error_code" where
  "io_error_kind_to_code kind =
     (case kind of
        KNotFound \<Rightarrow> bucky_error_code.NotFound
      | KPermissionDenied \<Rightarrow> bucky_error_code.PermissionDenied
      | KConnectionRefused \<Rightarrow> bucky_error_code.ConnectionRefused
      | KConnectionReset \<Rightarrow> bucky_error_code.ConnectionReset
      | KConnectionAborted \<Rightarrow> bucky_error_code.ConnectionAborted
      | KNotConnected \<Rightarrow> bucky_error_code.NotConnected
      | KAddrInUse \<Rightarrow> bucky_error_code.AddrInUse
      | KAddrNotAvailable \<Rightarrow> bucky_error_code.AddrNotAvailable
      | KBrokenPipe \<Rightarrow> bucky_error_code.BrokenPipe
      | KAlreadyExists \<Rightarrow> bucky_error_code.AlreadyExists
      | KWouldBlock \<Rightarrow> bucky_error_code.WouldBlock
      | KInvalidInput \<Rightarrow> bucky_error_code.InvalidInput
      | KInvalidData \<Rightarrow> bucky_error_code.InvalidData
      | KTimedOut \<Rightarrow> bucky_error_code.Timeout
      | KWriteZero \<Rightarrow> bucky_error_code.WriteZero
      | KInterrupted \<Rightarrow> bucky_error_code.Interrupted
      | KUnexpectedEof \<Rightarrow> bucky_error_code.UnexpectedEof
      | _ \<Rightarrow> bucky_error_code.UnknownIOError)"

definition err_into_error_kind :: "bucky_error_code \<Rightarrow> error_kind" where
  "err_into_error_kind c =
     (case c of
        bucky_error_code.Reject \<Rightarrow> KPermissionDenied
      | bucky_error_code.PermissionDenied \<Rightarrow> KPermissionDenied
      | bucky_error_code.NotFound \<Rightarrow> KNotFound
      | bucky_error_code.ConnectionReset \<Rightarrow> KConnectionReset
      | bucky_error_code.ConnectionRefused \<Rightarrow> KConnectionRefused
      | bucky_error_code.ConnectionAborted \<Rightarrow> KConnectionAborted
      | bucky_error_code.AddrInUse \<Rightarrow> KAddrInUse
      | bucky_error_code.AddrNotAvailable \<Rightarrow> KAddrNotAvailable
      | bucky_error_code.NotConnected \<Rightarrow> KNotConnected
      | bucky_error_code.AlreadyExists \<Rightarrow> KAlreadyExists
      | bucky_error_code.Interrupted \<Rightarrow> KInterrupted
      | bucky_error_code.WriteZero \<Rightarrow> KWriteZero
      | bucky_error_code.UnexpectedEof \<Rightarrow> KUnexpectedEof
      | bucky_error_code.UnSupport \<Rightarrow> KUnsupported
      | bucky_error_code.BrokenPipe \<Rightarrow> KBrokenPipe
      | bucky_error_code.WouldBlock \<Rightarrow> KWouldBlock
      | bucky_error_code.Timeout \<Rightarrow> KTimedOut
      | bucky_error_code.OutOfLimit \<Rightarrow> KOutOfMemory
      | _ \<Rightarrow> KOther)"

subsection \<open>What survives a conversion\<close>

text \<open>The code that a receiver of the number sees.\<close>

definition wire_code :: "bucky_error_code \<Rightarrow> bucky_error_code" where
  "wire_code c =
     (case c of
        bucky_error_code.HexError \<Rightarrow> bucky_error_code.InternalError
      | bucky_error_code.RsaError \<Rightarrow> bucky_error_code.InternalError
      | bucky_error_code.MetaError v \<Rightarrow> bucky_error_code.MetaError (min v 999)
      | bucky_error_code.DecError v \<Rightarrow> bucky_error_code.DecError (min v 50535)
      | _ \<Rightarrow> c)"

lemma sys_from_into: "sys_from_int (sys_into_u16 c) = Some c"
  by (cases c) (simp_all add: sys_from_int_def all_system_codes_def)

lemma sys_from_u16_into: "sys_from_u16 (sys_into_u16 c) = c"
  by (simp add: sys_from_u16_def sys_from_into)

lemma sys_into_u16_inj: "sys_into_u16 a = sys_into_u16 b \<Longrightarrow> a = b"
  by (metis sys_from_u16_into)

lemma err_u16_sys:
  assumes "\<not> err_is_meta_error c" and "\<not> err_is_dec_error c"
  shows "err_into_u16 c = sys_into_u16 (err_into_sys c)"
    and "is_system_error_code (sys_into_u16 (err_into_sys c))"
  using assms
  by (cases c; simp add: err_into_u16_def err_is_meta_error_def err_is_dec_error_def code_kind_defs)+

lemma sys_into_err_into_sys:
  assumes "\<not> err_is_meta_error c" and "\<not> err_is_dec_error c"
  shows "sys_into_err (err_into_sys c) =
    (if c = bucky_error_code.HexError \<or> c = bucky_error_code.RsaError
     then bucky_error_code.InternalError else c)"
  using assms by (cases c) (simp_all add: err_is_meta_error_def err_is_dec_error_def)

lemma wire_code_sys:
  assumes "\<not> err_is_meta_error c" and "\<not> err_is_dec_error c"
  shows "wire_code c = sys_into_err (err_into_sys c)"
  using assms by (cases c) (simp_all add: wire_code_def err_is_meta_error_def err_is_dec_error_def)

lemma meta_code_range:
  fixes v :: u16
  assumes "v \<le> 999"
  shows "is_meta_error_code (5000 + v)" "\<not> is_system_error_code (5000 + v)" 
proof -
  have "unat v \<le> 999" using assms by (simp add: word_le_nat_alt)
  then have "unat (5000 + v) = 5000 + unat v"
    by (simp add: unat_word_ariths)
  with \<open>unat v \<le> 999\<close> show "is_meta_error_code (5000 + v)" "\<not> is_system_error_code (5000 + v)"
    by (simp_all add: code_kind_defs word_le_nat_alt word_less_nat_alt)
qed

lemma dec_code_range:
  fixes v :: u16
  assumes "v \<le> 50535"
  shows "is_dec_error_code (15000 + v)" "\<not> is_system_error_code (15000 + v)"
    "\<not> is_meta_error_code (15000 + v)"
proof -
  have "unat v \<le> 50535" using assms by (simp add: word_le_nat_alt)
  then have "unat (15000 + v) = 15000 + unat v"
    by (simp add: unat_word_ariths)
  with \<open>unat v \<le> 50535\<close> show "is_dec_error_code (15000 + v)" "\<not> is_system_error_code (15000 + v)"
    "\<not> is_meta_error_code (15000 + v)"
    by (simp_all add: code_kind_defs word_le_nat_alt word_less_nat_alt)
qed

lemma clamp_min: "(if v > m then m else v) = min v (m :: 'a::linorder)"
  by (auto simp: min_def)

lemma err_into_u16_meta: "err_into_u16 (bucky_error_code.MetaError v) = 5000 + min v 999"
  by (simp add: err_into_u16_def clamp_min code_range_defs)

lemma err_into_u16_dec: "err_into_u16 (bucky_error_code.DecError v) = 15000 + min v 50535"
  by (simp add: err_into_u16_def clamp_min code_range_defs)

lemma err_from_u16_meta: "v \<le> 999 \<Longrightarrow> err_from_u16 (5000 + v) = bucky_error_code.MetaError v"
  by (simp add: err_from_u16_def meta_code_range BUCKY_META_ERROR_CODE_START_def)

lemma err_from_u16_dec: "v \<le> 50535 \<Longrightarrow> err_from_u16 (15000 + v) = bucky_error_code.DecError v"
  by (simp add: err_from_u16_def dec_code_range BUCKY_DEC_ERROR_CODE_START_def)

lemma err_kind_cases:
  obtains v where "c = bucky_error_code.MetaError v"
  | v where "c = bucky_error_code.DecError v"
  | "\<not> err_is_meta_error c" "\<not> err_is_dec_error c"
  by (cases c) (simp_all add: err_is_meta_error_def err_is_dec_error_def)

lemma err_from_into_u16: "err_from_u16 (err_into_u16 c) = wire_code c"
proof (cases c rule: err_kind_cases)
  case (1 v)
  then show ?thesis
    by (simp add: err_into_u16_meta err_from_u16_meta wire_code_def)
next
  case (2 v)
  then show ?thesis
    by (simp add: err_into_u16_dec err_from_u16_dec wire_code_def)
next
  case 3
  then show ?thesis
    by (simp add: err_u16_sys err_from_u16_def sys_from_u16_into wire_code_sys)
qed

lemma ucast_u16_u32: "(ucast (ucast (x :: u16) :: u32) :: u16) = x"
  by (simp add: ucast_up_ucast_id is_up)

lemma ucast_less_u16_max: "(ucast (x :: u16) :: u32) < 65535 \<longleftrightarrow> x \<noteq> 65535"
proof -
  have "unat x < 65536" using unsigned_less [of x, where 'a = nat] by simp
  have "(ucast x :: u32) < 65535 \<longleftrightarrow> unat x < 65535"
    using \<open>unat x < 65536\<close>
    by (simp add: word_less_nat_alt unsigned_ucast_eq take_bit_nat_eq_self)
  also have "\<dots> \<longleftrightarrow> unat x \<noteq> 65535" using \<open>unat x < 65536\<close> by linarith
  also have "\<dots> \<longleftrightarrow> x \<noteq> 65535" by (simp add: word_unat_eq_iff)
  finally show ?thesis .
qed

lemma case_code_system:
  assumes "\<not> err_is_meta_error c" and "\<not> err_is_dec_error c"
  shows "(case c of
        bucky_error_code.MetaError v \<Rightarrow> f v
      | bucky_error_code.DecError v \<Rightarrow> g v
      | _ \<Rightarrow> x) = x"
  using assms by (cases c) (simp_all add: err_is_meta_error_def err_is_dec_error_def)

lemma err_into_ex_returns:
  assumes "err_into_ex c = Some x"
  shows "err_is_meta_error c \<or> err_is_dec_error c"
proof (rule err_into_ex.raw_induct
    [where P = "\<lambda>c x. err_is_meta_error c \<or> err_is_dec_error c", OF _ assms])
  fix f c x
  assume IH: "\<And>c x. f c = Some x \<Longrightarrow> err_is_meta_error c \<or> err_is_dec_error c"
    and eq: "(case c of
        bucky_error_code.MetaError v \<Rightarrow> Some (ExMetaError v)
      | bucky_error_code.DecError v \<Rightarrow> Some (ExDecError v)
      | _ \<Rightarrow> f c) = Some x"
  show "err_is_meta_error c \<or> err_is_dec_error c"
  proof (cases c rule: err_kind_cases)
    case 3
    have "f c = Some x" by (rule trans [OF case_code_system [OF 3, symmetric] eq])
    then show ?thesis by (rule IH)
  qed (simp_all add: err_is_meta_error_def err_is_dec_error_def)
qed
subsection \<open>Properties\<close>

text \<open>C33: Sending a \<open>BuckyErrorCode\<close> as its \<open>u16\<close> number and reading it back returns the same code,
  except that \<open>HexError\<close> and \<open>RsaError\<close> both come back as \<open>InternalError\<close> (the conversion tables
  shift these two entries by one line), and that payloads of MetaChain and DEC errors are clamped
  to the end of their ranges.\<close>

theorem bucky_error_code_u16_roundtrip:
  "err_from_u16 (err_into_u16 c) =
     (case c of
        bucky_error_code.HexError \<Rightarrow> bucky_error_code.InternalError
      | bucky_error_code.RsaError \<Rightarrow> bucky_error_code.InternalError
      | bucky_error_code.MetaError v \<Rightarrow> bucky_error_code.MetaError (min v 999)
      | bucky_error_code.DecError v \<Rightarrow> bucky_error_code.DecError (min v 50535)
      | _ \<Rightarrow> c)"
  unfolding wire_code_def [symmetric] by (rule err_from_into_u16)

text \<open>Through a \<open>u32\<close> the result is the same as through a \<open>u16\<close>, except that the largest DEC
  code is lost: its number is \<open>u16::MAX\<close>, which \<open>From<u32>\<close> excludes, so it reads back as
  \<open>Unknown\<close>.\<close>

theorem bucky_error_code_u32_roundtrip:
  "err_from_u32 (err_into_u32 c) =
     (if err_into_u16 c = 65535 then bucky_error_code.Unknown else err_from_u16 (err_into_u16 c))"
  by (simp add: err_from_u32_def err_into_u32_def ucast_less_u16_max ucast_u16_u32)

text \<open>The conversion of a \<open>BuckyErrorCode\<close> into the standard form returns for MetaChain and DEC
  errors only: for every system code its wildcard arm calls itself and never returns.\<close>

theorem bucky_error_code_into_ex_diverges:
  "err_into_ex c =
     (case c of
        bucky_error_code.MetaError v \<Rightarrow> Some (ExMetaError v)
      | bucky_error_code.DecError v \<Rightarrow> Some (ExDecError v)
      | _ \<Rightarrow> None)"
proof (cases c rule: err_kind_cases)
  case 3
  then have "err_into_ex c = None"
    using err_into_ex_returns [of c] by (cases "err_into_ex c") auto
  then show ?thesis by (rule trans [OF _ case_code_system [OF 3, symmetric]])
next
  case (1 v)
  show ?thesis unfolding 1 by (subst err_into_ex.simps) (simp only: bucky_error_code.case)
next
  case (2 v)
  show ?thesis unfolding 2 by (subst err_into_ex.simps) (simp only: bucky_error_code.case)
qed

subsection \<open>The result type of the sources\<close>

type_synonym 'a result = "bucky_error_code fault + 'a"

end
