(* ===== verification/RawCodec.thy ===== *)
theory RawCodec
  imports ErrorCode
begin

text \<open>
  The codec traits of \<^verbatim>\<open>component/cyfs-base/src/codec/raw/raw_codec.rs\<close> and \<^verbatim>\<open>raw_util.rs\<close>: the
  provided methods of \<open>RawEncode\<close> and \<open>RawConvertTo\<close>/\<open>RawFrom\<close>, and the contract that an
  implementation of \<open>RawEncode\<close>/\<open>RawDecode\<close> is expected to meet, as the locale \<open>raw_codec\<close>.

  A slice is the list of its bytes. \<open>raw_encode\<close> overwrites a prefix of the mutable slice it is
  given and returns the remaining slice; its model returns the pair of the bytes written and the
  remaining slice, so that the buffer after the call is their concatenation. \<open>raw_decode\<close> returns
  the value and the remaining slice.
\<close>

datatype raw_encode_purpose = Serialize | Hash

type_synonym purpose = "raw_encode_purpose option"
type_synonym 'a measurer = "'a \<Rightarrow> purpose \<Rightarrow> nat result"
type_synonym 'a encoder = "'a \<Rightarrow> purpose \<Rightarrow> bytes \<Rightarrow> (bytes \<times> bytes) result"
type_synonym 'a decoder = "bytes \<Rightarrow> ('a \<times> bytes) result"

abbreviation out_of_limit :: "'a result" where
  "out_of_limit \<equiv> Inl (Err bucky_error_code.OutOfLimit)"

abbreviation not_support :: "'a result" where
  "not_support \<equiv> Inl (Err bucky_error_code.NotSupport)"

text \<open>
  The two ways the sources combine encoders: \<open>let buf = a.raw_encode(buf)?; b.raw_encode(buf)\<close>, and
  a loop that encodes the elements of a collection one after the other.
\<close>

definition enc_then ::
    "(bytes \<Rightarrow> (bytes \<times> bytes) result) \<Rightarrow> (bytes \<Rightarrow> (bytes \<times> bytes) result) \<Rightarrow>
     bytes \<Rightarrow> (bytes \<times> bytes) result" where
  "enc_then e f buf =
     rbind (e buf) (\<lambda>(w, buf1). rbind (f buf1) (\<lambda>(w', buf2). Inr (w @ w', buf2)))"

fun enc_each :: "('a \<Rightarrow> bytes \<Rightarrow> (bytes \<times> bytes) result) \<Rightarrow> 'a list \<Rightarrow>
    bytes \<Rightarrow> (bytes \<times> bytes) result" where
  "enc_each e [] buf = Inr ([], buf)"
| "enc_each e (x # xs) buf = enc_then (e x) (enc_each e xs) buf"

fun measure_each :: "('a \<Rightarrow> nat result) \<Rightarrow> nat \<Rightarrow> 'a list \<Rightarrow> nat result" where
  "measure_each m n [] = Inr n"
| "measure_each m n (x # xs) = rbind (m x) (\<lambda>k. measure_each m (n + k) xs)"

subsection \<open>Provided methods\<close>

text \<open>\<open>RawEncode::raw_tail_encode\<close>: the part of the buffer that was written.\<close>

definition raw_tail_encode :: "'a encoder \<Rightarrow> 'a \<Rightarrow> purpose \<Rightarrow> bytes \<Rightarrow> bytes result" where
  "raw_tail_encode enc x purpose buf =
     rbind (enc x purpose buf) (\<lambda>(w, remain_buf).
       rbind (checked_sub (length buf) (length remain_buf)) (\<lambda>n.
         Inr (take n (w @ remain_buf))))"

text \<open>\<open>RawEncode::raw_encode_to_buffer\<close>: a fresh buffer of the measured size, which the encoder must
  fill exactly (\<open>assert_eq!(buf.len(), 0)\<close>).\<close>

definition raw_encode_to_buffer :: "'a measurer \<Rightarrow> 'a encoder \<Rightarrow> 'a \<Rightarrow> bytes result" where
  "raw_encode_to_buffer msr enc x =
     rbind (msr x None) (\<lambda>size.
       rbind (enc x None (replicate size 0)) (\<lambda>(w, buf).
         rbind (rassert (length buf = 0)) (\<lambda>_. Inr (w @ buf))))"

definition raw_hash_encode :: "'a measurer \<Rightarrow> 'a encoder \<Rightarrow> 'a \<Rightarrow> bytes result" where
  "raw_hash_encode msr enc x =
     rbind (msr x (Some Hash)) (\<lambda>size.
       rbind (enc x (Some Hash) (replicate size 0)) (\<lambda>(w, remain_buf).
         rbind (rassert (length remain_buf = 0)) (\<lambda>_. Inr (w @ remain_buf))))"

text \<open>\<open>RawEncode::raw_hash_value\<close>: the digest of the hash encoding. \<open>hash_data\<close> is SHA-256 from the
  \<open>sha2\<close> crate, a parameter here.\<close>

definition raw_hash_value ::
    "(bytes \<Rightarrow> 'h) \<Rightarrow> 'a measurer \<Rightarrow> 'a encoder \<Rightarrow> 'a \<Rightarrow> 'h result" where
  "raw_hash_value hash_data msr enc x =
     rbind (raw_hash_encode msr enc x) (\<lambda>buf. Inr (hash_data buf))"

text \<open>\<open>FileEncoder::encode_to_vec\<close>: as \<open>raw_encode_to_buffer\<close>, without the check.\<close>

definition encode_to_vec :: "'a measurer \<Rightarrow> 'a encoder \<Rightarrow> 'a \<Rightarrow> bytes result" where
  "encode_to_vec msr enc x =
     rbind (msr x None) (\<lambda>len.
       rbind (enc x None (replicate len 0)) (\<lambda>(w, rest). Inr (w @ rest)))"

definition to_vec :: "'a measurer \<Rightarrow> 'a encoder \<Rightarrow> 'a \<Rightarrow> bytes result" where
  "to_vec msr enc x = raw_encode_to_buffer msr enc x"

definition clone_from_slice :: "'a decoder \<Rightarrow> bytes \<Rightarrow> 'a result" where
  "clone_from_slice dec buf = rbind (dec buf) (\<lambda>(t, buf'). Inr t)"

subsection \<open>The contract of an implementation\<close>

text \<open>
  \<open>wire\<close> is the byte format of a value, the specification that the three methods implement on the
  values of \<open>valid\<close>: \<open>raw_measure\<close> is its length, \<open>raw_encode\<close> writes it and nothing else or
  reports a short buffer, and \<open>raw_decode\<close> reads it back whatever follows it.
\<close>

locale raw_codec =
  fixes valid :: "'a \<Rightarrow> bool"
    and wire :: "'a \<Rightarrow> bytes"
    and msr :: "'a measurer"
    and enc :: "'a encoder"
    and dec :: "'a decoder"
  assumes measure_wire: "valid x \<Longrightarrow> msr x p = Inr (length (wire x))"
    and encode_wire: "valid x \<Longrightarrow> length (wire x) \<le> length buf \<Longrightarrow>
      enc x p buf = Inr (wire x, drop (length (wire x)) buf)"
    and encode_short: "valid x \<Longrightarrow> length buf < length (wire x) \<Longrightarrow> enc x p buf = out_of_limit"
    and decode_wire: "valid x \<Longrightarrow> dec (wire x @ rest) = Inr (x, rest)"
begin

lemma encode_to_buffer_wire:
  assumes "valid x"
  shows "raw_encode_to_buffer msr enc x = Inr (wire x)"
  using assms by (simp add: raw_encode_to_buffer_def measure_wire encode_wire)

lemma hash_encode_wire:
  assumes "valid x"
  shows "raw_hash_encode msr enc x = Inr (wire x)"
  using assms by (simp add: raw_hash_encode_def measure_wire encode_wire)

lemma encode_to_vec_wire:
  assumes "valid x"
  shows "encode_to_vec msr enc x = Inr (wire x)"
  using assms by (simp add: encode_to_vec_def measure_wire encode_wire)

lemma tail_encode_wire:
  assumes "valid x" and "length (wire x) \<le> length buf"
  shows "raw_tail_encode enc x p buf = Inr (wire x)"
  using assms by (simp add: raw_tail_encode_def encode_wire)

lemma clone_roundtrip:
  assumes "valid x"
  shows "rbind (to_vec msr enc x) (clone_from_slice dec) = Inr x"
  using assms decode_wire [of x "[]"]
  by (simp add: to_vec_def encode_to_buffer_wire clone_from_slice_def)

lemma encode_decode:
  assumes "valid x" and "enc x p buf = Inr (w, rest)"
  shows "dec (w @ rest) = Inr (x, rest)"
proof (cases "length (wire x) \<le> length buf")
  case True
  with assms(1) have "enc x p buf = Inr (wire x, drop (length (wire x)) buf)"
    by (rule encode_wire)
  with assms have "w = wire x" by simp
  with assms(1) show ?thesis by (simp add: decode_wire)
next
  case False
  with assms show ?thesis by (simp add: encode_short)
qed

text \<open>The format is self-delimiting: no encoding is a prefix of another one.\<close>

lemma wire_prefix_free:
  assumes "valid x" and "valid y" and "wire x @ r = wire y @ s"
  shows "x = y \<and> r = s"
proof -
  have "Inr (x, r) = dec (wire x @ r)" by (rule decode_wire [OF assms(1), symmetric])
  also have "\<dots> = dec (wire y @ s)" by (rule arg_cong [OF assms(3)])
  also have "\<dots> = Inr (y, s)" by (rule decode_wire [OF assms(2)])
  finally show ?thesis by simp
qed

lemma wire_inj: "valid x \<Longrightarrow> valid y \<Longrightarrow> wire x = wire y \<Longrightarrow> x = y"
  using wire_prefix_free [of x y "[]" "[]"] by simp

end

text \<open>
  A decoder that is fed bytes from the network must not crash: it returns a value and a suffix of
  its input, or an error, and neither panics nor reads out of bounds.
\<close>

definition suffix_of :: "bytes \<Rightarrow> bytes \<Rightarrow> bool" where
  "suffix_of r buf \<longleftrightarrow> (\<exists>k. r = drop k buf)"

locale safe_decoder =
  fixes sdec :: "'a decoder"
  assumes decode_safe: "safe (sdec buf)"
    and decode_suffix: "sdec buf = Inr (x, r) \<Longrightarrow> suffix_of r buf"
begin

lemma decode_length: "sdec buf = Inr (x, r) \<Longrightarrow> length r \<le> length buf"
  using decode_suffix [of buf x r] by (auto simp: suffix_of_def)

lemma clone_safe: "safe (clone_from_slice sdec buf)"
  using decode_safe [of buf] unfolding clone_from_slice_def
  by (cases "sdec buf") (auto simp: safe_def split: fault.splits)

end

lemma suffix_of_refl [simp, intro]: "suffix_of r r"
  unfolding suffix_of_def by (rule exI [of _ 0]) simp

lemma suffix_of_drop [simp, intro]: "suffix_of (drop k r) r"
  unfolding suffix_of_def by blast

lemma suffix_of_trans: "suffix_of a b \<Longrightarrow> suffix_of b c \<Longrightarrow> suffix_of a c"
  by (auto simp: suffix_of_def)

lemma suffix_of_length: "suffix_of r buf \<Longrightarrow> length r \<le> length buf"
  by (auto simp: suffix_of_def)

lemma suffix_of_eq: "suffix_of r buf \<Longrightarrow> drop (length buf - length r) buf = r"
proof -
  assume "suffix_of r buf"
  then obtain k where r: "r = drop k buf" unfolding suffix_of_def ..
  show ?thesis
  proof (cases "k \<le> length buf")
    case True
    with r show ?thesis by simp
  next
    case False
    with r show ?thesis by simp
  qed
qed

subsection \<open>Encoding in sequence\<close>

text \<open>
  \<open>writes e w\<close>: the encoder \<open>e\<close> writes the bytes \<open>w\<close>, or reports a buffer that is too short for
  them. This is the per-value part of the contract, closed under the two combinations.
\<close>

definition writes :: "(bytes \<Rightarrow> (bytes \<times> bytes) result) \<Rightarrow> bytes \<Rightarrow> bool" where
  "writes e w \<longleftrightarrow>
     (\<forall>buf. e buf = (if length w \<le> length buf then Inr (w, drop (length w) buf)
                     else out_of_limit))"

lemma writesD: "writes e w \<Longrightarrow> length w \<le> length buf \<Longrightarrow> e buf = Inr (w, drop (length w) buf)"
  by (simp add: writes_def)

lemma writesD_short: "writes e w \<Longrightarrow> length buf < length w \<Longrightarrow> e buf = out_of_limit"
  by (simp add: writes_def)

lemma writesI:
  assumes "\<And>buf. length w \<le> length buf \<Longrightarrow> e buf = Inr (w, drop (length w) buf)"
    and "\<And>buf. length buf < length w \<Longrightarrow> e buf = out_of_limit"
  shows "writes e w"
  using assms by (simp add: writes_def not_le)

lemma writes_then:
  assumes "writes e w" and "writes f v"
  shows "writes (enc_then e f) (w @ v)"
proof (rule writesI)
  fix buf :: bytes
  assume "length (w @ v) \<le> length buf"
  then have "e buf = Inr (w, drop (length w) buf)"
    by (intro writesD [OF assms(1)]) simp
  moreover have "f (drop (length w) buf) = Inr (v, drop (length v) (drop (length w) buf))"
    by (rule writesD [OF assms(2)]) (use \<open>length (w @ v) \<le> length buf\<close> in simp)
  ultimately show "enc_then e f buf = Inr (w @ v, drop (length (w @ v)) buf)"
    by (simp add: enc_then_def add.commute)
next
  fix buf :: bytes
  assume short: "length buf < length (w @ v)"
  show "enc_then e f buf = out_of_limit"
  proof (cases "length w \<le> length buf")
    case True
    with assms(1) have "e buf = Inr (w, drop (length w) buf)" by (rule writesD)
    moreover have "f (drop (length w) buf) = out_of_limit"
      by (rule writesD_short [OF assms(2)]) (use short True in simp)
    ultimately show ?thesis by (simp add: enc_then_def)
  next
    case False
    then have "e buf = out_of_limit" by (intro writesD_short [OF assms(1)]) simp
    then show ?thesis by (simp add: enc_then_def)
  qed
qed

lemma writes_each:
  assumes "\<And>x. x \<in> set xs \<Longrightarrow> writes (e x) (f x)"
  shows "writes (enc_each e xs) (concat (map f xs))"
  using assms
proof (induction xs)
  case Nil
  then show ?case by (simp add: writes_def)
next
  case (Cons x xs)
  have "writes (enc_then (e x) (enc_each e xs)) (f x @ concat (map f xs))"
    by (rule writes_then) (use Cons in auto)
  then show ?case by (simp add: writes_def)
qed

lemma measure_each_sum:
  assumes "\<And>x. x \<in> set xs \<Longrightarrow> m x = Inr (length (f x))"
  shows "measure_each m n xs = Inr (n + length (concat (map f xs)))"
  using assms by (induction xs arbitrary: n) simp_all

lemma raw_codecI:
  assumes "\<And>x p. valid x \<Longrightarrow> msr x p = Inr (length (wire x))"
    and "\<And>x p. valid x \<Longrightarrow> writes (enc x p) (wire x)"
    and "\<And>x rest. valid x \<Longrightarrow> dec (wire x @ rest) = Inr (x, rest)"
  shows "raw_codec valid wire msr enc dec"
proof
  show "msr x p = Inr (length (wire x))" if "valid x" for x p
    using that by (rule assms(1))
  show "enc x p buf = Inr (wire x, drop (length (wire x)) buf)"
    if "valid x" and "length (wire x) \<le> length buf" for x p buf
    using assms(2) [OF that(1)] that(2) by (rule writesD)
  show "enc x p buf = out_of_limit" if "valid x" and "length buf < length (wire x)" for x p buf
    using assms(2) [OF that(1)] that(2) by (rule writesD_short)
  show "dec (wire x @ rest) = Inr (x, rest)" if "valid x" for x rest
    using that by (rule assms(3))
qed

context raw_codec
begin

lemma writes_enc: "valid x \<Longrightarrow> writes (enc x p) (wire x)"
  by (rule writesI) (simp_all add: encode_wire encode_short)

end

lemma safe_decoderI:
  assumes "\<And>buf. safe (d buf)"
    and "\<And>buf x r. d buf = Inr (x, r) \<Longrightarrow> suffix_of r buf"
  shows "safe_decoder d"
  using assms by unfold_locales

text \<open>
  Decoders in sequence, \<open>let (a, buf) = A::raw_decode(buf)?; \<dots>\<close>: the chain is safe and returns a
  suffix when each part does.
\<close>

definition good :: "bytes \<Rightarrow> ('a \<times> bytes) result \<Rightarrow> bool" where
  "good buf m \<longleftrightarrow> safe m \<and> (\<forall>x r. m = Inr (x, r) \<longrightarrow> suffix_of r buf)"

lemma good_simps [simp]:
  "good buf (Inr (x, r)) \<longleftrightarrow> suffix_of r buf"
  "good buf (Inl (Err e))"
  "\<not> good buf (Inl Panic)"
  "\<not> good buf (Inl UB)"
  by (auto simp: good_def)

lemma good_bind:
  assumes "good buf m" and "\<And>x r. suffix_of r buf \<Longrightarrow> good r (f (x, r))"
  shows "good buf (rbind m f)"
proof (cases m)
  case (Inl e)
  with assms(1) show ?thesis by (auto simp: good_def safe_Inl)
next
  case (Inr v)
  obtain x r where v: "v = (x, r)" by (cases v)
  with assms(1) Inr have "suffix_of r buf" by simp
  with assms(2) have "good r (f (x, r))" by blast
  with \<open>suffix_of r buf\<close> Inr v show ?thesis
    by (auto simp: good_def intro: suffix_of_trans)
qed

lemma good_weaken: "good r m \<Longrightarrow> suffix_of r buf \<Longrightarrow> good buf m"
  by (auto simp: good_def intro: suffix_of_trans)

lemma safe_decoder_good: "safe_decoder d \<longleftrightarrow> (\<forall>buf. good buf (d buf))"
  by (auto simp: safe_decoder_def good_def)

context safe_decoder
begin

lemma good_dec: "good buf (sdec buf)"
  using decode_safe decode_suffix by (auto simp: good_def)

end

end
