(* ===== verification/RawInts.thy ===== *)
theory RawInts
  imports RawCodec
begin

text \<open>
  The codecs of the fixed-width integers, of \<open>bool\<close> and of the variable-length sizes, from
  \<^verbatim>\<open>component/cyfs-base/src/codec/raw/raw_types.rs\<close>. Signed integers are the words of their
  two's-complement bit pattern. \<open>usize\<close> is 64 bits wide.
\<close>

subsection \<open>Fixed-width integers\<close>

definition u8_raw_measure :: "u8 measurer" where
  "u8_raw_measure v purpose = Inr 1"

definition u8_raw_encode :: "u8 encoder" where
  "u8_raw_encode v purpose buf =
     (if length buf < 1 then out_of_limit else Inr ([v], drop 1 buf))"

definition u8_raw_decode :: "u8 decoder" where
  "u8_raw_decode buf = (case buf of [] \<Rightarrow> out_of_limit | b # rest \<Rightarrow> Inr (b, rest))"

definition bool_raw_measure :: "bool measurer" where
  "bool_raw_measure v purpose = Inr 1"

definition bool_raw_encode :: "bool encoder" where
  "bool_raw_encode v purpose buf =
     (if length buf < 1 then out_of_limit else Inr ([if v then 1 else 0], drop 1 buf))"

definition bool_raw_decode :: "bool decoder" where
  "bool_raw_decode buf =
     (case buf of
        [] \<Rightarrow> out_of_limit
      | b # rest \<Rightarrow> if b = 0 then Inr (False, rest) else Inr (True, rest))"

definition u16_raw_measure :: "u16 measurer" where
  "u16_raw_measure v purpose = Inr 2"

definition u16_raw_encode :: "u16 encoder" where
  "u16_raw_encode v purpose buf =
     (if length buf < 2 then out_of_limit else Inr (to_be_bytes v, drop 2 buf))"

definition u16_raw_decode :: "u16 decoder" where
  "u16_raw_decode buf =
     (if length buf < 2 then out_of_limit else Inr (from_be_bytes (take 2 buf), drop 2 buf))"

definition u32_raw_measure :: "u32 measurer" where
  "u32_raw_measure v purpose = Inr 4"

definition u32_raw_encode :: "u32 encoder" where
  "u32_raw_encode v purpose buf =
     (if length buf < 4 then out_of_limit else Inr (to_be_bytes v, drop 4 buf))"

definition u32_raw_decode :: "u32 decoder" where
  "u32_raw_decode buf =
     (if length buf < 4 then out_of_limit else Inr (from_be_bytes (take 4 buf), drop 4 buf))"

definition i32_raw_measure :: "u32 measurer" where
  "i32_raw_measure v purpose = Inr 4"

definition i32_raw_encode :: "u32 encoder" where
  "i32_raw_encode v purpose buf =
     (if length buf < 4 then out_of_limit else Inr (to_be_bytes v, drop 4 buf))"

definition i32_raw_decode :: "u32 decoder" where
  "i32_raw_decode buf =
     (if length buf < 4 then out_of_limit else Inr (from_be_bytes (take 4 buf), drop 4 buf))"

definition i64_raw_measure :: "u64 measurer" where
  "i64_raw_measure v purpose = Inr 8"

definition i64_raw_encode :: "u64 encoder" where
  "i64_raw_encode v purpose buf =
     (if length buf < 8 then out_of_limit else Inr (to_be_bytes v, drop 8 buf))"

definition i64_raw_decode :: "u64 decoder" where
  "i64_raw_decode buf =
     (if length buf < 8 then out_of_limit else Inr (from_be_bytes (take 8 buf), drop 8 buf))"

definition u64_raw_measure :: "u64 measurer" where
  "u64_raw_measure v purpose = Inr 8"

definition u64_raw_encode :: "u64 encoder" where
  "u64_raw_encode v purpose buf =
     (if length buf < 8 then out_of_limit else Inr (to_be_bytes v, drop 8 buf))"

definition u64_raw_decode :: "u64 decoder" where
  "u64_raw_decode buf =
     (if length buf < 8 then out_of_limit else Inr (from_be_bytes (take 8 buf), drop 8 buf))"

definition u128_raw_measure :: "u128 measurer" where
  "u128_raw_measure v purpose = Inr 16"

definition u128_raw_encode :: "u128 encoder" where
  "u128_raw_encode v purpose buf =
     (if length buf < 16 then out_of_limit else Inr (to_be_bytes v, drop 16 buf))"

definition u128_raw_decode :: "u128 decoder" where
  "u128_raw_decode buf =
     (if length buf < 16 then out_of_limit else Inr (from_be_bytes (take 16 buf), drop 16 buf))"

lemmas int_codec_defs [codec_defs] =
  u8_raw_measure_def u8_raw_encode_def u8_raw_decode_def
  bool_raw_measure_def bool_raw_encode_def bool_raw_decode_def
  u16_raw_measure_def u16_raw_encode_def u16_raw_decode_def
  u32_raw_measure_def u32_raw_encode_def u32_raw_decode_def
  i32_raw_measure_def i32_raw_encode_def i32_raw_decode_def
  i64_raw_measure_def i64_raw_encode_def i64_raw_decode_def
  u64_raw_measure_def u64_raw_encode_def u64_raw_decode_def
  u128_raw_measure_def u128_raw_encode_def u128_raw_decode_def

interpretation u8: raw_codec "\<lambda>_. True" "\<lambda>v. [v]" u8_raw_measure u8_raw_encode u8_raw_decode
  by unfold_locales (auto simp: codec_defs)

interpretation bool: raw_codec "\<lambda>_. True" "\<lambda>v. [if v then 1 else 0]"
  bool_raw_measure bool_raw_encode bool_raw_decode
  by unfold_locales (auto simp: codec_defs)

interpretation u16: raw_codec "\<lambda>_. True" to_be_bytes u16_raw_measure u16_raw_encode u16_raw_decode
  by unfold_locales (simp_all add: codec_defs)

interpretation u32: raw_codec "\<lambda>_. True" to_be_bytes u32_raw_measure u32_raw_encode u32_raw_decode
  by unfold_locales (simp_all add: codec_defs)

interpretation i32: raw_codec "\<lambda>_. True" to_be_bytes i32_raw_measure i32_raw_encode i32_raw_decode
  by unfold_locales (simp_all add: codec_defs)

interpretation i64: raw_codec "\<lambda>_. True" to_be_bytes i64_raw_measure i64_raw_encode i64_raw_decode
  by unfold_locales (simp_all add: codec_defs)

interpretation u64: raw_codec "\<lambda>_. True" to_be_bytes u64_raw_measure u64_raw_encode u64_raw_decode
  by unfold_locales (simp_all add: codec_defs)

interpretation u128: raw_codec "\<lambda>_. True" to_be_bytes
  u128_raw_measure u128_raw_encode u128_raw_decode
  by unfold_locales (simp_all add: codec_defs)

lemma good_u8 [simp, intro]: "good buf (u8_raw_decode buf)"
  by (cases buf) (auto simp: u8_raw_decode_def suffix_of_def intro: exI [of _ 1])

lemma good_bool [simp, intro]: "good buf (bool_raw_decode buf)"
  by (cases buf) (auto simp: bool_raw_decode_def suffix_of_def intro: exI [of _ 1])

lemma good_ints [simp, intro]:
  "good buf (u16_raw_decode buf)" "good buf (u32_raw_decode buf)" "good buf (i32_raw_decode buf)"
  "good buf (i64_raw_decode buf)" "good buf (u64_raw_decode buf)" "good buf (u128_raw_decode buf)"
  by (simp_all add: codec_defs)

interpretation u8: safe_decoder u8_raw_decode
  by (simp add: safe_decoder_good)

interpretation u16: safe_decoder u16_raw_decode
  by (simp add: safe_decoder_good)

interpretation u32: safe_decoder u32_raw_decode
  by (simp add: safe_decoder_good)

interpretation u64: safe_decoder u64_raw_decode
  by (simp add: safe_decoder_good)

subsection \<open>Variable-length sizes\<close>

text \<open>
  \<open>VarSizeHelper\<close>: a size below 2^62 in 1, 2, 4 or 8 bytes, with the width in the two top bits of
  the first byte (00, 01, 11 and 10).
\<close>

definition U6_MAX :: u64 where "U6_MAX = 63"
definition U14_MAX :: u64 where "U14_MAX = 16383"
definition U30_MAX :: u64 where "U30_MAX = 1073741823"
definition VARSIZE_SUB_2_MAX :: u64 where "VARSIZE_SUB_2_MAX = 4611686018427387903"

lemmas var_size_consts = U6_MAX_def U14_MAX_def U30_MAX_def VARSIZE_SUB_2_MAX_def

definition varsize_raw_measure :: "u64 measurer" where
  "varsize_raw_measure len purpose =
     (if len \<le> U6_MAX then Inr 1
      else if len \<le> U14_MAX then Inr 2
      else if len \<le> U30_MAX then Inr 4
      else if len \<le> VARSIZE_SUB_2_MAX then Inr 8
      else not_support)"

definition varsize_raw_encode :: "u64 encoder" where
  "varsize_raw_encode len purpose buf =
     (if len \<le> U6_MAX then u8_raw_encode (ucast len OR 0) purpose buf
      else if len \<le> U14_MAX then u16_raw_encode (ucast len OR 0x4000) purpose buf
      else if len \<le> U30_MAX then u32_raw_encode (ucast len OR 0xC0000000) purpose buf
      else if len \<le> VARSIZE_SUB_2_MAX then u64_raw_encode (len OR 0x8000000000000000) purpose buf
      else not_support)"

definition varsize_raw_decode :: "u64 decoder" where
  "varsize_raw_decode buf =
     rbind (u8_raw_decode buf) (\<lambda>(first_byte, buf1).
       if first_byte AND 0xC0 = 0 then Inr (ucast first_byte, buf1)
       else if first_byte AND 0xC0 = 0x40 then
         rbind (u16_raw_decode buf) (\<lambda>(value, buf2). Inr (ucast (value AND 0x3FFF), buf2))
       else if first_byte AND 0xC0 = 0xC0 then
         rbind (u32_raw_decode buf) (\<lambda>(value, buf2). Inr (ucast (value AND 0x3FFFFFFF), buf2))
       else if first_byte AND 0xC0 = 0x80 then
         rbind (u64_raw_decode buf) (\<lambda>(value, buf2). Inr (value AND 0x3FFFFFFFFFFFFFFF, buf2))
       else Inl Panic)"

text \<open>The newtypes \<open>BuckySize(u64)\<close> and \<open>USize(usize)\<close>.\<close>

datatype bucky_size = BuckySize u64
datatype usize = USize nat

fun bucky_size_value :: "bucky_size \<Rightarrow> u64" where
  "bucky_size_value (BuckySize v) = v"

fun usize_value :: "usize \<Rightarrow> nat" where
  "usize_value (USize v) = v"

definition bucky_size_raw_measure :: "bucky_size measurer" where
  "bucky_size_raw_measure s purpose = varsize_raw_measure (bucky_size_value s) purpose"

definition bucky_size_raw_encode :: "bucky_size encoder" where
  "bucky_size_raw_encode s purpose buf = varsize_raw_encode (bucky_size_value s) purpose buf"

definition bucky_size_raw_decode :: "bucky_size decoder" where
  "bucky_size_raw_decode buf =
     rbind (varsize_raw_decode buf) (\<lambda>(len, buf). Inr (BuckySize len, buf))"

definition usize_MAX :: nat where "usize_MAX = 2 ^ 64 - 1"

definition usize_raw_measure :: "usize measurer" where
  "usize_raw_measure s purpose = varsize_raw_measure (word_of_nat (usize_value s)) purpose"

definition usize_raw_encode :: "usize encoder" where
  "usize_raw_encode s purpose buf =
     varsize_raw_encode (word_of_nat (usize_value s)) purpose buf"

definition usize_raw_decode :: "usize decoder" where
  "usize_raw_decode buf =
     rbind (varsize_raw_decode buf) (\<lambda>(len, buf).
       if unat len > usize_MAX then out_of_limit else Inr (USize (unat len), buf))"

text \<open>The format of a size, stated on numbers: the width flag is added to the big-endian number.\<close>

definition varsize_wire :: "nat \<Rightarrow> bytes" where
  "varsize_wire n =
     (if n < 2 ^ 6 then be_digits 1 n
      else if n < 2 ^ 14 then be_digits 2 (n + 2 ^ 14)
      else if n < 2 ^ 30 then be_digits 4 (n + 3 * 2 ^ 30)
      else be_digits 8 (n + 2 ^ 63))"

lemma length_varsize_wire:
  "length (varsize_wire n) =
     (if n < 2 ^ 6 then 1 else if n < 2 ^ 14 then 2 else if n < 2 ^ 30 then 4 else 8)"
  by (simp add: varsize_wire_def)

lemma varsize_le_iff:
  "(len :: u64) \<le> U6_MAX \<longleftrightarrow> unat len < 2 ^ 6"
  "len \<le> U14_MAX \<longleftrightarrow> unat len < 2 ^ 14"
  "len \<le> U30_MAX \<longleftrightarrow> unat len < 2 ^ 30"
  "len \<le> VARSIZE_SUB_2_MAX \<longleftrightarrow> unat len < 2 ^ 62"
  by (simp_all add: word_le_nat_alt var_size_consts less_Suc_eq_le [symmetric])

lemma unat_ucast_le:
  assumes "unat x < 2 ^ LENGTH('b::len)"
  shows "unat (ucast (x :: 'a::len word) :: 'b word) = unat x"
  using assms by (simp add: unsigned_ucast_eq take_bit_nat_eq_self)

lemma unat_or_flag:
  assumes "unat x < 2 ^ k" and "unat f = c * 2 ^ k"
  shows "unat (x OR f) = unat x + c * 2 ^ k"
  using assms by (simp add: unsigned_or_eq or_flag_nat)

lemma flagged_bytes:
  "unat (len :: u64) < 2 ^ 6 \<Longrightarrow> [ucast len OR 0] = be_digits 1 (unat len)"
  "unat len < 2 ^ 14 \<Longrightarrow> to_be_bytes (ucast len OR 0x4000 :: u16) = be_digits 2 (unat len + 2 ^ 14)"
  "unat len < 2 ^ 30 \<Longrightarrow>
     to_be_bytes (ucast len OR 0xC0000000 :: u32) = be_digits 4 (unat len + 3 * 2 ^ 30)"
  "unat len < 2 ^ 62 \<Longrightarrow>
     to_be_bytes (len OR 0x8000000000000000) = be_digits 8 (unat len + 2 ^ 63)"
proof -
  show "[ucast len OR 0] = be_digits 1 (unat len)" if "unat len < 2 ^ 6"
    using that by (simp add: word_unat_eq_iff unat_ucast_le unsigned_of_nat take_bit_nat_eq_self)
  show "to_be_bytes (ucast len OR 0x4000 :: u16) = be_digits 2 (unat len + 2 ^ 14)"
    if "unat len < 2 ^ 14"
    using that unat_or_flag [of "ucast len :: u16" 14 "0x4000" 1]
    by (simp add: to_be_bytes_def unat_ucast_le)
  show "to_be_bytes (ucast len OR 0xC0000000 :: u32) = be_digits 4 (unat len + 3 * 2 ^ 30)"
    if "unat len < 2 ^ 30"
    using that unat_or_flag [of "ucast len :: u32" 30 "0xC0000000" 3]
    by (simp add: to_be_bytes_def unat_ucast_le)
  show "to_be_bytes (len OR 0x8000000000000000) = be_digits 8 (unat len + 2 ^ 63)"
    if "unat len < 2 ^ 62"
    using that unat_or_flag [of len 63 "0x8000000000000000" 1]
    by (simp add: to_be_bytes_def)
qed

lemma varsize_writes:
  assumes "unat len < 2 ^ 62"
  shows "writes (varsize_raw_encode len p) (varsize_wire (unat len))"
  using assms flagged_bytes [of len]
    u8.writes_enc [of "ucast len OR 0" p] u16.writes_enc [of "ucast len OR 0x4000" p]
    u32.writes_enc [of "ucast len OR 0xC0000000" p] u64.writes_enc [of "len OR 0x8000000000000000" p]
  unfolding writes_def varsize_raw_encode_def varsize_wire_def varsize_le_iff
  by (auto split: if_splits)

lemma from_be_digits:
  assumes "v < 256 ^ n" and "LENGTH('a::len) = 8 * n"
  shows "unat (from_be_bytes (be_digits n v) :: 'a word) = v"
proof -
  from assms have "v < 2 ^ LENGTH('a)" by (simp add: power_mult)
  with assms(1) show ?thesis
    by (simp add: from_be_bytes_def be_value_digits unsigned_of_nat take_bit_nat_eq_self)
qed

lemma hd_be_digits:
  assumes "v < 256 ^ Suc n"
  shows "be_digits (Suc n) v = word_of_nat (v div 256 ^ n) # be_digits n (v mod 256 ^ n)"
    and "unat (word_of_nat (v div 256 ^ n) :: u8) = v div 256 ^ n"
proof -
  from assms have "v div 256 ^ n < 256" by (simp add: less_mult_imp_div_less)
  then show "unat (word_of_nat (v div 256 ^ n) :: u8) = v div 256 ^ n"
    by (simp add: unsigned_of_nat take_bit_nat_eq_self)
qed simp

lemma u8_decode_digits:
  assumes "0 < n"
  shows "u8_raw_decode (be_digits n v @ rest) =
     Inr (word_of_nat (v div 256 ^ (n - 1)), be_digits (n - 1) (v mod 256 ^ (n - 1)) @ rest)"
  using assms by (cases n) (simp_all add: u8_raw_decode_def)

lemma unat_and_mask:
  fixes x m :: "'a::len word"
  assumes "unat m = 2 ^ k - 1"
  shows "unat (x AND m) = unat x mod 2 ^ k"
  using assms and_mask_nat [of "unat x" k] by (simp add: unsigned_and_eq)

lemma varsize_decode1:
  assumes "n < 2 ^ 6"
  shows "varsize_raw_decode (be_digits 1 n @ rest) = Inr (word_of_nat n, rest)"
proof -
  have b: "unat (word_of_nat n :: u8) = n"
    using assms by (simp add: unsigned_of_nat take_bit_nat_eq_self)
  then have "(word_of_nat n :: u8) AND 192 = 0" using assms top2_cases(1) by simp
  moreover have "(ucast (word_of_nat n :: u8) :: u64) = word_of_nat n"
    using assms by (simp add: word_unat_eq_iff b unat_ucast_le unsigned_of_nat take_bit_nat_eq_self)
  ultimately show ?thesis
    using u8_decode_digits [of 1 n rest] by (simp add: varsize_raw_decode_def)
qed

lemma varsize_decode2:
  assumes "n < 2 ^ 14"
  shows "varsize_raw_decode (be_digits 2 (n + 2 ^ 14) @ rest) = Inr (word_of_nat n, rest)"
proof -
  let ?b = "word_of_nat ((n + 2 ^ 14) div 256 ^ 1) :: u8"
  have b: "unat ?b = (n + 2 ^ 14) div 256 ^ 1"
    by (rule hd_be_digits(2)) (use assms in simp)
  then have "?b AND 192 = 64"
    using assms by (simp add: top2_cases less_eq_div_iff_mult_less_eq div_less_iff_less_mult)
  moreover have "u16_raw_decode (be_digits 2 (n + 2 ^ 14) @ rest) =
      Inr (from_be_bytes (be_digits 2 (n + 2 ^ 14)), rest)"
    by (simp add: u16_raw_decode_def)
  moreover have "(ucast ((from_be_bytes (be_digits 2 (n + 2 ^ 14)) :: u16) AND 0x3FFF) :: u64) = word_of_nat n"
    using assms unat_and_mask [of "0x3FFF :: u16" 14] mod_mult_self1 [of n 1 "2 ^ 14"]
    by (simp add: word_unat_eq_iff unat_ucast_le from_be_digits unsigned_of_nat take_bit_nat_eq_self)
  ultimately show ?thesis
    using u8_decode_digits [of 2 "n + 2 ^ 14" rest]
    by (simp add: varsize_raw_decode_def)
qed

lemma varsize_decode4:
  assumes "n < 2 ^ 30"
  shows "varsize_raw_decode (be_digits 4 (n + 3 * 2 ^ 30) @ rest) = Inr (word_of_nat n, rest)"
proof -
  let ?b = "word_of_nat ((n + 3 * 2 ^ 30) div 256 ^ 3) :: u8"
  have b: "unat ?b = (n + 3 * 2 ^ 30) div 256 ^ 3"
    by (rule hd_be_digits(2)) (use assms in simp)
  then have "?b AND 192 = 192"
    using assms by (simp add: top2_cases less_eq_div_iff_mult_less_eq div_less_iff_less_mult)
  moreover have "u32_raw_decode (be_digits 4 (n + 3 * 2 ^ 30) @ rest) =
      Inr (from_be_bytes (be_digits 4 (n + 3 * 2 ^ 30)), rest)"
    by (simp add: u32_raw_decode_def)
  moreover have "(ucast ((from_be_bytes (be_digits 4 (n + 3 * 2 ^ 30)) :: u32) AND 0x3FFFFFFF) :: u64) = word_of_nat n"
    using assms unat_and_mask [of "0x3FFFFFFF :: u32" 30] mod_mult_self1 [of n 3 "2 ^ 30"]
    by (simp add: word_unat_eq_iff unat_ucast_le from_be_digits unsigned_of_nat take_bit_nat_eq_self)
  ultimately show ?thesis
    using u8_decode_digits [of 4 "n + 3 * 2 ^ 30" rest]
    by (simp add: varsize_raw_decode_def)
qed

lemma varsize_decode8:
  assumes "n < 2 ^ 62"
  shows "varsize_raw_decode (be_digits 8 (n + 2 ^ 63) @ rest) = Inr (word_of_nat n, rest)"
proof -
  let ?b = "word_of_nat ((n + 2 ^ 63) div 256 ^ 7) :: u8"
  have b: "unat ?b = (n + 2 ^ 63) div 256 ^ 7"
    by (rule hd_be_digits(2)) (use assms in simp)
  then have "?b AND 192 = 128"
    using assms by (simp add: top2_cases less_eq_div_iff_mult_less_eq div_less_iff_less_mult)
  moreover have "u64_raw_decode (be_digits 8 (n + 2 ^ 63) @ rest) =
      Inr (from_be_bytes (be_digits 8 (n + 2 ^ 63)), rest)"
    by (simp add: u64_raw_decode_def)
  moreover have "(((from_be_bytes (be_digits 8 (n + 2 ^ 63)) :: u64) AND 0x3FFFFFFFFFFFFFFF) :: u64) = word_of_nat n"
    using assms unat_and_mask [of "0x3FFFFFFFFFFFFFFF :: u64" 62] mod_mult_self1 [of n 2 "2 ^ 62"]
    by (simp add: word_unat_eq_iff unat_ucast_le from_be_digits unsigned_of_nat take_bit_nat_eq_self)
  ultimately show ?thesis
    using u8_decode_digits [of 8 "n + 2 ^ 63" rest]
    by (simp add: varsize_raw_decode_def)
qed

lemma varsize_decode_wire:
  assumes "n < 2 ^ 62"
  shows "varsize_raw_decode (varsize_wire n @ rest) = Inr (word_of_nat n, rest)"
  using assms varsize_decode1 varsize_decode2 varsize_decode4 varsize_decode8
  by (simp add: varsize_wire_def)

lemma varsize_measure_wire:
  "unat len < 2 ^ 62 \<Longrightarrow> varsize_raw_measure len p = Inr (length (varsize_wire (unat len)))"
  by (simp add: varsize_raw_measure_def varsize_le_iff length_varsize_wire)

interpretation varsize: raw_codec "\<lambda>len. unat len < 2 ^ 62" "\<lambda>len. varsize_wire (unat len)"
  varsize_raw_measure varsize_raw_encode varsize_raw_decode
proof (rule raw_codecI)
  fix len :: u64 and p :: purpose and rest :: bytes
  assume len: "unat len < 2 ^ 62"
  show "varsize_raw_measure len p = Inr (length (varsize_wire (unat len)))"
    using len by (rule varsize_measure_wire)
  show "writes (varsize_raw_encode len p) (varsize_wire (unat len))"
    using len by (rule varsize_writes)
  show "varsize_raw_decode (varsize_wire (unat len) @ rest) = Inr (len, rest)"
    using varsize_decode_wire [OF len, of rest] by simp
qed

lemma good_varsize [simp, intro]: "good buf (varsize_raw_decode buf)"
proof (cases buf)
  case Nil
  then show ?thesis by (simp add: varsize_raw_decode_def u8_raw_decode_def)
next
  case (Cons b rest)
  have "suffix_of rest buf" using suffix_of_drop [of 1 buf] Cons by simp
  moreover have "u8_raw_decode buf = Inr (b, rest)" using Cons by (simp add: u8_raw_decode_def)
  moreover have "b AND 192 = 0 \<or> b AND 192 = 64 \<or> b AND 192 = 192 \<or> b AND 192 = 128"
    unfolding top2_cases by linarith
  moreover have
    "good buf (rbind (u16_raw_decode buf) (\<lambda>(v, buf2). Inr (ucast (v AND 0x3FFF) :: u64, buf2)))"
    "good buf (rbind (u32_raw_decode buf) (\<lambda>(v, buf2). Inr (ucast (v AND 0x3FFFFFFF) :: u64, buf2)))"
    "good buf (rbind (u64_raw_decode buf) (\<lambda>(v, buf2). Inr (v AND 0x3FFFFFFFFFFFFFFF, buf2)))"
    by (rule good_bind; auto)+
  ultimately show ?thesis by (auto simp: varsize_raw_decode_def)
qed

interpretation varsize: safe_decoder varsize_raw_decode
  by (simp add: safe_decoder_good)

interpretation bucky_size: raw_codec "\<lambda>s. unat (bucky_size_value s) < 2 ^ 62"
  "\<lambda>s. varsize_wire (unat (bucky_size_value s))"
  bucky_size_raw_measure bucky_size_raw_encode bucky_size_raw_decode
proof (rule raw_codecI)
  fix s p and rest :: bytes
  assume s: "unat (bucky_size_value s) < 2 ^ 62"
  show "bucky_size_raw_measure s p = Inr (length (varsize_wire (unat (bucky_size_value s))))"
    by (simp only: bucky_size_raw_measure_def varsize_measure_wire [OF s])
  have "bucky_size_raw_encode s p = varsize_raw_encode (bucky_size_value s) p"
    by (simp add: fun_eq_iff bucky_size_raw_encode_def)
  with varsize_writes [OF s]
  show "writes (bucky_size_raw_encode s p) (varsize_wire (unat (bucky_size_value s)))"
    by simp
  show "bucky_size_raw_decode (varsize_wire (unat (bucky_size_value s)) @ rest) = Inr (s, rest)"
    using varsize_decode_wire [OF s, of rest] by (cases s) (simp add: bucky_size_raw_decode_def)
qed

lemma unat_word_of_nat64: "n < 2 ^ 62 \<Longrightarrow> unat (word_of_nat n :: u64) = n"
  by (simp add: unsigned_of_nat take_bit_nat_eq_self)

lemma unat_le_usize_MAX [simp]: "\<not> usize_MAX < unat (len :: u64)"
  using unsigned_less [of len, where 'a = nat] by (simp add: usize_MAX_def)

lemma usize_measure_wire:
  "n < 2 ^ 62 \<Longrightarrow> usize_raw_measure (USize n) p = Inr (length (varsize_wire n))"
  using varsize_measure_wire [of "word_of_nat n" p]
  by (simp add: usize_raw_measure_def unat_word_of_nat64)

lemma usize_writes: "n < 2 ^ 62 \<Longrightarrow> writes (usize_raw_encode (USize n) p) (varsize_wire n)"
  using varsize_writes [of "word_of_nat n" p]
  by (simp add: writes_def usize_raw_encode_def unat_word_of_nat64)

lemma usize_decode_wire:
  "n < 2 ^ 62 \<Longrightarrow> usize_raw_decode (varsize_wire n @ rest) = Inr (USize n, rest)"
  using varsize_decode_wire [of n rest] by (simp add: usize_raw_decode_def unat_word_of_nat64)

interpretation usize: raw_codec "\<lambda>s. usize_value s < 2 ^ 62" "\<lambda>s. varsize_wire (usize_value s)"
  usize_raw_measure usize_raw_encode usize_raw_decode
proof (rule raw_codecI)
  fix s p and rest :: bytes
  assume "usize_value s < 2 ^ 62"
  then show "usize_raw_measure s p = Inr (length (varsize_wire (usize_value s)))"
    and "writes (usize_raw_encode s p) (varsize_wire (usize_value s))"
    and "usize_raw_decode (varsize_wire (usize_value s) @ rest) = Inr (s, rest)"
    by (cases s; simp add: usize_measure_wire usize_writes usize_decode_wire)+
qed

lemma good_usize [simp, intro]: "good buf (usize_raw_decode buf)"
  unfolding usize_raw_decode_def by (rule good_bind) auto

interpretation usize: safe_decoder usize_raw_decode
  by (simp add: safe_decoder_good)

subsection \<open>Properties\<close>

text \<open>C29: Every size below 2^62 round-trips through its variable-length encoding: \<open>raw_measure\<close> says
  1, 2, 4 or 8 bytes by the ranges of 6, 14, 30 and 62 bits, \<open>to_vec\<close> produces exactly that many
  bytes, and \<open>clone_from_slice\<close> returns the size; \<open>raw_decode\<close> does so whatever bytes follow.\<close>

theorem usize_roundtrip:
  assumes "n < 2 ^ 62"
  shows "\<exists>w. to_vec usize_raw_measure usize_raw_encode (USize n) = Inr w \<and>
    length w = (if n < 2 ^ 6 then 1 else if n < 2 ^ 14 then 2 else if n < 2 ^ 30 then 4 else 8) \<and>
    (\<forall>rest. usize_raw_decode (w @ rest) = Inr (USize n, rest))"
proof (intro exI conjI allI)
  show "to_vec usize_raw_measure usize_raw_encode (USize n) = Inr (varsize_wire n)"
    using usize.encode_to_buffer_wire [of "USize n"] assms by (simp add: to_vec_def)
  show "length (varsize_wire n) =
      (if n < 2 ^ 6 then 1 else if n < 2 ^ 14 then 2 else if n < 2 ^ 30 then 4 else 8)"
    by (rule length_varsize_wire)
  show "usize_raw_decode (varsize_wire n @ rest) = Inr (USize n, rest)" for rest
    using assms by (rule usize_decode_wire)
qed

theorem usize_roundtrip_witness:
  "(16384::nat) < 2 ^ 62 \<and>
   (\<exists>w. to_vec usize_raw_measure usize_raw_encode (USize 16384) = Inr w \<and> length w = 4 \<and>
     usize_raw_decode (w @ [7]) = Inr (USize 16384, [7]))"
  using usize_roundtrip [of 16384] by auto

text \<open>A size of 2^62 or more is refused with \<open>NotSupport\<close> both when it is measured and when it is
  encoded, so no value is ever written with its top bits cut off.\<close>

theorem varsize_too_large:
  assumes "2 ^ 62 \<le> unat len"
  shows "varsize_raw_measure len p = not_support \<and> varsize_raw_encode len p buf = not_support"
  using assms by (simp add: varsize_raw_measure_def varsize_raw_encode_def varsize_le_iff)

theorem varsize_too_large_witness:
  "(2 ^ 62 :: nat) \<le> unat (0x4000000000000000 :: u64) \<and>
   varsize_raw_encode 0x4000000000000000 None (replicate 8 0) = not_support"
  using varsize_too_large [of "0x4000000000000000" None "replicate 8 0"] by simp

end
