(* ===== verification/RawContainers.thy ===== *)
theory RawContainers
  imports RawInts
begin

text \<open>
  The generic codecs of \<^verbatim>\<open>component/cyfs-base/src/codec/raw/raw_types.rs\<close>: slices and vectors, hash
  and tree sets and maps, shared and atomic cells, tuples, \<open>Option\<close>, \<open>Result\<close>, \<open>TypeBuffer\<close> and
  \<open>Range\<close>. A generic implementation takes the methods of its element types as arguments, as the
  trait bounds of the source do. A tree set is a set and a tree map a partial function; both are finite, and
  the order of their element type is the class \<open>linorder\<close> (the bound \<open>Ord\<close>). A hash set or hash map that is
  encoded is the list of its entries in the order in which it iterates, which is any order of
  distinct elements or keys. A decoder returns the contents, the set or the partial function: the order in
  which the new table iterates is up to its hasher.
  Each group ends with the lemma that lifts the contract of the elements to the container.
\<close>

subsection \<open>Slices and vectors\<close>

definition slice_raw_measure :: "'a measurer \<Rightarrow> 'a list measurer" where
  "slice_raw_measure m xs purpose =
     rbind (runwrap (usize_raw_measure (USize (length xs)) purpose)) (\<lambda>bytes.
       measure_each (\<lambda>e. m e purpose) bytes xs)"

text \<open>The loop of \<open><[T] as RawEncode>::raw_encode\<close> over the mutable slice \<open>buf\<close> and its \<open>offset\<close>.\<close>

fun slice_encode_loop ::
    "'a encoder \<Rightarrow> purpose \<Rightarrow> 'a list \<Rightarrow> bytes \<Rightarrow> nat \<Rightarrow> (bytes \<times> bytes) result" where
  "slice_encode_loop enc purpose [] buf offset = Inr (take offset buf, drop offset buf)"
| "slice_encode_loop enc purpose (e # es) buf offset =
     rbind (enc e purpose (drop offset buf)) (\<lambda>(w, rest).
       rbind (checked_sub (length buf) (length rest)) (\<lambda>offset'.
         slice_encode_loop enc purpose es (take offset buf @ w @ rest) offset'))"

definition slice_raw_encode :: "'a encoder \<Rightarrow> 'a list encoder" where
  "slice_raw_encode enc xs purpose buf =
     (if length buf < 1 then out_of_limit
      else enc_then (usize_raw_encode (USize (length xs)) purpose)
             (\<lambda>buf. slice_encode_loop enc purpose xs buf 0) buf)"

definition vec_raw_measure :: "'a measurer \<Rightarrow> 'a list measurer" where
  "vec_raw_measure m xs purpose = slice_raw_measure m xs purpose"

definition vec_raw_encode :: "'a encoder \<Rightarrow> 'a list encoder" where
  "vec_raw_encode enc xs purpose buf = slice_raw_encode enc xs purpose buf"

fun vec_decode_loop ::
    "'a decoder \<Rightarrow> bytes \<Rightarrow> nat \<Rightarrow> nat \<Rightarrow> 'a list \<Rightarrow> ('a list \<times> bytes) result" where
  "vec_decode_loop dec buf offset 0 vec = Inr (vec, drop offset buf)"
| "vec_decode_loop dec buf offset (Suc n) vec =
     rbind (dec (drop offset buf)) (\<lambda>(e, next).
       rbind (checked_sub (length buf) (length next)) (\<lambda>offset'.
         vec_decode_loop dec buf offset' n (vec @ [e])))"

definition vec_raw_decode :: "'a decoder \<Rightarrow> 'a list decoder" where
  "vec_raw_decode dec buf =
     (if length buf < 1 then out_of_limit
      else rbind (usize_raw_decode buf) (\<lambda>(ulen, buf).
        let len = usize_value ulen in
        if len > 2 ^ 32 - 1 then out_of_limit
        else vec_decode_loop dec buf 0 len []))"

subsection \<open>Sets\<close>

text \<open>
  \<open>HashSet::with_capacity\<close> computes \<open>8 * capacity\<close> with \<open>checked_mul\<close> for a capacity of 8 or more
  and panics with a capacity overflow when the product does not fit in \<open>usize\<close>. (A smaller table
  that the allocator cannot provide aborts the process; memory exhaustion is not modelled.)
\<close>

definition hash_with_capacity :: "nat \<Rightarrow> unit result" where
  "hash_with_capacity capacity =
     (if capacity < 8 \<or> 8 * capacity \<le> usize_MAX then Inr () else Inl Panic)"

definition hash_set_raw_measure :: "'a measurer \<Rightarrow> 'a list measurer" where
  "hash_set_raw_measure m xs purpose =
     rbind (runwrap (usize_raw_measure (USize (length xs)) purpose)) (\<lambda>bytes.
       measure_each (\<lambda>e. m e purpose) bytes xs)"

definition hash_set_raw_encode :: "'a::linorder encoder \<Rightarrow> 'a list encoder" where
  "hash_set_raw_encode enc xs purpose buf =
     enc_then (usize_raw_encode (USize (length xs)) purpose)
       (enc_each (\<lambda>e. enc e purpose) (sort xs)) buf"

fun set_decode_loop :: "'a decoder \<Rightarrow> nat \<Rightarrow> bytes \<Rightarrow> 'a set \<Rightarrow> ('a set \<times> bytes) result" where
  "set_decode_loop dec 0 buf S = Inr (S, buf)"
| "set_decode_loop dec (Suc n) buf S =
     rbind (dec buf) (\<lambda>(e, buf'). set_decode_loop dec n buf' (insert e S))"

definition hash_set_raw_decode :: "'a decoder \<Rightarrow> 'a set decoder" where
  "hash_set_raw_decode dec buf =
     rbind (usize_raw_decode buf) (\<lambda>(ulen, buf).
       rbind (hash_with_capacity (usize_value ulen)) (\<lambda>_.
         set_decode_loop dec (usize_value ulen) buf {}))"

definition btree_set_raw_measure :: "'a::linorder measurer \<Rightarrow> 'a set measurer" where
  "btree_set_raw_measure m S purpose =
     rbind (runwrap (usize_raw_measure (USize (card S)) purpose)) (\<lambda>bytes.
       measure_each (\<lambda>e. m e purpose) bytes (sorted_list_of_set S))"

definition btree_set_raw_encode :: "'a::linorder encoder \<Rightarrow> 'a set encoder" where
  "btree_set_raw_encode enc S purpose buf =
     enc_then (usize_raw_encode (USize (card S)) purpose)
       (enc_each (\<lambda>e. enc e purpose) (sorted_list_of_set S)) buf"

definition btree_set_raw_decode :: "'a decoder \<Rightarrow> 'a set decoder" where
  "btree_set_raw_decode dec buf =
     rbind (usize_raw_decode buf) (\<lambda>(ulen, buf).
       set_decode_loop dec (usize_value ulen) buf {})"

subsection \<open>Maps\<close>

text \<open>The entries of a map in the order of their keys, the iteration order of a \<open>BTreeMap\<close>.\<close>

definition map_entries :: "('k::linorder \<rightharpoonup> 'v) \<Rightarrow> ('k \<times> 'v) list" where
  "map_entries m = map (\<lambda>k. (k, the (m k))) (sorted_list_of_set (dom m))"

definition entry_measure :: "'k measurer \<Rightarrow> 'v measurer \<Rightarrow> purpose \<Rightarrow> 'k \<times> 'v \<Rightarrow> nat result" where
  "entry_measure mk mv purpose kv =
     rbind (mk (fst kv) purpose) (\<lambda>a. rbind (mv (snd kv) purpose) (\<lambda>b. Inr (a + b)))"

text \<open>A \<open>HashMap\<close> is measured in its iteration order; \<open>raw_encode\<close> collects the keys in that order,
  sorts them and looks each one up.\<close>

definition hash_map_raw_measure :: "'k measurer \<Rightarrow> 'v measurer \<Rightarrow> ('k \<times> 'v) list measurer" where
  "hash_map_raw_measure mk mv es purpose =
     rbind (runwrap (usize_raw_measure (USize (length es)) purpose)) (\<lambda>size.
       measure_each (entry_measure mk mv purpose) size es)"

definition hash_map_raw_encode ::
    "'k::linorder encoder \<Rightarrow> 'v encoder \<Rightarrow> ('k \<times> 'v) list encoder" where
  "hash_map_raw_encode ek ev es purpose buf =
     enc_then (usize_raw_encode (USize (length es)) purpose)
       (enc_each (\<lambda>key.
          enc_then (ek key purpose)
            (\<lambda>buf. case map_of es key of None \<Rightarrow> Inl Panic | Some value \<Rightarrow> ev value purpose buf))
          (sort (map fst es))) buf"

fun map_decode_loop ::
    "'k decoder \<Rightarrow> 'v decoder \<Rightarrow> nat \<Rightarrow> bytes \<Rightarrow> ('k \<rightharpoonup> 'v) \<Rightarrow> (('k \<rightharpoonup> 'v) \<times> bytes) result" where
  "map_decode_loop dk dv 0 buf m = Inr (m, buf)"
| "map_decode_loop dk dv (Suc n) buf m =
     rbind (dk buf) (\<lambda>(key, tmp_buf).
       rbind (dv tmp_buf) (\<lambda>(v, tmp_buf'). map_decode_loop dk dv n tmp_buf' (m(key \<mapsto> v))))"

definition hash_map_raw_decode :: "'k decoder \<Rightarrow> 'v decoder \<Rightarrow> ('k \<rightharpoonup> 'v) decoder" where
  "hash_map_raw_decode dk dv buf =
     rbind (usize_raw_decode buf) (\<lambda>(ulen, buf).
       map_decode_loop dk dv (usize_value ulen) buf Map.empty)"

definition btree_map_raw_measure ::
    "'k::linorder measurer \<Rightarrow> 'v measurer \<Rightarrow> ('k \<rightharpoonup> 'v) measurer" where
  "btree_map_raw_measure mk mv m purpose =
     rbind (runwrap (usize_raw_measure (USize (card (dom m))) purpose)) (\<lambda>size.
       measure_each (entry_measure mk mv purpose) size (map_entries m))"

definition btree_map_raw_encode ::
    "'k::linorder encoder \<Rightarrow> 'v encoder \<Rightarrow> ('k \<rightharpoonup> 'v) encoder" where
  "btree_map_raw_encode ek ev m purpose buf =
     enc_then (usize_raw_encode (USize (card (dom m))) purpose)
       (enc_each (\<lambda>(key, value). enc_then (ek key purpose) (ev value purpose)) (map_entries m)) buf"

definition btree_map_raw_decode :: "'k decoder \<Rightarrow> 'v decoder \<Rightarrow> ('k \<rightharpoonup> 'v) decoder" where
  "btree_map_raw_decode dk dv buf =
     rbind (usize_raw_decode buf) (\<lambda>(ulen, buf).
       map_decode_loop dk dv (usize_value ulen) buf Map.empty)"

subsection \<open>Shared and atomic cells\<close>

text \<open>A mutex is its value and whether a thread panicked while it held the lock
  (\<open>lock().unwrap()\<close> panics then); \<open>Arc\<close> and the atomics delegate to their value.\<close>

record 'v mutex =
  poisoned :: bool
  inner :: 'v

definition mutex_raw_measure :: "'v measurer \<Rightarrow> 'v mutex measurer" where
  "mutex_raw_measure m c purpose = (if poisoned c then Inl Panic else m (inner c) purpose)"

definition mutex_raw_encode :: "'v encoder \<Rightarrow> 'v mutex encoder" where
  "mutex_raw_encode enc c purpose buf =
     (if poisoned c then Inl Panic else enc (inner c) purpose buf)"

definition mutex_raw_decode :: "'v decoder \<Rightarrow> 'v mutex decoder" where
  "mutex_raw_decode dec buf =
     rbind (dec buf) (\<lambda>(v, buf). Inr (\<lparr>poisoned = False, inner = v\<rparr>, buf))"

datatype 'v arc = Arc (arc_deref: 'v)

definition arc_raw_measure :: "'v measurer \<Rightarrow> 'v arc measurer" where
  "arc_raw_measure m c purpose = m (arc_deref c) purpose"

definition arc_raw_encode :: "'v encoder \<Rightarrow> 'v arc encoder" where
  "arc_raw_encode enc c purpose buf = enc (arc_deref c) purpose buf"

definition arc_raw_decode :: "'v decoder \<Rightarrow> 'v arc decoder" where
  "arc_raw_decode dec buf = rbind (dec buf) (\<lambda>(v, buf). Inr (Arc v, buf))"

datatype atomic_i32 = AtomicI32 (load_i32: u32)
datatype atomic_u32 = AtomicU32 (load_u32: u32)

definition atomic_i32_raw_measure :: "atomic_i32 measurer" where
  "atomic_i32_raw_measure c purpose = i32_raw_measure (load_i32 c) purpose"

definition atomic_i32_raw_encode :: "atomic_i32 encoder" where
  "atomic_i32_raw_encode c purpose buf = i32_raw_encode (load_i32 c) purpose buf"

definition atomic_i32_raw_decode :: "atomic_i32 decoder" where
  "atomic_i32_raw_decode buf = rbind (i32_raw_decode buf) (\<lambda>(v, buf). Inr (AtomicI32 v, buf))"

definition atomic_u32_raw_measure :: "atomic_u32 measurer" where
  "atomic_u32_raw_measure c purpose = u32_raw_measure (load_u32 c) purpose"

definition atomic_u32_raw_encode :: "atomic_u32 encoder" where
  "atomic_u32_raw_encode c purpose buf = u32_raw_encode (load_u32 c) purpose buf"

definition atomic_u32_raw_decode :: "atomic_u32 decoder" where
  "atomic_u32_raw_decode buf = rbind (u32_raw_decode buf) (\<lambda>(v, buf). Inr (AtomicU32 v, buf))"

subsection \<open>Tuples\<close>

definition tuple2_raw_measure :: "'a measurer \<Rightarrow> 'b measurer \<Rightarrow> ('a \<times> 'b) measurer" where
  "tuple2_raw_measure m1 m2 t purpose =
     (case t of (a, b) \<Rightarrow>
       rbind (m1 a purpose) (\<lambda>n1. rbind (m2 b purpose) (\<lambda>n2. Inr (n1 + n2))))"

definition tuple2_raw_encode :: "'a encoder \<Rightarrow> 'b encoder \<Rightarrow> ('a \<times> 'b) encoder" where
  "tuple2_raw_encode e1 e2 t purpose buf =
     (case t of (a, b) \<Rightarrow> enc_then (e1 a purpose) (e2 b purpose) buf)"

definition tuple2_raw_decode :: "'a decoder \<Rightarrow> 'b decoder \<Rightarrow> ('a \<times> 'b) decoder" where
  "tuple2_raw_decode d1 d2 buf =
     rbind (d1 buf) (\<lambda>(a, buf). rbind (d2 buf) (\<lambda>(b, buf). Inr ((a, b), buf)))"

definition tuple3_raw_measure ::
    "'a measurer \<Rightarrow> 'b measurer \<Rightarrow> 'c measurer \<Rightarrow> ('a \<times> 'b \<times> 'c) measurer" where
  "tuple3_raw_measure m1 m2 m3 t purpose =
     (case t of (a, b, c) \<Rightarrow>
       rbind (m1 a purpose) (\<lambda>n1. rbind (m2 b purpose) (\<lambda>n2. rbind (m3 c purpose) (\<lambda>n3.
         Inr (n1 + n2 + n3)))))"

definition tuple3_raw_encode ::
    "'a encoder \<Rightarrow> 'b encoder \<Rightarrow> 'c encoder \<Rightarrow> ('a \<times> 'b \<times> 'c) encoder" where
  "tuple3_raw_encode e1 e2 e3 t purpose buf =
     (case t of (a, b, c) \<Rightarrow>
       enc_then (e1 a purpose) (enc_then (e2 b purpose) (e3 c purpose)) buf)"

definition tuple3_raw_decode ::
    "'a decoder \<Rightarrow> 'b decoder \<Rightarrow> 'c decoder \<Rightarrow> ('a \<times> 'b \<times> 'c) decoder" where
  "tuple3_raw_decode d1 d2 d3 buf =
     rbind (d1 buf) (\<lambda>(a, buf). rbind (d2 buf) (\<lambda>(b, buf). rbind (d3 buf) (\<lambda>(c, buf).
       Inr ((a, b, c), buf))))"

definition tuple4_raw_measure ::
    "'a measurer \<Rightarrow> 'b measurer \<Rightarrow> 'c measurer \<Rightarrow> 'd measurer \<Rightarrow> ('a \<times> 'b \<times> 'c \<times> 'd) measurer" where
  "tuple4_raw_measure m1 m2 m3 m4 t purpose =
     (case t of (a, b, c, d) \<Rightarrow>
       rbind (m1 a purpose) (\<lambda>n1. rbind (m2 b purpose) (\<lambda>n2. rbind (m3 c purpose) (\<lambda>n3.
       rbind (m4 d purpose) (\<lambda>n4. Inr (n1 + n2 + n3 + n4))))))"

definition tuple4_raw_encode ::
    "'a encoder \<Rightarrow> 'b encoder \<Rightarrow> 'c encoder \<Rightarrow> 'd encoder \<Rightarrow> ('a \<times> 'b \<times> 'c \<times> 'd) encoder" where
  "tuple4_raw_encode e1 e2 e3 e4 t purpose buf =
     (case t of (a, b, c, d) \<Rightarrow>
       enc_then (e1 a purpose)
         (enc_then (e2 b purpose) (enc_then (e3 c purpose) (e4 d purpose))) buf)"

definition tuple4_raw_decode ::
    "'a decoder \<Rightarrow> 'b decoder \<Rightarrow> 'c decoder \<Rightarrow> 'd decoder \<Rightarrow> ('a \<times> 'b \<times> 'c \<times> 'd) decoder" where
  "tuple4_raw_decode d1 d2 d3 d4 buf =
     rbind (d1 buf) (\<lambda>(a, buf). rbind (d2 buf) (\<lambda>(b, buf). rbind (d3 buf) (\<lambda>(c, buf).
     rbind (d4 buf) (\<lambda>(d, buf). Inr ((a, b, c, d), buf)))))"

definition tuple5_raw_measure ::
    "'a measurer \<Rightarrow> 'b measurer \<Rightarrow> 'c measurer \<Rightarrow> 'd measurer \<Rightarrow> 'e measurer \<Rightarrow>
     ('a \<times> 'b \<times> 'c \<times> 'd \<times> 'e) measurer" where
  "tuple5_raw_measure m1 m2 m3 m4 m5 t purpose =
     (case t of (a, b, c, d, e) \<Rightarrow>
       rbind (m1 a purpose) (\<lambda>n1. rbind (m2 b purpose) (\<lambda>n2. rbind (m3 c purpose) (\<lambda>n3.
       rbind (m4 d purpose) (\<lambda>n4. rbind (m5 e purpose) (\<lambda>n5. Inr (n1 + n2 + n3 + n4 + n5)))))))"

definition tuple5_raw_encode ::
    "'a encoder \<Rightarrow> 'b encoder \<Rightarrow> 'c encoder \<Rightarrow> 'd encoder \<Rightarrow> 'e encoder \<Rightarrow>
     ('a \<times> 'b \<times> 'c \<times> 'd \<times> 'e) encoder" where
  "tuple5_raw_encode e1 e2 e3 e4 e5 t purpose buf =
     (case t of (a, b, c, d, e) \<Rightarrow>
       enc_then (e1 a purpose) (enc_then (e2 b purpose) (enc_then (e3 c purpose)
         (enc_then (e4 d purpose) (e5 e purpose)))) buf)"

definition tuple5_raw_decode ::
    "'a decoder \<Rightarrow> 'b decoder \<Rightarrow> 'c decoder \<Rightarrow> 'd decoder \<Rightarrow> 'e decoder \<Rightarrow>
     ('a \<times> 'b \<times> 'c \<times> 'd \<times> 'e) decoder" where
  "tuple5_raw_decode d1 d2 d3 d4 d5 buf =
     rbind (d1 buf) (\<lambda>(a, buf). rbind (d2 buf) (\<lambda>(b, buf). rbind (d3 buf) (\<lambda>(c, buf).
     rbind (d4 buf) (\<lambda>(d, buf). rbind (d5 buf) (\<lambda>(e, buf). Inr ((a, b, c, d, e), buf))))))"

subsection \<open>Option, Result, TypeBuffer, Range\<close>

definition option_raw_measure :: "'a measurer \<Rightarrow> 'a option measurer" where
  "option_raw_measure m v purpose =
     (case v of Some t \<Rightarrow> rbind (m t purpose) (\<lambda>n. Inr (n + 1)) | None \<Rightarrow> Inr 1)"

definition option_raw_encode :: "'a encoder \<Rightarrow> 'a option encoder" where
  "option_raw_encode enc v purpose buf =
     (case v of
        Some t \<Rightarrow> enc_then (u8_raw_encode 1 purpose) (enc t purpose) buf
      | None \<Rightarrow> u8_raw_encode 0 purpose buf)"

definition option_ref_raw_measure :: "'a measurer \<Rightarrow> 'a option measurer" where
  "option_ref_raw_measure m v purpose =
     rbind (case v of Some t \<Rightarrow> m t purpose | None \<Rightarrow> Inr 0) (\<lambda>n. Inr (1 + n))"

definition option_ref_raw_encode :: "'a encoder \<Rightarrow> 'a option encoder" where
  "option_ref_raw_encode enc v purpose buf =
     (case v of
        Some t \<Rightarrow> enc_then (u8_raw_encode 1 purpose) (enc t purpose) buf
      | None \<Rightarrow> u8_raw_encode 0 purpose buf)"

definition option_raw_decode :: "'a decoder \<Rightarrow> 'a option decoder" where
  "option_raw_decode dec buf =
     rbind (u8_raw_decode buf) (\<lambda>(option, buf).
       if option = 1 then rbind (dec buf) (\<lambda>(t, buf). Inr (Some t, buf)) else Inr (None, buf))"

text \<open>\<open>Result<T, E>\<close> is the sum with \<open>Inl\<close> for \<open>Err\<close> and \<open>Inr\<close> for \<open>Ok\<close>.\<close>

definition result_raw_measure :: "'t measurer \<Rightarrow> 'e measurer \<Rightarrow> ('e + 't) measurer" where
  "result_raw_measure mt me v purpose =
     (case v of
        Inr t \<Rightarrow> rbind (mt t purpose) (\<lambda>n. Inr (1 + n))
      | Inl e \<Rightarrow> rbind (me e purpose) (\<lambda>n. Inr (1 + n)))"

definition result_raw_encode :: "'t encoder \<Rightarrow> 'e encoder \<Rightarrow> ('e + 't) encoder" where
  "result_raw_encode et ee v purpose buf =
     (case v of
        Inr t \<Rightarrow> enc_then (u8_raw_encode 0 purpose) (et t purpose) buf
      | Inl e \<Rightarrow> enc_then (u8_raw_encode 1 purpose) (ee e purpose) buf)"

definition result_raw_decode :: "'t decoder \<Rightarrow> 'e decoder \<Rightarrow> ('e + 't) decoder" where
  "result_raw_decode dt de buf =
     rbind (u8_raw_decode buf) (\<lambda>(ty, buf).
       if ty = 0 then rbind (dt buf) (\<lambda>(t, buf). Inr (Inr t, buf))
       else if ty = 1 then rbind (de buf) (\<lambda>(e, buf). Inr (Inl e, buf))
       else not_support)"

datatype 'a type_buffer = TypeBuffer (get_obj: 'a)

definition type_buffer_raw_measure :: "'a measurer \<Rightarrow> 'a type_buffer measurer" where
  "type_buffer_raw_measure m tb purpose =
     rbind (m (get_obj tb) purpose) (\<lambda>obj_len.
       rbind (usize_raw_measure (USize obj_len) purpose) (\<lambda>a.
         rbind (m (get_obj tb) purpose) (\<lambda>b. Inr (a + b))))"

definition type_buffer_raw_encode :: "'a measurer \<Rightarrow> 'a encoder \<Rightarrow> 'a type_buffer encoder" where
  "type_buffer_raw_encode m enc tb purpose buf =
     rbind (m (get_obj tb) purpose) (\<lambda>bytes.
       enc_then (usize_raw_encode (USize bytes) purpose) (enc (get_obj tb) purpose) buf)"

definition type_buffer_raw_decode :: "'a decoder \<Rightarrow> 'a type_buffer decoder" where
  "type_buffer_raw_decode dec buf =
     rbind (usize_raw_decode buf) (\<lambda>(_, buf).
       rbind (dec buf) (\<lambda>(obj, buf). Inr (TypeBuffer obj, buf)))"

record 'a range =
  range_start :: 'a
  range_end :: 'a

definition range_raw_measure :: "'a measurer \<Rightarrow> 'a range measurer" where
  "range_raw_measure m r purpose =
     rbind (m (range_start r) purpose) (\<lambda>a. rbind (m (range_end r) purpose) (\<lambda>b. Inr (a + b)))"

definition range_raw_encode :: "'a encoder \<Rightarrow> 'a range encoder" where
  "range_raw_encode enc r purpose buf =
     enc_then (enc (range_start r) purpose) (enc (range_end r) purpose) buf"

definition range_raw_decode :: "'a decoder \<Rightarrow> 'a range decoder" where
  "range_raw_decode dec buf =
     rbind (dec buf) (\<lambda>(s, buf). rbind (dec buf) (\<lambda>(e, buf).
       Inr (\<lparr>range_start = s, range_end = e\<rparr>, buf)))"

subsection \<open>Vectors meet the contract\<close>

definition vec_wire :: "('a \<Rightarrow> bytes) \<Rightarrow> 'a list \<Rightarrow> bytes" where
  "vec_wire wire xs = varsize_wire (length xs) @ concat (map wire xs)"

definition vec_valid :: "('a \<Rightarrow> bool) \<Rightarrow> 'a list \<Rightarrow> bool" where
  "vec_valid valid xs \<longleftrightarrow> length xs < 2 ^ 32 \<and> (\<forall>x\<in>set xs. valid x)"

lemma slice_encode_loop_writes:
  assumes "\<And>x. x \<in> set xs \<Longrightarrow> writes (enc x p) (wire x)" and "offset \<le> length buf"
  shows "slice_encode_loop enc p xs buf offset =
    (if length (concat (map wire xs)) \<le> length buf - offset
     then Inr (take offset buf @ concat (map wire xs),
               drop (offset + length (concat (map wire xs))) buf)
     else out_of_limit)"
  using assms
proof (induction xs arbitrary: buf offset)
  case Nil
  then show ?case by simp
next
  case (Cons x xs)
  have w: "writes (enc x p) (wire x)" using Cons.prems(1) by simp
  show ?case
  proof (cases "length (wire x) \<le> length buf - offset")
    case True
    then have e: "enc x p (drop offset buf) = Inr (wire x, drop (length (wire x)) (drop offset buf))"
      by (intro writesD [OF w]) simp
    let ?buf = "take offset buf @ wire x @ drop (length (wire x) + offset) buf"
    have len: "length ?buf = length buf" using True Cons.prems(2) by simp
    have off: "length buf - length (drop (length (wire x) + offset) buf) = offset + length (wire x)"
      using True Cons.prems(2) by simp
    have "slice_encode_loop enc p (x # xs) buf offset =
        slice_encode_loop enc p xs ?buf (offset + length (wire x))"
      using e off by (simp add: add.commute)
    also have "\<dots> =
      (if length (concat (map wire xs)) \<le> length ?buf - (offset + length (wire x))
       then Inr (take (offset + length (wire x)) ?buf @ concat (map wire xs),
                 drop (offset + length (wire x) + length (concat (map wire xs))) ?buf)
       else out_of_limit)"
      by (rule Cons.IH) (use Cons.prems True len in auto)
    also have "\<dots> = (if length (concat (map wire (x # xs))) \<le> length buf - offset
      then Inr (take offset buf @ concat (map wire (x # xs)),
                drop (offset + length (concat (map wire (x # xs)))) buf)
      else out_of_limit)"
      using Cons.prems(2) True unfolding len by (auto simp: add_ac)
    finally show ?thesis .
  next
    case False
    then have "enc x p (drop offset buf) = out_of_limit"
      by (intro writesD_short [OF w]) simp
    with False show ?thesis by auto
  qed
qed

lemma slice_loop_writes:
  assumes "\<And>x. x \<in> set xs \<Longrightarrow> writes (enc x p) (wire x)"
  shows "writes (\<lambda>buf. slice_encode_loop enc p xs buf 0) (concat (map wire xs))"
  using slice_encode_loop_writes [of xs enc p wire 0] assms by (simp add: writes_def)

lemma vec_decode_loop_wire:
  assumes "\<And>x rest. x \<in> set xs \<Longrightarrow> dec (wire x @ rest) = Inr (x, rest)"
    and "drop offset buf = concat (map wire xs) @ rest" and "offset \<le> length buf"
  shows "vec_decode_loop dec buf offset (length xs) vec = Inr (vec @ xs, rest)"
  using assms
proof (induction xs arbitrary: offset vec)
  case Nil
  then show ?case by simp
next
  case (Cons x xs)
  let ?next = "concat (map wire xs) @ rest"
  let ?off = "length buf - length ?next"
  have "dec (drop offset buf) = Inr (x, ?next)"
    using Cons.prems(1) [of x] Cons.prems(2) by simp
  moreover have "suffix_of ?next buf"
  proof -
    have "drop (length (wire x)) (drop offset buf) = ?next"
      by (simp only: Cons.prems(2)) simp
    moreover have "suffix_of (drop (length (wire x)) (drop offset buf)) buf"
      by (rule suffix_of_trans [OF suffix_of_drop suffix_of_drop])
    ultimately show ?thesis by (simp only:)
  qed
  then have "length ?next \<le> length buf" and "drop ?off buf = ?next"
    by (rule suffix_of_length, rule suffix_of_eq)
  moreover have "vec_decode_loop dec buf ?off (length xs) (vec @ [x]) = Inr ((vec @ [x]) @ xs, rest)"
    by (rule Cons.IH) (use Cons.prems \<open>drop ?off buf = ?next\<close> in auto)
  ultimately show ?case by simp
qed

lemma vec_raw_codec:
  assumes "raw_codec valid wire m enc dec"
  shows "raw_codec (vec_valid valid) (vec_wire wire)
    (vec_raw_measure m) (vec_raw_encode enc) (vec_raw_decode dec)"
proof (rule raw_codecI)
  fix xs p and rest :: bytes
  assume "vec_valid valid xs"
  then have len: "length xs < 2 ^ 32" and all: "\<And>x. x \<in> set xs \<Longrightarrow> valid x"
    by (auto simp: vec_valid_def)
  then have len62: "length xs < 2 ^ 62" by simp
  show "vec_raw_measure m xs p = Inr (length (vec_wire wire xs))"
    using measure_each_sum [of xs "\<lambda>e. m e p" wire] all raw_codec.measure_wire [OF assms]
    by (simp add: vec_raw_measure_def slice_raw_measure_def usize_measure_wire [OF len62] vec_wire_def)
  have "writes (enc_then (usize_raw_encode (USize (length xs)) p)
      (\<lambda>buf. slice_encode_loop enc p xs buf 0)) (vec_wire wire xs)"
    unfolding vec_wire_def
    by (intro writes_then usize_writes len62 slice_loop_writes raw_codec.writes_enc [OF assms] all)
  moreover have "1 \<le> length (vec_wire wire xs)"
    by (simp add: vec_wire_def length_varsize_wire)
  ultimately show "writes (vec_raw_encode enc xs p) (vec_wire wire xs)"
    by (auto simp: writes_def vec_raw_encode_def slice_raw_encode_def)
  have "vec_decode_loop dec (concat (map wire xs) @ rest) 0 (length xs) [] = Inr ([] @ xs, rest)"
    by (rule vec_decode_loop_wire) (use all raw_codec.decode_wire [OF assms] in auto)
  then show "vec_raw_decode dec (vec_wire wire xs @ rest) = Inr (xs, rest)"
    using len usize_decode_wire [OF len62, of "concat (map wire xs) @ rest"]
    by (simp add: vec_raw_decode_def vec_wire_def length_varsize_wire)
qed

subsection \<open>Sets and maps meet the contract\<close>

definition set_wire :: "('a::linorder \<Rightarrow> bytes) \<Rightarrow> 'a set \<Rightarrow> bytes" where
  "set_wire wire S = varsize_wire (card S) @ concat (map wire (sorted_list_of_set S))"

definition set_valid :: "nat \<Rightarrow> ('a \<Rightarrow> bool) \<Rightarrow> 'a set \<Rightarrow> bool" where
  "set_valid bits valid S \<longleftrightarrow> finite S \<and> card S < 2 ^ bits \<and> (\<forall>x\<in>S. valid x)"

lemma set_decode_loop_wire:
  assumes "\<And>x rest. x \<in> set xs \<Longrightarrow> dec (wire x @ rest) = Inr (x, rest)"
  shows "set_decode_loop dec (length xs) (concat (map wire xs) @ rest) S = Inr (set xs \<union> S, rest)"
  using assms by (induction xs arbitrary: S) simp_all

lemma set_measure_wire:
  assumes "raw_codec valid wire m enc dec" and "set_valid 62 valid S"
  shows "rbind (runwrap (usize_raw_measure (USize (card S)) p)) (\<lambda>bytes.
       measure_each (\<lambda>e. m e p) bytes (sorted_list_of_set S)) = Inr (length (set_wire wire S))"
  using assms measure_each_sum [of "sorted_list_of_set S" "\<lambda>e. m e p" wire]
  by (simp add: set_valid_def raw_codec.measure_wire [OF assms(1)] usize_measure_wire set_wire_def)

lemma set_encode_wire:
  assumes "raw_codec valid wire m enc dec" and "set_valid 62 valid S"
  shows "writes (enc_then (usize_raw_encode (USize (card S)) p)
       (enc_each (\<lambda>e. enc e p) (sorted_list_of_set S))) (set_wire wire S)"
  unfolding set_wire_def
  by (intro writes_then usize_writes writes_each raw_codec.writes_enc [OF assms(1)])
    (use assms(2) in \<open>auto simp: set_valid_def\<close>)

lemma set_loop_wire:
  assumes "raw_codec valid wire m enc dec" and "set_valid 62 valid S"
  shows "set_decode_loop dec (card S) (concat (map wire (sorted_list_of_set S)) @ rest) {} =
    Inr (S, rest)"
  using assms(2) set_decode_loop_wire [of "sorted_list_of_set S" dec wire rest "{}"]
  by (simp add: set_valid_def raw_codec.decode_wire [OF assms(1)])

lemma set_valid_mono: "set_valid a valid S \<Longrightarrow> a \<le> b \<Longrightarrow> set_valid b valid S"
  unfolding set_valid_def
  by (meson less_le_trans one_le_numeral power_increasing)

lemma btree_set_raw_codec:
  assumes "raw_codec valid wire m enc dec"
  shows "raw_codec (set_valid 62 valid) (set_wire wire)
    (btree_set_raw_measure m) (btree_set_raw_encode enc) (btree_set_raw_decode dec)"
proof (rule raw_codecI)
  fix S p and rest :: bytes
  assume S: "set_valid 62 valid S"
  show "btree_set_raw_measure m S p = Inr (length (set_wire wire S))"
    using set_measure_wire [OF assms S] by (simp add: btree_set_raw_measure_def)
  show "writes (btree_set_raw_encode enc S p) (set_wire wire S)"
    using set_encode_wire [OF assms S, of p] by (simp add: writes_def btree_set_raw_encode_def)
  have "card S < 2 ^ 62" using S by (simp add: set_valid_def)
  with set_loop_wire [OF assms S, of rest]
  show "btree_set_raw_decode dec (set_wire wire S @ rest) = Inr (S, rest)"
    by (simp add: btree_set_raw_decode_def set_wire_def usize_decode_wire)
qed

text \<open>Sorting erases the iteration order of a hash set or map.\<close>

lemma sort_distinct: "distinct xs \<Longrightarrow> sort xs = sorted_list_of_set (set xs)"
  by (simp add: sorted_list_of_set_sort_remdups distinct_remdups_id)

lemma length_concat_distinct:
  assumes "distinct xs" and "distinct ys" and "set xs = set ys"
  shows "length (concat (map f xs)) = length (concat (map f ys))"
proof -
  have "sum_list (map (\<lambda>x. length (f x)) xs) = sum_list (map (\<lambda>x. length (f x)) ys)"
    using assms by (simp add: sum_list_distinct_conv_sum_set)
  then show ?thesis by (simp add: length_concat comp_def)
qed

text \<open>An encoder of the trait with the two writing laws of the contract.\<close>

lemma to_vec_writes:
  assumes "msr x None = Inr (length w)" and "writes (enc x None) w"
  shows "to_vec msr enc x = Inr w"
  using assms by (simp add: to_vec_def raw_encode_to_buffer_def writes_def rassert_def)

lemma hash_set_to_vec:
  assumes "raw_codec valid wire m enc dec" and "distinct xs" and "set_valid 61 valid (set xs)"
  shows "to_vec (hash_set_raw_measure m) (hash_set_raw_encode enc) xs = Inr (set_wire wire (set xs))"
    and "hash_set_raw_decode dec (set_wire wire (set xs) @ rest) = Inr (set xs, rest)"
proof -
  have S: "set_valid 62 valid (set xs)" and card: "card (set xs) < 2 ^ 61"
    using assms(3) by (auto simp: set_valid_def)
  have len: "length xs = card (set xs)" using assms(2) by (simp add: distinct_card)
  have "measure_each (\<lambda>e. m e None) n xs = Inr (n + length (concat (map wire (sort xs))))" for n
    using measure_each_sum [of xs "\<lambda>e. m e None" wire n] assms(3) length_concat_distinct [of xs "sort xs" wire] assms(2)
    by (simp add: set_valid_def raw_codec.measure_wire [OF assms(1)])
  then have "hash_set_raw_measure m xs None = Inr (length (set_wire wire (set xs)))"
    using card by (simp add: hash_set_raw_measure_def len usize_measure_wire set_wire_def sort_distinct [OF assms(2)])
  moreover have "writes (hash_set_raw_encode enc xs None) (set_wire wire (set xs))"
    using set_encode_wire [OF assms(1) S, of None]
    by (simp add: writes_def hash_set_raw_encode_def len sort_distinct [OF assms(2)])
  ultimately show "to_vec (hash_set_raw_measure m) (hash_set_raw_encode enc) xs = Inr (set_wire wire (set xs))"
    by (rule to_vec_writes)
  have "hash_with_capacity (card (set xs)) = Inr ()"
    using card by (simp add: hash_with_capacity_def usize_MAX_def)
  with card set_loop_wire [OF assms(1) S, of rest]
  show "hash_set_raw_decode dec (set_wire wire (set xs) @ rest) = Inr (set xs, rest)"
    by (simp add: hash_set_raw_decode_def set_wire_def usize_decode_wire)
qed

definition entry_wire :: "('k \<Rightarrow> bytes) \<Rightarrow> ('v \<Rightarrow> bytes) \<Rightarrow> 'k \<times> 'v \<Rightarrow> bytes" where
  "entry_wire wk wv kv = wk (fst kv) @ wv (snd kv)"

definition map_wire :: "('k::linorder \<Rightarrow> bytes) \<Rightarrow> ('v \<Rightarrow> bytes) \<Rightarrow> ('k \<rightharpoonup> 'v) \<Rightarrow> bytes" where
  "map_wire wk wv m =
     varsize_wire (card (dom m)) @ concat (map (entry_wire wk wv) (map_entries m))"

definition map_valid :: "('k \<Rightarrow> bool) \<Rightarrow> ('v \<Rightarrow> bool) \<Rightarrow> ('k \<rightharpoonup> 'v) \<Rightarrow> bool" where
  "map_valid vk vv m \<longleftrightarrow>
     finite (dom m) \<and> card (dom m) < 2 ^ 62 \<and> (\<forall>k v. m k = Some v \<longrightarrow> vk k \<and> vv v)"

lemma map_valid_entry:
  assumes "map_valid vk vv m" and "kv \<in> set (map_entries m)"
  shows "vk (fst kv)" and "vv (snd kv)"
  using assms by (auto simp: map_entries_def map_valid_def)

lemma length_map_entries [simp]: "length (map_entries m) = card (dom m)"
  by (simp add: map_entries_def)

lemma map_decode_loop_wire:
  assumes "\<And>kv rest. kv \<in> set kvs \<Longrightarrow> dk (wk (fst kv) @ rest) = Inr (fst kv, rest)"
    and "\<And>kv rest. kv \<in> set kvs \<Longrightarrow> dv (wv (snd kv) @ rest) = Inr (snd kv, rest)"
  shows "map_decode_loop dk dv (length kvs) (concat (map (entry_wire wk wv) kvs) @ rest) m =
    Inr (fold (\<lambda>(k, v) m. m(k \<mapsto> v)) kvs m, rest)"
  using assms
  by (induction kvs arbitrary: m) (simp_all add: entry_wire_def split_beta)

lemma fold_map_upd:
  "fold (\<lambda>(k, v) m. m(k \<mapsto> v)) (map (\<lambda>k. (k, the (m k))) ks) m0 x =
    (if x \<in> set ks then Some (the (m x)) else m0 x)"
  by (induction ks arbitrary: m0) auto

lemma fold_map_entries:
  assumes "finite (dom m)"
  shows "fold (\<lambda>(k, v) m. m(k \<mapsto> v)) (map_entries m) Map.empty = m"
proof
  fix x
  show "fold (\<lambda>(k, v) m. m(k \<mapsto> v)) (map_entries m) Map.empty x = m x"
    using assms by (cases "m x") (auto simp: map_entries_def fold_map_upd domIff)
qed

lemma map_measure_wire:
  assumes k: "raw_codec vk wk mk ek dk" and v: "raw_codec vv wv mv ev dv" and m: "map_valid vk vv m"
  shows "rbind (runwrap (usize_raw_measure (USize (card (dom m))) p)) (\<lambda>size.
       measure_each (entry_measure mk mv p) size (map_entries m)) = Inr (length (map_wire wk wv m))"
proof -
  have "entry_measure mk mv p kv = Inr (length (entry_wire wk wv kv))"
    if "kv \<in> set (map_entries m)" for kv
    using map_valid_entry [OF m that]
    by (simp add: entry_measure_def entry_wire_def raw_codec.measure_wire [OF k]
        raw_codec.measure_wire [OF v])
  from measure_each_sum [of "map_entries m", OF this] m show ?thesis
    by (simp add: map_valid_def usize_measure_wire map_wire_def)
qed

lemma map_decode_wire:
  assumes k: "raw_codec vk wk mk ek dk" and v: "raw_codec vv wv mv ev dv" and m: "map_valid vk vv m"
  shows "rbind (usize_raw_decode (map_wire wk wv m @ rest)) (\<lambda>(ulen, buf).
       map_decode_loop dk dv (usize_value ulen) buf Map.empty) = Inr (m, rest)"
proof -
  have fin: "finite (dom m)" and card: "card (dom m) < 2 ^ 62" using m by (auto simp: map_valid_def)
  have "map_decode_loop dk dv (length (map_entries m))
      (concat (map (entry_wire wk wv) (map_entries m)) @ rest) Map.empty =
      Inr (fold (\<lambda>(k, v) m. m(k \<mapsto> v)) (map_entries m) Map.empty, rest)"
    by (rule map_decode_loop_wire; intro raw_codec.decode_wire [OF k] raw_codec.decode_wire [OF v]
      map_valid_entry [OF m])
  then show ?thesis
    using card by (simp add: map_wire_def usize_decode_wire fold_map_entries [OF fin])
qed

lemma btree_map_raw_codec:
  assumes k: "raw_codec vk wk mk ek dk" and v: "raw_codec vv wv mv ev dv"
  shows "raw_codec (map_valid vk vv) (map_wire wk wv) (btree_map_raw_measure mk mv)
    (btree_map_raw_encode ek ev) (btree_map_raw_decode dk dv)"
proof (rule raw_codecI)
  fix m p and rest :: bytes
  assume m: "map_valid vk vv m"
  show "btree_map_raw_measure mk mv m p = Inr (length (map_wire wk wv m))"
    using map_measure_wire [OF k v m] by (simp add: btree_map_raw_measure_def)
  have "writes (enc_then (usize_raw_encode (USize (card (dom m))) p)
      (enc_each (\<lambda>(key, value). enc_then (ek key p) (ev value p)) (map_entries m)))
      (map_wire wk wv m)"
    unfolding map_wire_def entry_wire_def split_beta
    by (intro writes_then usize_writes writes_each raw_codec.writes_enc [OF k]
        raw_codec.writes_enc [OF v] map_valid_entry [OF m])
      (use m in \<open>auto simp: map_valid_def\<close>)
  then show "writes (btree_map_raw_encode ek ev m p) (map_wire wk wv m)"
    by (simp add: writes_def btree_map_raw_encode_def)
  show "btree_map_raw_decode dk dv (map_wire wk wv m @ rest) = Inr (m, rest)"
    using map_decode_wire [OF k v m, of rest] by (simp add: btree_map_raw_decode_def)
qed

lemma map_entries_set:
  assumes "distinct (map fst es)"
  shows "distinct (map_entries (map_of es))" and "set (map_entries (map_of es)) = set es"
proof -
  show "distinct (map_entries (map_of es))"
    by (simp add: map_entries_def distinct_map inj_on_def)
  show "set (map_entries (map_of es)) = set es"
  proof (intro equalityI subsetI)
    show "x \<in> set es" if "x \<in> set (map_entries (map_of es))" for x
      using that by (auto simp: map_entries_def finite_dom_map_of dest: map_of_SomeD)
    show "x \<in> set (map_entries (map_of es))" if "x \<in> set es" for x
    proof -
      have "map_of es (fst x) = Some (snd x)" using that assms by simp
      then have "fst x \<in> dom (map_of es)" "x = (fst x, the (map_of es (fst x)))" by auto
      then show ?thesis by (auto simp: map_entries_def finite_dom_map_of image_iff simp del: map_of_eq_Some_iff)
    qed
  qed
qed

lemma hash_map_to_vec:
  assumes k: "raw_codec vk wk mk ek dk" and v: "raw_codec vv wv mv ev dv"
    and dist: "distinct (map fst es)" and m: "map_valid vk vv (map_of es)"
  shows "to_vec (hash_map_raw_measure mk mv) (hash_map_raw_encode ek ev) es = Inr (map_wire wk wv (map_of es))"
proof (rule to_vec_writes)
  have dom: "dom (map_of es) = fst ` set es" by (rule dom_map_of_conv_image_fst)
  have len: "length es = card (dom (map_of es))"
    using dist distinct_card [of "map fst es"] by (simp add: dom)
  have keys: "sort (map fst es) = sorted_list_of_set (dom (map_of es))" using sort_distinct [OF dist] by (simp add: dom)
  have valid: "vk (fst kv) \<and> vv (snd kv)" if "kv \<in> set es" for kv
    using m that dist by (cases kv) (simp add: map_valid_def)
  have "measure_each (entry_measure mk mv None) n es =
      Inr (n + length (concat (map (entry_wire wk wv) (map_entries (map_of es)))))" for n
    using measure_each_sum [of es "entry_measure mk mv None" "entry_wire wk wv" n] valid
      length_concat_distinct [OF _ map_entries_set(1) [OF dist], of es "entry_wire wk wv"]
      map_entries_set(2) [OF dist] dist
    by (simp add: distinct_map entry_measure_def entry_wire_def raw_codec.measure_wire [OF k] raw_codec.measure_wire [OF v])
  with m show "hash_map_raw_measure mk mv es None = Inr (length (map_wire wk wv (map_of es)))"
    by (simp add: hash_map_raw_measure_def len map_valid_def usize_measure_wire map_wire_def)
  have entry: "writes (enc_then (ek key p)
      (\<lambda>buf. case map_of es key of None \<Rightarrow> Inl Panic | Some value \<Rightarrow> ev value p buf))
      (wk key @ wv (the (map_of es key)))" if "key \<in> dom (map_of es)" for key p
  proof -
    from that obtain x where val: "map_of es key = Some x" by auto
    with m have "vk key" and "vv x" by (auto simp: map_valid_def)
    then show ?thesis
      using writes_then [OF raw_codec.writes_enc [OF k, of key p] raw_codec.writes_enc [OF v, of x p]]
      by (simp add: val)
  qed
  have "writes (enc_each (\<lambda>key. enc_then (ek key None)
      (\<lambda>buf. case map_of es key of None \<Rightarrow> Inl Panic | Some value \<Rightarrow> ev value None buf))
      (sorted_list_of_set (dom (map_of es))))
      (concat (map (\<lambda>key. wk key @ wv (the (map_of es key))) (sorted_list_of_set (dom (map_of es)))))"
    by (rule writes_each, rule entry) (simp add: finite_dom_map_of)
  then have "writes (enc_then (usize_raw_encode (USize (length es)) None)
      (enc_each (\<lambda>key. enc_then (ek key None)
        (\<lambda>buf. case map_of es key of None \<Rightarrow> Inl Panic | Some value \<Rightarrow> ev value None buf))
        (sort (map fst es)))) (map_wire wk wv (map_of es))"
    unfolding map_wire_def map_entries_def keys len
    by (intro writes_then usize_writes) (use m in \<open>simp_all add: map_valid_def comp_def entry_wire_def\<close>)
  then show "writes (hash_map_raw_encode ek ev es None) (map_wire wk wv (map_of es))"
    by (simp add: writes_def hash_map_raw_encode_def)
qed

subsection \<open>Cells, tuples and sums meet the contract\<close>

lemma mutex_raw_codec:
  assumes "raw_codec valid wire m enc dec"
  shows "raw_codec (\<lambda>c. \<not> poisoned c \<and> valid (inner c)) (\<lambda>c. wire (inner c))
    (mutex_raw_measure m) (mutex_raw_encode enc) (mutex_raw_decode dec)"
  by unfold_locales
    (simp_all add: mutex_raw_measure_def mutex_raw_encode_def mutex_raw_decode_def
      raw_codec.measure_wire [OF assms] raw_codec.encode_wire [OF assms]
      raw_codec.encode_short [OF assms] raw_codec.decode_wire [OF assms])

lemma arc_raw_codec:
  assumes "raw_codec valid wire m enc dec"
  shows "raw_codec (\<lambda>c. valid (arc_deref c)) (\<lambda>c. wire (arc_deref c))
    (arc_raw_measure m) (arc_raw_encode enc) (arc_raw_decode dec)"
  by unfold_locales
    (simp_all add: arc_raw_measure_def arc_raw_encode_def arc_raw_decode_def
      raw_codec.measure_wire [OF assms] raw_codec.encode_wire [OF assms]
      raw_codec.encode_short [OF assms] raw_codec.decode_wire [OF assms])

interpretation atomic_i32: raw_codec "\<lambda>_. True" "\<lambda>c. to_be_bytes (load_i32 c)"
  atomic_i32_raw_measure atomic_i32_raw_encode atomic_i32_raw_decode
  by unfold_locales
    (simp_all add: atomic_i32_raw_measure_def atomic_i32_raw_encode_def atomic_i32_raw_decode_def
      i32.measure_wire i32.encode_wire i32.encode_short i32.decode_wire)

interpretation atomic_u32: raw_codec "\<lambda>_. True" "\<lambda>c. to_be_bytes (load_u32 c)"
  atomic_u32_raw_measure atomic_u32_raw_encode atomic_u32_raw_decode
  by unfold_locales
    (simp_all add: atomic_u32_raw_measure_def atomic_u32_raw_encode_def atomic_u32_raw_decode_def
      u32.measure_wire u32.encode_wire u32.encode_short u32.decode_wire)

lemma tuple2_raw_codec:
  assumes "raw_codec v1 w1 m1 e1 d1" and "raw_codec v2 w2 m2 e2 d2"
  shows "raw_codec (\<lambda>(a, b). v1 a \<and> v2 b) (\<lambda>(a, b). w1 a @ w2 b)
    (tuple2_raw_measure m1 m2) (tuple2_raw_encode e1 e2) (tuple2_raw_decode d1 d2)"
proof (rule raw_codecI)
  fix t p and rest :: bytes
  assume "case t of (a, b) \<Rightarrow> v1 a \<and> v2 b"
  then obtain a b where t: "t = (a, b)" and v: "v1 a" "v2 b" by auto
  show "tuple2_raw_measure m1 m2 t p = Inr (length (case t of (a, b) \<Rightarrow> w1 a @ w2 b))"
    using v by (simp add: t tuple2_raw_measure_def raw_codec.measure_wire [OF assms(1)]
        raw_codec.measure_wire [OF assms(2)])
  have "writes (enc_then (e1 a p) (e2 b p)) (w1 a @ w2 b)"
    by (intro writes_then raw_codec.writes_enc [OF assms(1)] raw_codec.writes_enc [OF assms(2)] v)
  then show "writes (tuple2_raw_encode e1 e2 t p) (case t of (a, b) \<Rightarrow> w1 a @ w2 b)"
    by (simp add: t writes_def tuple2_raw_encode_def)
  show "tuple2_raw_decode d1 d2 ((case t of (a, b) \<Rightarrow> w1 a @ w2 b) @ rest) = Inr (t, rest)"
    using v by (simp add: t tuple2_raw_decode_def raw_codec.decode_wire [OF assms(1)]
        raw_codec.decode_wire [OF assms(2)])
qed

text \<open>A longer tuple encodes as the pair of its first component and the tuple of the others.\<close>

lemma tuple_nesting:
  "tuple3_raw_measure m1 m2 m3 = tuple2_raw_measure m1 (tuple2_raw_measure m2 m3)"
  "tuple3_raw_encode e1 e2 e3 = tuple2_raw_encode e1 (tuple2_raw_encode e2 e3)"
  "tuple3_raw_decode d1 d2 d3 = tuple2_raw_decode d1 (tuple2_raw_decode d2 d3)"
  "tuple4_raw_measure m1 m2 m3 m4 = tuple2_raw_measure m1 (tuple3_raw_measure m2 m3 m4)"
  "tuple4_raw_encode e1 e2 e3 e4 = tuple2_raw_encode e1 (tuple3_raw_encode e2 e3 e4)"
  "tuple4_raw_decode d1 d2 d3 d4 = tuple2_raw_decode d1 (tuple3_raw_decode d2 d3 d4)"
  "tuple5_raw_measure m1 m2 m3 m4 m5 = tuple2_raw_measure m1 (tuple4_raw_measure m2 m3 m4 m5)"
  "tuple5_raw_encode e1 e2 e3 e4 e5 = tuple2_raw_encode e1 (tuple4_raw_encode e2 e3 e4 e5)"
  "tuple5_raw_decode d1 d2 d3 d4 d5 = tuple2_raw_decode d1 (tuple4_raw_decode d2 d3 d4 d5)"
  by (auto simp: fun_eq_iff tuple2_raw_measure_def tuple2_raw_encode_def tuple2_raw_decode_def
      tuple3_raw_measure_def tuple3_raw_encode_def tuple3_raw_decode_def
      tuple4_raw_measure_def tuple4_raw_encode_def tuple4_raw_decode_def
      tuple5_raw_measure_def tuple5_raw_encode_def tuple5_raw_decode_def
      enc_then_def rbind_def split_beta split: sum.splits)

lemma option_raw_codec:
  assumes "raw_codec valid wire m enc dec"
  shows "raw_codec (pred_option valid) (case_option [0] (\<lambda>t. 1 # wire t))
    (option_raw_measure m) (option_raw_encode enc) (option_raw_decode dec)"
proof (rule raw_codecI)
  fix v p and rest :: bytes
  assume v: "pred_option valid v"
  show "option_raw_measure m v p = Inr (length (case_option [0] (\<lambda>t. 1 # wire t) v))"
    using v by (cases v) (simp_all add: option_raw_measure_def raw_codec.measure_wire [OF assms])
  show "writes (option_raw_encode enc v p) (case_option [0] (\<lambda>t. 1 # wire t) v)"
  proof (cases v)
    case None
    then show ?thesis using u8.writes_enc [of 0 p] by (simp add: writes_def option_raw_encode_def)
  next
    case (Some t)
    have "writes (enc_then (u8_raw_encode 1 p) (enc t p)) ([1] @ wire t)"
      by (intro writes_then raw_codec.writes_enc [OF assms] u8.writes_enc) (use v Some in simp_all)
    then show ?thesis using Some by (simp add: writes_def option_raw_encode_def)
  qed
  show "option_raw_decode dec (case_option [0] (\<lambda>t. 1 # wire t) v @ rest) = Inr (v, rest)"
    using v by (cases v) (simp_all add: option_raw_decode_def u8_raw_decode_def
        raw_codec.decode_wire [OF assms])
qed

lemma option_ref_same:
  "option_ref_raw_encode enc = option_raw_encode enc"
  "option_ref_raw_measure m = option_raw_measure m"
  by (auto simp: fun_eq_iff option_ref_raw_encode_def option_raw_encode_def
      option_ref_raw_measure_def option_raw_measure_def rbind_def split: option.splits sum.splits)

lemma result_raw_codec:
  assumes t: "raw_codec vt wt mt et dt" and e: "raw_codec ve we me ee de"
  shows "raw_codec (pred_sum ve vt) (case_sum (\<lambda>e. 1 # we e) (\<lambda>t. 0 # wt t))
    (result_raw_measure mt me) (result_raw_encode et ee) (result_raw_decode dt de)"
proof (rule raw_codecI)
  fix v p and rest :: bytes
  assume v: "pred_sum ve vt v"
  show "result_raw_measure mt me v p = Inr (length (case_sum (\<lambda>e. 1 # we e) (\<lambda>t. 0 # wt t) v))"
    using v by (cases v) (simp_all add: result_raw_measure_def raw_codec.measure_wire [OF t]
        raw_codec.measure_wire [OF e])
  have "writes (enc_then (u8_raw_encode 1 p) (ee x p)) ([1] @ we x)" if "v = Inl x" for x
    by (intro writes_then raw_codec.writes_enc [OF e] u8.writes_enc) (use v that in simp_all)
  moreover have "writes (enc_then (u8_raw_encode 0 p) (et x p)) ([0] @ wt x)" if "v = Inr x" for x
    by (intro writes_then raw_codec.writes_enc [OF t] u8.writes_enc) (use v that in simp_all)
  ultimately show "writes (result_raw_encode et ee v p) (case_sum (\<lambda>e. 1 # we e) (\<lambda>t. 0 # wt t) v)"
    by (cases v) (simp_all add: writes_def result_raw_encode_def)
  show "result_raw_decode dt de (case_sum (\<lambda>e. 1 # we e) (\<lambda>t. 0 # wt t) v @ rest) = Inr (v, rest)"
    using v by (cases v) (simp_all add: result_raw_decode_def u8_raw_decode_def
        raw_codec.decode_wire [OF t] raw_codec.decode_wire [OF e])
qed

lemma type_buffer_raw_codec:
  assumes "raw_codec valid wire m enc dec"
  shows "raw_codec (\<lambda>tb. valid (get_obj tb) \<and> length (wire (get_obj tb)) < 2 ^ 62)
    (\<lambda>tb. varsize_wire (length (wire (get_obj tb))) @ wire (get_obj tb))
    (type_buffer_raw_measure m) (type_buffer_raw_encode m enc) (type_buffer_raw_decode dec)"
proof (rule raw_codecI)
  fix tb p and rest :: bytes
  assume "valid (get_obj tb) \<and> length (wire (get_obj tb)) < 2 ^ 62"
  then have v: "valid (get_obj tb)" and len: "length (wire (get_obj tb)) < 2 ^ 62" by auto
  note mv = raw_codec.measure_wire [OF assms v]
  show "type_buffer_raw_measure m tb p =
      Inr (length (varsize_wire (length (wire (get_obj tb))) @ wire (get_obj tb)))"
    using len by (simp add: type_buffer_raw_measure_def mv usize_measure_wire)
  have "writes (enc_then (usize_raw_encode (USize (length (wire (get_obj tb)))) p)
      (enc (get_obj tb) p)) (varsize_wire (length (wire (get_obj tb))) @ wire (get_obj tb))"
    by (intro writes_then usize_writes len raw_codec.writes_enc [OF assms] v)
  then show "writes (type_buffer_raw_encode m enc tb p)
      (varsize_wire (length (wire (get_obj tb))) @ wire (get_obj tb))"
    by (simp add: writes_def type_buffer_raw_encode_def mv)
  show "type_buffer_raw_decode dec
      ((varsize_wire (length (wire (get_obj tb))) @ wire (get_obj tb)) @ rest) = Inr (tb, rest)"
    using len by (simp add: type_buffer_raw_decode_def usize_decode_wire
        raw_codec.decode_wire [OF assms v])
qed

lemma range_raw_codec:
  assumes "raw_codec valid wire m enc dec"
  shows "raw_codec (\<lambda>r. valid (range_start r) \<and> valid (range_end r))
    (\<lambda>r. wire (range_start r) @ wire (range_end r))
    (range_raw_measure m) (range_raw_encode enc) (range_raw_decode dec)"
proof (rule raw_codecI)
  fix r :: "'a range" and p and rest :: bytes
  assume "valid (range_start r) \<and> valid (range_end r)"
  then have v: "valid (range_start r)" "valid (range_end r)" by auto
  show "range_raw_measure m r p = Inr (length (wire (range_start r) @ wire (range_end r)))"
    using v by (simp add: range_raw_measure_def raw_codec.measure_wire [OF assms])
  have "writes (enc_then (enc (range_start r) p) (enc (range_end r) p))
      (wire (range_start r) @ wire (range_end r))"
    by (intro writes_then raw_codec.writes_enc [OF assms] v)
  then show "writes (range_raw_encode enc r p) (wire (range_start r) @ wire (range_end r))"
    by (simp add: writes_def range_raw_encode_def)
  show "range_raw_decode dec ((wire (range_start r) @ wire (range_end r)) @ rest) = Inr (r, rest)"
    using v by (simp add: range_raw_decode_def raw_codec.decode_wire [OF assms])
qed

subsection \<open>Containers of safe decoders are safe\<close>

lemma good_vec_loop:
  assumes "safe_decoder dec" and "offset \<le> length buf"
  shows "good buf (vec_decode_loop dec buf offset n vec)"
  using assms(2)
proof (induction n arbitrary: offset vec)
  case 0
  then show ?case by simp
next
  case (Suc n)
  have g: "good (drop offset buf) (dec (drop offset buf))"
    using assms(1) by (simp add: safe_decoder_good)
  show ?case
  proof (cases "dec (drop offset buf)")
    case (Inl f)
    with g show ?thesis by (auto simp: good_def safe_Inl)
  next
    case (Inr en)
    obtain e nxt where en: "en = (e, nxt)" by (cases en)
    with Inr g have "length nxt \<le> length buf"
      by (auto dest: suffix_of_length)
    with Inr en Suc.IH show ?thesis by simp
  qed
qed

lemma vec_safe_decoder:
  assumes "safe_decoder dec"
  shows "safe_decoder (vec_raw_decode dec)"
proof -
  have "good buf (vec_raw_decode dec buf)" for buf
    unfolding vec_raw_decode_def
    by (auto simp: Let_def intro!: good_bind good_vec_loop [OF assms])
  then show ?thesis by (simp add: safe_decoder_good)
qed

lemma good_set_loop:
  assumes "safe_decoder dec"
  shows "good buf (set_decode_loop dec n buf S)"
  using assms
  by (induction n arbitrary: buf S) (auto simp: safe_decoder_good intro!: good_bind)

lemma btree_set_safe_decoder:
  assumes "safe_decoder dec"
  shows "safe_decoder (btree_set_raw_decode dec)"
  unfolding safe_decoder_good btree_set_raw_decode_def
  by (auto intro!: good_bind good_set_loop [OF assms])

lemma good_map_loop:
  assumes "safe_decoder dk" and "safe_decoder dv"
  shows "good buf (map_decode_loop dk dv n buf m)"
  using assms
  by (induction n arbitrary: buf m) (auto simp: safe_decoder_good intro!: good_bind)

lemma map_safe_decoder:
  assumes "safe_decoder dk" and "safe_decoder dv"
  shows "safe_decoder (hash_map_raw_decode dk dv)" and "safe_decoder (btree_map_raw_decode dk dv)"
  unfolding safe_decoder_good hash_map_raw_decode_def btree_map_raw_decode_def
  by (auto intro!: good_bind good_map_loop [OF assms])

lemma tuple2_safe_decoder:
  assumes "safe_decoder d1" and "safe_decoder d2"
  shows "safe_decoder (tuple2_raw_decode d1 d2)"
  using assms unfolding safe_decoder_good tuple2_raw_decode_def by (auto intro!: good_bind)

lemma option_safe_decoder:
  assumes "safe_decoder dec"
  shows "safe_decoder (option_raw_decode dec)"
  using assms unfolding safe_decoder_good option_raw_decode_def by (auto intro!: good_bind)

lemma result_safe_decoder:
  assumes "safe_decoder dt" and "safe_decoder de"
  shows "safe_decoder (result_raw_decode dt de)"
  using assms unfolding safe_decoder_good result_raw_decode_def by (auto intro!: good_bind)

lemma type_buffer_safe_decoder:
  assumes "safe_decoder dec"
  shows "safe_decoder (type_buffer_raw_decode dec)"
  using assms unfolding safe_decoder_good type_buffer_raw_decode_def by (auto intro!: good_bind)

lemma range_safe_decoder:
  assumes "safe_decoder dec"
  shows "safe_decoder (range_raw_decode dec)"
  using assms unfolding safe_decoder_good range_raw_decode_def by (auto intro!: good_bind)

subsection \<open>Instances\<close>

interpretation vec_u8: raw_codec "vec_valid (\<lambda>_. True)" "vec_wire (\<lambda>v. [v])"
  "vec_raw_measure u8_raw_measure" "vec_raw_encode u8_raw_encode" "vec_raw_decode u8_raw_decode"
  by (rule vec_raw_codec) (rule u8.raw_codec_axioms)

interpretation vec_u8: safe_decoder "vec_raw_decode u8_raw_decode"
  by (rule vec_safe_decoder) (rule u8.safe_decoder_axioms)

interpretation btree_map_u16_vec: raw_codec "map_valid (\<lambda>_. True) (vec_valid (\<lambda>_. True))"
  "map_wire to_be_bytes (vec_wire (\<lambda>v. [v]))"
  "btree_map_raw_measure u16_raw_measure (vec_raw_measure u8_raw_measure)"
  "btree_map_raw_encode u16_raw_encode (vec_raw_encode u8_raw_encode)"
  "btree_map_raw_decode u16_raw_decode (vec_raw_decode u8_raw_decode)"
  by (rule btree_map_raw_codec) (rule u16.raw_codec_axioms vec_u8.raw_codec_axioms)+

interpretation opt_tuple: raw_codec "pred_option (\<lambda>(a, b). True \<and> True)"
  "case_option [0] (\<lambda>t. 1 # (\<lambda>(a, b). to_be_bytes a @ [if b then 1 else 0]) t)"
  "option_raw_measure (tuple2_raw_measure u64_raw_measure bool_raw_measure)"
  "option_raw_encode (tuple2_raw_encode u64_raw_encode bool_raw_encode)"
  "option_raw_decode (tuple2_raw_decode u64_raw_decode bool_raw_decode)"
  by (rule option_raw_codec, rule tuple2_raw_codec)
    (rule u64.raw_codec_axioms bool.raw_codec_axioms)+

subsection \<open>Properties\<close>

text \<open>C28: A vector of at most \<open>u32::MAX\<close> elements round-trips, for every element type whose codec
  meets the contract: \<open>to_vec\<close> succeeds, its length is the measured one, and decoding returns the
  vector and leaves what follows it.\<close>

theorem vec_roundtrip:
  assumes "raw_codec valid wire m enc dec" and "length xs < 2 ^ 32" and "\<forall>x\<in>set xs. valid x"
  shows "\<exists>w. to_vec (vec_raw_measure m) (vec_raw_encode enc) xs = Inr w \<and>
    vec_raw_measure m xs None = Inr (length w) \<and>
    (\<forall>rest. vec_raw_decode dec (w @ rest) = Inr (xs, rest))"
proof (intro exI conjI allI)
  note c = vec_raw_codec [OF assms(1)]
  have v: "vec_valid valid xs" using assms(2,3) by (simp add: vec_valid_def)
  show "to_vec (vec_raw_measure m) (vec_raw_encode enc) xs = Inr (vec_wire wire xs)"
    unfolding to_vec_def by (rule raw_codec.encode_to_buffer_wire [OF c v])
  show "vec_raw_measure m xs None = Inr (length (vec_wire wire xs))"
    by (rule raw_codec.measure_wire [OF c v])
  show "vec_raw_decode dec (vec_wire wire xs @ rest) = Inr (xs, rest)" for rest
    by (rule raw_codec.decode_wire [OF c v])
qed

theorem vec_roundtrip_witness:
  "\<exists>w. to_vec (vec_raw_measure u16_raw_measure) (vec_raw_encode u16_raw_encode) [1, 2, 515] = Inr w \<and>
    vec_raw_decode u16_raw_decode (w @ [9]) = Inr ([1, 2, 515], [9])"
  using vec_roundtrip [OF u16.raw_codec_axioms, of "[1, 2, 515]"] by auto

text \<open>C27: The encoding of a \<open>HashMap\<close> does not depend on the order in which it iterates: every list of the
  same entries with distinct keys encodes to the same bytes, those of the \<open>BTreeMap\<close> with these entries,
  and both decoders read the contents back.\<close>

theorem hash_map_deterministic:
  assumes "raw_codec vk wk mk ek dk" and "raw_codec vv wv mv ev dv" and "distinct (map fst es)"
    and "length es < 2 ^ 62" and "\<forall>(k, v) \<in> set es. vk k \<and> vv v"
  shows "\<exists>w. (\<forall>es'. distinct (map fst es') \<longrightarrow> set es' = set es \<longrightarrow>
        to_vec (hash_map_raw_measure mk mv) (hash_map_raw_encode ek ev) es' = Inr w) \<and>
    to_vec (btree_map_raw_measure mk mv) (btree_map_raw_encode ek ev) (map_of es) = Inr w \<and>
    hash_map_raw_decode dk dv w = Inr (map_of es, []) \<and> btree_map_raw_decode dk dv w = Inr (map_of es, [])"
proof (intro exI conjI allI impI)
  note b = btree_map_raw_codec [OF assms(1,2)]
  have v: "map_valid vk vv (map_of es)"
    using assms(3-5) distinct_card [of "map fst es"]
    by (auto simp: map_valid_def finite_dom_map_of dom_map_of_conv_image_fst)
  show "to_vec (hash_map_raw_measure mk mv) (hash_map_raw_encode ek ev) es' = Inr (map_wire wk wv (map_of es))"
    if dist: "distinct (map fst es')" and es': "set es' = set es" for es'
  proof -
    have "map_of es' = map_of es"
      using map_of_inject_set [OF dist assms(3)] es' by simp
    with hash_map_to_vec [OF assms(1,2) dist] v show ?thesis by simp
  qed
  show "to_vec (btree_map_raw_measure mk mv) (btree_map_raw_encode ek ev) (map_of es) = Inr (map_wire wk wv (map_of es))"
    unfolding to_vec_def by (rule raw_codec.encode_to_buffer_wire [OF b, OF v])
  show "hash_map_raw_decode dk dv (map_wire wk wv (map_of es)) = Inr (map_of es, [])"
    using map_decode_wire [OF assms(1,2) v, of "[]"] by (simp add: hash_map_raw_decode_def)
  show "btree_map_raw_decode dk dv (map_wire wk wv (map_of es)) = Inr (map_of es, [])"
    using raw_codec.decode_wire [OF b, OF v, of "[]"] by simp
qed

theorem hash_map_deterministic_witness:
  "\<exists>w. to_vec (hash_map_raw_measure u16_raw_measure u8_raw_measure)
         (hash_map_raw_encode u16_raw_encode u8_raw_encode) [(700, 7), (3, 9)] = Inr w \<and>
    to_vec (hash_map_raw_measure u16_raw_measure u8_raw_measure)
         (hash_map_raw_encode u16_raw_encode u8_raw_encode) [(3, 9), (700, 7)] = Inr w \<and>
    hash_map_raw_decode u16_raw_decode u8_raw_decode w = Inr ([700 \<mapsto> 7, 3 \<mapsto> 9], [])"
  using hash_map_deterministic [OF u16.raw_codec_axioms u8.raw_codec_axioms, of "[(700, 7), (3, 9)]"]
  by (auto simp: fun_upd_twist insert_commute)

text \<open>C32: Decoding a vector from arbitrary bytes never panics and never reads out of bounds, and the
  remaining slice is a suffix of the input, whenever the element decoder has this property.\<close>

theorem vec_decode_safe:
  assumes "safe_decoder dec"
  shows "safe (vec_raw_decode dec buf) \<and>
    (\<forall>xs r. vec_raw_decode dec buf = Inr (xs, r) \<longrightarrow> suffix_of r buf)"
  using vec_safe_decoder [OF assms] by (simp add: safe_decoder_good good_def)

theorem vec_decode_safe_witness:
  "safe (vec_raw_decode u32_raw_decode [2, 0, 0, 0, 1]) \<and>
   vec_raw_decode u32_raw_decode [2, 0, 0, 0, 1] = out_of_limit"
proof -
  have "vec_decode_loop u32_raw_decode [0, 0, 0, 1] 0 (Suc (Suc 0)) [] = out_of_limit"
    by (simp add: u32_raw_decode_def checked_sub_def)
  then have "vec_raw_decode u32_raw_decode [2, 0, 0, 0, 1] = out_of_limit"
    by (simp add: vec_raw_decode_def usize_raw_decode_def varsize_raw_decode_def u8_raw_decode_def
        Let_def numeral_2_eq_2 [symmetric] del: vec_decode_loop.simps)
  with vec_decode_safe [OF u32.safe_decoder_axioms, of "[2, 0, 0, 0, 1]"] show ?thesis by simp
qed

text \<open>A hash set has no such bound: eight bytes of input that announce 2^62 - 1 elements make
  \<open>HashSet::raw_decode\<close> panic in \<open>with_capacity\<close>, whatever the element type.\<close>

theorem hash_set_decode_panics:
  "hash_set_raw_decode dec ([0xBF, 0xFF, 0xFF, 0xFF, 0xFF, 0xFF, 0xFF, 0xFF] @ rest) = Inl Panic"
proof -
  have "varsize_wire (2 ^ 62 - 1) = [0xBF, 0xFF, 0xFF, 0xFF, 0xFF, 0xFF, 0xFF, 0xFF]"
    by (simp add: varsize_wire_def be_digits_numeral)
  with usize_decode_wire [of "2 ^ 62 - 1" rest] show ?thesis
    by (simp add: hash_set_raw_decode_def hash_with_capacity_def usize_MAX_def)
qed

end
