(* ===== verification/RawStrings.thy ===== *)
theory RawStrings
  imports RawContainers
begin

text \<open>
  The codecs of strings, byte arrays, sized and tailing data and IP addresses, from
  \<^verbatim>\<open>component/cyfs-base/src/codec/raw/raw_types.rs\<close>. These are the codecs that copy memory with
  \<open>std::ptr::copy\<close>: a copy that leaves its slice is the value \<open>UB\<close>. A Rust string is the list of
  its UTF-8 bytes. Running out of memory is not modelled.
\<close>

subsection \<open>Slices and raw copies\<close>

text \<open>\<open>&buf[n..]\<close>, \<open>ptr::copy\<close> out of a slice into a fresh vector of \<open>n\<close> bytes, and \<open>ptr::copy\<close> of a
  byte string to the front of a slice followed by \<open>&mut buf[n..]\<close>.\<close>

definition slice_from :: "nat \<Rightarrow> bytes \<Rightarrow> bytes result" where
  "slice_from n buf = (if n \<le> length buf then Inr (drop n buf) else Inl Panic)"

definition copy_out :: "nat \<Rightarrow> bytes \<Rightarrow> bytes result" where
  "copy_out n buf = (if n \<le> length buf then Inr (take n buf) else Inl UB)"

definition copy_in :: "bytes \<Rightarrow> bytes \<Rightarrow> (bytes \<times> bytes) result" where
  "copy_in src buf = (if length src \<le> length buf then Inr (src, drop (length src) buf) else Inl UB)"

text \<open>\<open>String::from_utf8\<close>: the well-formed byte sequences of the Unicode standard.\<close>

definition utf8_tail :: "u8 \<Rightarrow> bool" where
  "utf8_tail b \<longleftrightarrow> 0x80 \<le> b \<and> b \<le> 0xBF"

fun utf8_valid :: "bytes \<Rightarrow> bool" where
  "utf8_valid [] = True"
| "utf8_valid (b # bs) =
     (if b \<le> 0x7F then utf8_valid bs
      else if 0xC2 \<le> b \<and> b \<le> 0xDF then
        (case bs of c # r \<Rightarrow> utf8_tail c \<and> utf8_valid r | _ \<Rightarrow> False)
      else if 0xE0 \<le> b \<and> b \<le> 0xEF then
        (case bs of
           c # d # r \<Rightarrow>
             utf8_tail c \<and> utf8_tail d \<and> (b = 0xE0 \<longrightarrow> 0xA0 \<le> c) \<and> (b = 0xED \<longrightarrow> c \<le> 0x9F) \<and>
             utf8_valid r
         | _ \<Rightarrow> False)
      else if 0xF0 \<le> b \<and> b \<le> 0xF4 then
        (case bs of
           c # d # e # r \<Rightarrow>
             utf8_tail c \<and> utf8_tail d \<and> utf8_tail e \<and> (b = 0xF0 \<longrightarrow> 0x90 \<le> c) \<and>
             (b = 0xF4 \<longrightarrow> c \<le> 0x8F) \<and> utf8_valid r
         | _ \<Rightarrow> False)
      else False)"

definition string_from_utf8 :: "bytes \<Rightarrow> bytes result" where
  "string_from_utf8 bs =
     (if utf8_valid bs then Inr bs else Inl (Err bucky_error_code.CryptoError))"

subsection \<open>Strings\<close>

definition string_raw_measure :: "bytes measurer" where
  "string_raw_measure s purpose = Inr (2 + length s)"

definition string_raw_encode :: "bytes encoder" where
  "string_raw_encode s purpose buf =
     rbind (string_raw_measure s purpose) (\<lambda>total_bytes.
       if length buf < total_bytes then out_of_limit
       else if length s > 2 ^ 16 - 1 then out_of_limit
       else rbind (u16_raw_encode (word_of_nat (length s)) purpose buf) (\<lambda>(w, buf).
         if length s = 0 then Inr (w, buf)
         else rbind (copy_in s buf) (\<lambda>(w', buf). Inr (w @ w', buf))))"

definition string_raw_decode :: "bytes decoder" where
  "string_raw_decode buf =
     (if length buf < 2 then out_of_limit
      else rbind (u16_raw_decode buf) (\<lambda>(len, buf).
        if len = 0 then Inr ([], buf)
        else rbind (copy_out (unat len) buf) (\<lambda>bytes_buf.
          rbind (string_from_utf8 bytes_buf) (\<lambda>str.
            rbind (slice_from (unat len) buf) (\<lambda>buf. Inr (str, buf))))))"

datatype var_string = VarString (var_str: bytes)

definition var_string_raw_measure :: "var_string measurer" where
  "var_string_raw_measure s purpose =
     rbind (runwrap (usize_raw_measure (USize (length (var_str s))) purpose)) (\<lambda>n.
       Inr (n + length (var_str s)))"

definition var_string_raw_encode :: "var_string encoder" where
  "var_string_raw_encode s purpose buf =
     rbind (var_string_raw_measure s purpose) (\<lambda>total_bytes.
       if length buf < total_bytes then out_of_limit
       else rbind (usize_raw_encode (USize (length (var_str s))) purpose buf) (\<lambda>(w, buf).
         if length (var_str s) = 0 then Inr (w, buf)
         else rbind (copy_in (var_str s) buf) (\<lambda>(w', buf). Inr (w @ w', buf))))"

definition var_string_raw_decode :: "var_string decoder" where
  "var_string_raw_decode buf =
     (if length buf < 1 then out_of_limit
      else rbind (usize_raw_decode buf) (\<lambda>(ulen, buf).
        let len = usize_value ulen in
        if len = 0 then Inr (VarString [], buf)
        else rbind (copy_out len buf) (\<lambda>bytes_buf.
          rbind (string_from_utf8 bytes_buf) (\<lambda>str.
            rbind (slice_from len buf) (\<lambda>buf. Inr (VarString str, buf))))))"

subsection \<open>Byte arrays\<close>

text \<open>\<open>GenericArray<u8, U>\<close>, the only element type the program uses; \<open>U\<close> is the length \<open>n\<close>. \<open>H256\<close> of
  the \<open>primitive_types\<close> crate is an array of 32 bytes.\<close>

definition generic_array_raw_measure :: "nat \<Rightarrow> bytes measurer" where
  "generic_array_raw_measure n a purpose = Inr n"

definition generic_array_raw_encode :: "nat \<Rightarrow> bytes encoder" where
  "generic_array_raw_encode n a purpose buf =
     rbind (generic_array_raw_measure n a purpose) (\<lambda>bytes.
       if length buf < bytes then out_of_limit
       else rbind (copy_out bytes a) (\<lambda>src. copy_in src buf))"

definition generic_array_raw_decode :: "nat \<Rightarrow> bytes decoder" where
  "generic_array_raw_decode n buf =
     (if length buf < n then out_of_limit
      else rbind (copy_out n buf) (\<lambda>obj. rbind (slice_from n buf) (\<lambda>buf. Inr (obj, buf))))"

definition h256_raw_measure :: "bytes measurer" where
  "h256_raw_measure h purpose = Inr 32"

definition h256_raw_encode :: "bytes encoder" where
  "h256_raw_encode h purpose buf =
     rbind (h256_raw_measure h purpose) (\<lambda>bytes.
       if length buf < bytes then out_of_limit
       else rbind (copy_out bytes h) (\<lambda>src. copy_in src buf))"

definition h256_raw_decode :: "bytes decoder" where
  "h256_raw_decode buf =
     (if length buf < 32 then out_of_limit
      else rbind (copy_out 32 buf) (\<lambda>obj. rbind (slice_from 32 buf) (\<lambda>buf. Inr (obj, buf))))"

subsection \<open>Sized data\<close>

text \<open>The three size types, with the truncating conversions \<open>From<usize>\<close> and the codecs of the
  integers they wrap.\<close>

datatype size_u8 = SizeU8 (size_u8_val: u8)
datatype size_u16 = SizeU16 (size_u16_val: u16)
datatype size_u32 = SizeU32 (size_u32_val: u32)

definition size_u8_from :: "nat \<Rightarrow> size_u8" where
  "size_u8_from v = SizeU8 (word_of_nat v)"

definition size_u8_into :: "size_u8 \<Rightarrow> nat" where
  "size_u8_into v = unat (size_u8_val v)"

definition size_u8_raw_measure :: "size_u8 measurer" where
  "size_u8_raw_measure v purpose = u8_raw_measure (size_u8_val v) purpose"

definition size_u8_raw_encode :: "size_u8 encoder" where
  "size_u8_raw_encode v purpose buf = u8_raw_encode (size_u8_val v) purpose buf"

definition size_u8_raw_decode :: "size_u8 decoder" where
  "size_u8_raw_decode buf = rbind (u8_raw_decode buf) (\<lambda>(v, buf). Inr (SizeU8 v, buf))"

definition size_u16_from :: "nat \<Rightarrow> size_u16" where
  "size_u16_from v = SizeU16 (word_of_nat v)"

definition size_u16_into :: "size_u16 \<Rightarrow> nat" where
  "size_u16_into v = unat (size_u16_val v)"

definition size_u16_raw_measure :: "size_u16 measurer" where
  "size_u16_raw_measure v purpose = u16_raw_measure (size_u16_val v) purpose"

definition size_u16_raw_encode :: "size_u16 encoder" where
  "size_u16_raw_encode v purpose buf = u16_raw_encode (size_u16_val v) purpose buf"

definition size_u16_raw_decode :: "size_u16 decoder" where
  "size_u16_raw_decode buf = rbind (u16_raw_decode buf) (\<lambda>(v, buf). Inr (SizeU16 v, buf))"

definition size_u32_from :: "nat \<Rightarrow> size_u32" where
  "size_u32_from v = SizeU32 (word_of_nat v)"

definition size_u32_into :: "size_u32 \<Rightarrow> nat" where
  "size_u32_into v = unat (size_u32_val v)"

definition size_u32_raw_measure :: "size_u32 measurer" where
  "size_u32_raw_measure v purpose = u32_raw_measure (size_u32_val v) purpose"

definition size_u32_raw_encode :: "size_u32 encoder" where
  "size_u32_raw_encode v purpose buf = u32_raw_encode (size_u32_val v) purpose buf"

definition size_u32_raw_decode :: "size_u32 decoder" where
  "size_u32_raw_decode buf = rbind (u32_raw_decode buf) (\<lambda>(v, buf). Inr (SizeU32 v, buf))"

text \<open>\<open>SizedOwnedData<T>\<close> for a size type given by its fixed byte size, its conversions from and to
  \<open>usize\<close> and its codec.\<close>

definition sized_owned_raw_measure :: "nat \<Rightarrow> bytes measurer" where
  "sized_owned_raw_measure raw_bytes d purpose = Inr (raw_bytes + length d)"

definition sized_owned_raw_encode :: "(nat \<Rightarrow> 't) \<Rightarrow> 't encoder \<Rightarrow> bytes encoder" where
  "sized_owned_raw_encode from_usize enc d purpose buf =
     rbind (enc (from_usize (length d)) purpose buf) (\<lambda>(w, buf).
       if length buf < length d then out_of_limit
       else rbind (copy_in d buf) (\<lambda>(w', buf). Inr (w @ w', buf)))"

definition sized_owned_raw_decode :: "('t \<Rightarrow> nat) \<Rightarrow> 't decoder \<Rightarrow> bytes decoder" where
  "sized_owned_raw_decode into_usize dec buf =
     rbind (dec buf) (\<lambda>(len, buf).
       let size = into_usize len in
       if length buf < size then out_of_limit
       else rbind (copy_out size buf) (\<lambda>data.
         rbind (slice_from (length data) buf) (\<lambda>buf. Inr (data, buf))))"

text \<open>\<open>SizedSharedData\<close>, which is only decoded.\<close>

definition sized_shared_raw_decode :: "bytes decoder" where
  "sized_shared_raw_decode buf =
     rbind (u16_raw_decode buf) (\<lambda>(len, buf).
       rbind (slice_from (unat len) buf) (\<lambda>d. Inr (d, buf)))"

subsection \<open>Tailing data\<close>

definition tailed_owned_raw_measure :: "bytes measurer" where
  "tailed_owned_raw_measure d purpose = Inr (4 + length d)"

definition tailed_owned_raw_encode :: "bytes encoder" where
  "tailed_owned_raw_encode d purpose buf =
     (if length buf < length d then out_of_limit else copy_in d buf)"

definition tailed_owned_raw_decode :: "bytes decoder" where
  "tailed_owned_raw_decode buf =
     rbind (copy_out (length buf) buf) (\<lambda>data.
       rbind (slice_from (length data) buf) (\<lambda>buf. Inr (data, buf)))"

definition tailed_shared_raw_measure :: "bytes measurer" where
  "tailed_shared_raw_measure d purpose = Inr (length d)"

definition tailed_shared_raw_encode :: "bytes encoder" where
  "tailed_shared_raw_encode d purpose buf =
     (if length buf < length d then out_of_limit else copy_in d buf)"

definition tailed_shared_raw_decode :: "bytes decoder" where
  "tailed_shared_raw_decode buf = rbind (slice_from (length buf) buf) (\<lambda>rest. Inr (buf, rest))"

subsection \<open>IP addresses\<close>

text \<open>\<open>std::net::IpAddr\<close>: an IPv4 address is the 32-bit and an IPv6 address the 128-bit number whose
  big-endian bytes are its octets.\<close>

datatype ip_addr = IpV4 u32 | IpV6 u128

fun ip_octets :: "ip_addr \<Rightarrow> bytes" where
  "ip_octets (IpV4 a) = to_be_bytes a"
| "ip_octets (IpV6 a) = to_be_bytes a"

text \<open>\<open>Ipv6Addr::new\<close> on a list of segments, and \<open>slice::from_raw_parts(buf.as_ptr() as *const u16, n)\<close>
  on a little-endian machine.\<close>

definition ipv6_new :: "u16 list \<Rightarrow> u128" where
  "ipv6_new ss = from_be_bytes (concat (map to_be_bytes ss))"

fun native_u16s :: "bytes \<Rightarrow> u16 list" where
  "native_u16s (a # b # bs) = from_le_bytes [a, b] # native_u16s bs"
| "native_u16s _ = []"

fun ip_addr_raw_measure :: "ip_addr measurer" where
  "ip_addr_raw_measure (IpV4 _) purpose = Inr (1 + 4)"
| "ip_addr_raw_measure (IpV6 _) purpose = Inr (1 + 16)"

definition ip_addr_raw_encode :: "ip_addr encoder" where
  "ip_addr_raw_encode a purpose buf =
     (case a of
        IpV4 _ \<Rightarrow>
          rbind (u8_raw_encode 0 purpose buf) (\<lambda>(w, buf).
            if length buf < 4 then out_of_limit
            else rbind (copy_out 4 (ip_octets a)) (\<lambda>src.
              rbind (copy_in src buf) (\<lambda>(w', buf). Inr (w @ w', buf))))
      | IpV6 _ \<Rightarrow>
          rbind (u8_raw_encode 1 purpose buf) (\<lambda>(w, buf).
            if length buf < 16 then out_of_limit
            else rbind (copy_out 16 (ip_octets a)) (\<lambda>src.
              rbind (copy_in src buf) (\<lambda>(w', buf). Inr (w @ w', buf)))))"

definition ip_addr_raw_decode :: "ip_addr decoder" where
  "ip_addr_raw_decode buf =
     rbind (u8_raw_decode buf) (\<lambda>(ty, buf).
       if ty = 0 then
         (if length buf < 4 then out_of_limit else Inr (IpV4 (from_be_bytes (take 4 buf)), drop 4 buf))
       else if ty = 1 then
         (if length buf < 16 then out_of_limit
          else Inr (IpV6 (ipv6_new (native_u16s (take 16 buf))), drop 16 buf))
       else not_support)"

subsection \<open>Contracts\<close>

lemma copy_simps [simp]:
  "n \<le> length buf \<Longrightarrow> slice_from n buf = Inr (drop n buf)"
  "n \<le> length buf \<Longrightarrow> copy_out n buf = Inr (take n buf)"
  "length src \<le> length buf \<Longrightarrow> copy_in src buf = Inr (src, drop (length src) buf)"
  "length buf < n \<Longrightarrow> copy_out n buf = Inl UB"
  by (simp_all add: slice_from_def copy_out_def copy_in_def)

lemma string_from_utf8_simps [simp]: "utf8_valid s \<Longrightarrow> string_from_utf8 s = Inr s"
  by (simp add: string_from_utf8_def)

lemma u16_len:
  "n < 2 ^ 16 \<Longrightarrow> unat (word_of_nat n :: u16) = n"
  by (simp add: unsigned_of_nat take_bit_nat_eq_self)

lemma u16_len_zero:
  assumes "n < 2 ^ 16"
  shows "(word_of_nat n :: u16) = 0 \<longleftrightarrow> n = 0"
proof
  assume "(word_of_nat n :: u16) = 0"
  then have "unat (word_of_nat n :: u16) = unat (0 :: u16)" by (rule arg_cong)
  then show "n = 0" unfolding u16_len [OF assms] by (simp only: unsigned_0)
qed simp

definition string_wire :: "bytes \<Rightarrow> bytes" where
  "string_wire s = to_be_bytes (word_of_nat (length s) :: u16) @ s"

interpretation string_codec: raw_codec "\<lambda>s. length s < 2 ^ 16 \<and> utf8_valid s" string_wire
  string_raw_measure string_raw_encode string_raw_decode
proof (rule raw_codecI)
  fix s :: bytes and p and rest :: bytes
  assume s: "length s < 2 ^ 16 \<and> utf8_valid s"
  show "string_raw_measure s p = Inr (length (string_wire s))"
    by (simp add: string_raw_measure_def string_wire_def)
  show "writes (string_raw_encode s p) (string_wire s)"
    using s by (auto simp: writes_def string_raw_encode_def string_raw_measure_def string_wire_def
        u16_raw_encode_def numeral_2_eq_2)
  show "string_raw_decode (string_wire s @ rest) = Inr (s, rest)"
    using s by (simp add: string_raw_decode_def string_wire_def u16_raw_decode_def u16_len
        u16_len_zero)
qed

interpretation var_string_codec: raw_codec
  "\<lambda>s. length (var_str s) < 2 ^ 62 \<and> utf8_valid (var_str s)"
  "\<lambda>s. varsize_wire (length (var_str s)) @ var_str s"
  var_string_raw_measure var_string_raw_encode var_string_raw_decode
proof (rule raw_codecI)
  fix s :: var_string and p and rest :: bytes
  let ?n = "length (var_str s)"
  assume s: "?n < 2 ^ 62 \<and> utf8_valid (var_str s)"
  show m: "var_string_raw_measure s p = Inr (length (varsize_wire ?n @ var_str s))"
    using s by (simp add: var_string_raw_measure_def usize_measure_wire)
  show "writes (var_string_raw_encode s p) (varsize_wire ?n @ var_str s)"
  proof (rule writesI)
    fix buf :: bytes
    assume b: "length (varsize_wire ?n @ var_str s) \<le> length buf"
    have "usize_raw_encode (USize ?n) p buf = Inr (varsize_wire ?n, drop (length (varsize_wire ?n)) buf)"
      by (rule writesD) (use s b in \<open>auto intro!: usize_writes\<close>)
    with b show "var_string_raw_encode s p buf =
        Inr (varsize_wire ?n @ var_str s, drop (length (varsize_wire ?n @ var_str s)) buf)"
      by (auto simp: var_string_raw_encode_def m add.commute)
  next
    fix buf :: bytes
    assume "length buf < length (varsize_wire ?n @ var_str s)"
    then show "var_string_raw_encode s p buf = out_of_limit"
      by (simp add: var_string_raw_encode_def m)
  qed
  have "length (varsize_wire ?n) \<noteq> 0" by (simp add: length_varsize_wire)
  with s show "var_string_raw_decode ((varsize_wire ?n @ var_str s) @ rest) = Inr (s, rest)"
    by (cases s) (auto simp: var_string_raw_decode_def usize_decode_wire Let_def)
qed

lemma generic_array_raw_codec:
  "raw_codec (\<lambda>a. length a = n) (\<lambda>a. a) (generic_array_raw_measure n)
     (generic_array_raw_encode n) (generic_array_raw_decode n)"
  by (rule raw_codecI)
    (auto simp: writes_def generic_array_raw_measure_def generic_array_raw_encode_def
      generic_array_raw_decode_def)

lemma generic_array_safe_decoder: "safe_decoder (generic_array_raw_decode n)"
  by (auto simp: safe_decoder_good generic_array_raw_decode_def)

interpretation array32: raw_codec "\<lambda>a. length a = 32" "\<lambda>a. a" "generic_array_raw_measure 32"
  "generic_array_raw_encode 32" "generic_array_raw_decode 32"
  by (rule generic_array_raw_codec)

interpretation h256: raw_codec "\<lambda>a. length a = 32" "\<lambda>a. a" h256_raw_measure h256_raw_encode
  h256_raw_decode
  by (rule raw_codecI)
    (auto simp: writes_def h256_raw_measure_def h256_raw_encode_def h256_raw_decode_def)

interpretation h256: safe_decoder h256_raw_decode
  by (auto simp: safe_decoder_good h256_raw_decode_def)

subsubsection \<open>Sized data\<close>

text \<open>The contract of a size type: its codec, a fixed size, and which lengths its conversion
  from \<open>usize\<close> keeps. Data of such a length meets the codec contract.\<close>

locale size_type = raw_codec "\<lambda>_. True" wire msr enc dec
  for wire :: "'t \<Rightarrow> bytes" and msr enc dec +
  fixes raw_bytes :: nat
    and from_usize :: "nat \<Rightarrow> 't"
    and into_usize :: "'t \<Rightarrow> nat"
    and size_limit :: nat
  assumes wire_size: "length (wire t) = raw_bytes"
    and into_from: "into_usize (from_usize n) = n mod size_limit"
begin

lemma decode_len: "dec (wire (from_usize n) @ rest) = Inr (from_usize n, rest)"
  by (rule decode_wire) simp

lemma owned_encode:
  "writes (sized_owned_raw_encode from_usize enc d p) (wire (from_usize (length d)) @ d)"
proof (rule writesI)
  fix buf :: bytes
  assume "length (wire (from_usize (length d)) @ d) \<le> length buf"
  then show "sized_owned_raw_encode from_usize enc d p buf =
      Inr (wire (from_usize (length d)) @ d, drop (length (wire (from_usize (length d)) @ d)) buf)"
    by (simp add: sized_owned_raw_encode_def encode_wire wire_size add.commute)
next
  fix buf :: bytes
  assume "length buf < length (wire (from_usize (length d)) @ d)"
  then show "sized_owned_raw_encode from_usize enc d p buf = out_of_limit"
    by (cases "raw_bytes \<le> length buf")
      (auto simp: sized_owned_raw_encode_def encode_wire encode_short wire_size)
qed

lemma owned_decode:
  "sized_owned_raw_decode into_usize dec (wire (from_usize (length d)) @ d @ rest) =
     Inr (take (length d mod size_limit) d, drop (length d mod size_limit) d @ rest)"
proof -
  have "length d mod size_limit \<le> length d" by (rule mod_less_eq_dividend)
  moreover from this have "length d mod size_limit \<le> length d + length rest" by linarith
  ultimately show ?thesis
    by (simp add: sized_owned_raw_decode_def decode_len Let_def into_from not_less)
qed

lemma owned_raw_codec:
  "raw_codec (\<lambda>d. length d < size_limit) (\<lambda>d. wire (from_usize (length d)) @ d)
     (sized_owned_raw_measure raw_bytes) (sized_owned_raw_encode from_usize enc)
     (sized_owned_raw_decode into_usize dec)"
  by (rule raw_codecI) (simp_all add: sized_owned_raw_measure_def wire_size owned_encode owned_decode)

end

lemma sized_owned_safe_decoder:
  assumes "safe_decoder dec"
  shows "safe_decoder (sized_owned_raw_decode into_usize dec)"
  using assms unfolding safe_decoder_good sized_owned_raw_decode_def
  by (auto simp: Let_def intro!: good_bind)

interpretation size_u8: size_type "\<lambda>t. [size_u8_val t]" size_u8_raw_measure size_u8_raw_encode
  size_u8_raw_decode 1 size_u8_from size_u8_into "2 ^ 8"
  by unfold_locales
    (auto simp: size_u8_raw_measure_def size_u8_raw_encode_def size_u8_raw_decode_def
      u8_raw_measure_def u8_raw_encode_def u8_raw_decode_def size_u8_from_def size_u8_into_def
      unsigned_of_nat take_bit_eq_mod)

interpretation size_u16: size_type "\<lambda>t. to_be_bytes (size_u16_val t)" size_u16_raw_measure
  size_u16_raw_encode size_u16_raw_decode 2 size_u16_from size_u16_into "2 ^ 16"
  by unfold_locales
    (auto simp: size_u16_raw_measure_def size_u16_raw_encode_def size_u16_raw_decode_def
      u16_raw_measure_def u16_raw_encode_def u16_raw_decode_def size_u16_from_def size_u16_into_def
      unsigned_of_nat take_bit_eq_mod)

interpretation size_u32: size_type "\<lambda>t. to_be_bytes (size_u32_val t)" size_u32_raw_measure
  size_u32_raw_encode size_u32_raw_decode 4 size_u32_from size_u32_into "2 ^ 32"
  by unfold_locales
    (auto simp: size_u32_raw_measure_def size_u32_raw_encode_def size_u32_raw_decode_def
      u32_raw_measure_def u32_raw_encode_def u32_raw_decode_def size_u32_from_def size_u32_into_def
      unsigned_of_nat take_bit_eq_mod)

interpretation sized_owned_u8: raw_codec "\<lambda>d. length d < 2 ^ 8"
  "\<lambda>d. [size_u8_val (size_u8_from (length d))] @ d" "sized_owned_raw_measure 1"
  "sized_owned_raw_encode size_u8_from size_u8_raw_encode"
  "sized_owned_raw_decode size_u8_into size_u8_raw_decode"
  by (rule size_u8.owned_raw_codec)

subsubsection \<open>IP addresses\<close>

text \<open>Every two bytes exchanged.\<close>

fun swap_pairs :: "bytes \<Rightarrow> bytes" where
  "swap_pairs (a # b # bs) = b # a # swap_pairs bs"
| "swap_pairs bs = bs"

lemma native_u16s_swap: "even (length bs) \<Longrightarrow> concat (map to_be_bytes (native_u16s bs)) = swap_pairs bs"
proof (induction bs rule: native_u16s.induct)
  case (1 a b bs)
  have "to_be_bytes (from_be_bytes [b, a] :: u16) = [b, a]"
    by (rule to_from_be_bytes) simp
  with 1 show ?case by (simp add: from_le_bytes_def)
qed simp_all

subsection \<open>Properties\<close>

text \<open>C34: Encoding a string either round-trips or is refused: a string of at most 65535 bytes is
  encoded to its two length bytes followed by its bytes and decodes back whatever follows, and a
  longer one is reported as \<open>OutOfLimit\<close> rather than truncated.\<close>

theorem string_roundtrip_or_limit:
  assumes "utf8_valid s"
  shows "if length s < 2 ^ 16
    then \<exists>w. to_vec string_raw_measure string_raw_encode s = Inr w \<and> length w = 2 + length s \<and>
      (\<forall>rest. string_raw_decode (w @ rest) = Inr (s, rest))
    else to_vec string_raw_measure string_raw_encode s = out_of_limit"
proof (cases "length s < 2 ^ 16")
  case True
  with assms string_codec.decode_wire [of s] string_codec.encode_to_buffer_wire [of s] show ?thesis
    by (auto simp: to_vec_def string_wire_def)
next
  case False
  then show ?thesis
    by (simp add: to_vec_def raw_encode_to_buffer_def string_raw_measure_def string_raw_encode_def)
qed

theorem string_roundtrip_or_limit_witness:
  "to_vec string_raw_measure string_raw_encode (replicate 65536 0x41) = out_of_limit \<and>
   (\<exists>w. to_vec string_raw_measure string_raw_encode [0x63, 0xC3, 0xA9] = Inr w \<and>
      string_raw_decode (w @ [7]) = Inr ([0x63, 0xC3, 0xA9], [7]))"
proof
  have "utf8_valid (replicate n 0x41)" for n by (induction n) simp_all
  from string_roundtrip_or_limit [OF this, of 65536]
  show "to_vec string_raw_measure string_raw_encode (replicate 65536 0x41) = out_of_limit"
    by (simp only: length_replicate) simp
  have "utf8_valid [0x63, 0xC3, 0xA9]" by (simp add: utf8_tail_def)
  from string_roundtrip_or_limit [OF this]
  show "\<exists>w. to_vec string_raw_measure string_raw_encode [0x63, 0xC3, 0xA9] = Inr w \<and>
      string_raw_decode (w @ [7]) = Inr ([0x63, 0xC3, 0xA9], [7])" by auto
qed

text \<open>C35: \<open>String::raw_decode\<close> does not compare the announced length with the bytes that are left:
  whenever it is larger, the copy reads past the end of the buffer.\<close>

theorem string_decode_overread:
  assumes "length rest < unat (len :: u16)"
  shows "string_raw_decode (to_be_bytes len @ rest) = Inl UB"
proof -
  from assms have "len \<noteq> 0" by auto
  with assms show ?thesis by (simp add: string_raw_decode_def u16_raw_decode_def)
qed

theorem string_decode_overread_witness: "string_raw_decode [0, 5, 0x68, 0x69] = Inl UB"
proof -
  have "to_be_bytes (5 :: u16) = [0, 5]" by (simp add: to_be_bytes_def be_digits_numeral)
  with string_decode_overread [of "[0x68, 0x69]" 5] show ?thesis by simp
qed

text \<open>\<open>SizedOwnedData<SizeU16>\<close> round-trips for every payload; the length written is the payload
  length modulo 2^16, so a longer payload is written out in full and read back as its first
  \<open>len mod 65536\<close> bytes, with the others left in front of what follows.\<close>

theorem sized_owned_u16_roundtrip:
  "\<exists>w. to_vec (sized_owned_raw_measure 2) (sized_owned_raw_encode size_u16_from size_u16_raw_encode) d =
       Inr w \<and>
    (\<forall>rest. sized_owned_raw_decode size_u16_into size_u16_raw_decode (w @ rest) =
       Inr (take (length d mod 2 ^ 16) d, drop (length d mod 2 ^ 16) d @ rest))"
proof (intro exI conjI allI)
  let ?w = "to_be_bytes (size_u16_val (size_u16_from (length d))) @ d"
  have "sized_owned_raw_encode size_u16_from size_u16_raw_encode d None
      (replicate (2 + length d) 0) = Inr (?w, drop (length ?w) (replicate (2 + length d) 0))"
    by (rule writesD [OF size_u16.owned_encode]) simp
  then show "to_vec (sized_owned_raw_measure 2)
      (sized_owned_raw_encode size_u16_from size_u16_raw_encode) d = Inr ?w"
    by (simp add: to_vec_def raw_encode_to_buffer_def sized_owned_raw_measure_def)
  show "sized_owned_raw_decode size_u16_into size_u16_raw_decode (?w @ rest) =
      Inr (take (length d mod 2 ^ 16) d, drop (length d mod 2 ^ 16) d @ rest)" for rest
    using size_u16.owned_decode [of d rest] by simp
qed

text \<open>\<open>TailedOwnedData\<close> measures four bytes more than it writes, so \<open>to_vec\<close> fails its assertion
  for every payload, while \<open>TailedSharedData\<close> round-trips when it is last.\<close>

theorem tailed_data_to_vec:
  "to_vec tailed_owned_raw_measure tailed_owned_raw_encode d = Inl Panic \<and>
   to_vec tailed_shared_raw_measure tailed_shared_raw_encode d = Inr d \<and>
   tailed_shared_raw_decode d = Inr (d, []) \<and> tailed_owned_raw_decode d = Inr (d, [])"
  by (simp add: to_vec_def raw_encode_to_buffer_def tailed_owned_raw_measure_def
      tailed_owned_raw_encode_def tailed_shared_raw_measure_def tailed_shared_raw_encode_def
      tailed_shared_raw_decode_def tailed_owned_raw_decode_def)

text \<open>An IP address is encoded in network order; IPv4 round-trips, and the decoder of an IPv6
  address returns every 16-bit segment with its two bytes exchanged.\<close>

theorem ip_addr_decode_encode:
  "\<exists>w. to_vec ip_addr_raw_measure ip_addr_raw_encode a = Inr w \<and>
    ip_addr_raw_decode (w @ rest) =
      Inr (case a of IpV4 v \<Rightarrow> IpV4 v
           | IpV6 v \<Rightarrow> IpV6 (from_be_bytes (swap_pairs (to_be_bytes v))), rest)"
proof (cases a)
  case (IpV4 v)
  then show ?thesis
    by (simp add: to_vec_def raw_encode_to_buffer_def ip_addr_raw_encode_def u8_raw_encode_def
        ip_addr_raw_decode_def u8_raw_decode_def)
next
  case (IpV6 v)
  have "even (length (to_be_bytes v))" by simp
  with IpV6 show ?thesis
    by (simp add: to_vec_def raw_encode_to_buffer_def ip_addr_raw_encode_def u8_raw_encode_def
        ip_addr_raw_decode_def u8_raw_decode_def ipv6_new_def native_u16s_swap)
qed

end
