(* ===== verification/Endpoint.thy ===== *)
theory Endpoint
  imports RawStrings
begin

text \<open>
  Network endpoints, from \<^verbatim>\<open>component/cyfs-base/src/base/endpoint.rs\<close>: the accessors, equality and
  ordering, the text form, and the binary codecs of \<open>Endpoint\<close> and \<open>SignedEndpoint\<close>. A Rust string
  is the list of its UTF-8 bytes. The text form of \<open>std::net::SocketAddr\<close> is a pair of parameters,
  a printer and a parser.
\<close>

subsection \<open>Data\<close>

datatype protocol = Unk | Tcp | Udp

datatype endpoint_area = Lan | Default | Wan | Mapped

text \<open>\<open>SocketAddr::V4(ip, port)\<close> and \<open>SocketAddr::V6(ip, port, flowinfo, scope_id)\<close>.\<close>

datatype socket_addr = SockV4 u32 u16 | SockV6 u128 u16 u32 u32

record endpoint =
  area :: endpoint_area
  protocol :: protocol
  addr :: socket_addr

fun sock_port :: "socket_addr \<Rightarrow> u16" where
  "sock_port (SockV4 _ p) = p"
| "sock_port (SockV6 _ p _ _) = p"

fun sock_set_port :: "u16 \<Rightarrow> socket_addr \<Rightarrow> socket_addr" where
  "sock_set_port q (SockV4 ip p) = SockV4 ip q"
| "sock_set_port q (SockV6 ip p fl sc) = SockV6 ip q fl sc"

fun sock_ip :: "socket_addr \<Rightarrow> ip_addr" where
  "sock_ip (SockV4 ip _) = IpV4 ip"
| "sock_ip (SockV6 ip _ _ _) = IpV6 ip"

fun is_ipv4 :: "socket_addr \<Rightarrow> bool" where
  "is_ipv4 (SockV4 _ _) = True"
| "is_ipv4 (SockV6 _ _ _ _) = False"

fun sock_new :: "ip_addr \<Rightarrow> u16 \<Rightarrow> socket_addr" where
  "sock_new (IpV4 a) p = SockV4 a p"
| "sock_new (IpV6 a) p = SockV6 a p 0 0"

subsection \<open>Accessors\<close>

definition set_protocol :: "protocol \<Rightarrow> endpoint \<Rightarrow> endpoint" where
  "set_protocol p ep = ep\<lparr>protocol := p\<rparr>"

definition set_area :: "endpoint_area \<Rightarrow> endpoint \<Rightarrow> endpoint" where
  "set_area a ep = ep\<lparr>area := a\<rparr>"

definition is_same_ip_version :: "endpoint \<Rightarrow> endpoint \<Rightarrow> bool" where
  "is_same_ip_version self other \<longleftrightarrow> is_ipv4 (addr self) = is_ipv4 (addr other)"

definition is_same_ip_addr :: "endpoint \<Rightarrow> endpoint \<Rightarrow> bool" where
  "is_same_ip_addr self other \<longleftrightarrow> sock_set_port 0 (addr self) = sock_set_port 0 (addr other)"

definition unspecified_like :: "endpoint \<Rightarrow> socket_addr" where
  "unspecified_like ep = (if is_ipv4 (addr ep) then SockV4 0 0 else SockV6 0 0 0 0)"

definition default_tcp :: "endpoint \<Rightarrow> endpoint" where
  "default_tcp ep = \<lparr>area = Lan, protocol = Tcp, addr = unspecified_like ep\<rparr>"

definition default_udp :: "endpoint \<Rightarrow> endpoint" where
  "default_udp ep = \<lparr>area = Lan, protocol = Udp, addr = unspecified_like ep\<rparr>"

definition default_of :: "endpoint \<Rightarrow> endpoint" where
  "default_of ep =
     (case protocol ep of
        Tcp \<Rightarrow> default_tcp ep
      | Udp \<Rightarrow> default_udp ep
      | _ \<Rightarrow> \<lparr>area = Lan, protocol = Unk, addr = unspecified_like ep\<rparr>)"

definition is_udp :: "endpoint \<Rightarrow> bool" where
  "is_udp ep \<longleftrightarrow> protocol ep = Udp"

definition is_tcp :: "endpoint \<Rightarrow> bool" where
  "is_tcp ep \<longleftrightarrow> protocol ep = Tcp"

definition is_sys_default :: "endpoint \<Rightarrow> bool" where
  "is_sys_default ep \<longleftrightarrow> area ep = Default"

definition is_static_wan :: "endpoint \<Rightarrow> bool" where
  "is_static_wan ep \<longleftrightarrow> area ep = Wan \<or> area ep = Mapped"

definition is_mapped_wan :: "endpoint \<Rightarrow> bool" where
  "is_mapped_wan ep \<longleftrightarrow> area ep = Mapped"

definition endpoint_default :: endpoint where
  "endpoint_default = \<lparr>area = Lan, protocol = Unk, addr = SockV4 0 0\<rparr>"

definition endpoint_from_sock :: "protocol \<times> socket_addr \<Rightarrow> endpoint" where
  "endpoint_from_sock ps = \<lparr>area = Lan, protocol = fst ps, addr = snd ps\<rparr>"

definition endpoint_from_ip :: "protocol \<times> ip_addr \<times> u16 \<Rightarrow> endpoint" where
  "endpoint_from_ip piu =
     (case piu of (p, ip, port) \<Rightarrow> \<lparr>area = Lan, protocol = p, addr = sock_new ip port\<rparr>)"

subsection \<open>Equality and ordering\<close>

definition endpoint_eq :: "endpoint \<Rightarrow> endpoint \<Rightarrow> bool" where
  "endpoint_eq self other \<longleftrightarrow> protocol self = protocol other \<and> addr self = addr other"

datatype ordering = Less | Equal | Greater

definition ord_cmp :: "'a::linorder \<Rightarrow> 'a \<Rightarrow> ordering" where
  "ord_cmp a b = (if a < b then Less else if a = b then Equal else Greater)"

text \<open>The derived order of \<open>Protocol\<close>, by discriminant, and the order of \<open>std::net::IpAddr\<close>: IPv4
  before IPv6, then by octets.\<close>

fun protocol_discr :: "protocol \<Rightarrow> nat" where
  "protocol_discr Unk = 0"
| "protocol_discr Tcp = 1"
| "protocol_discr Udp = 2"

instantiation protocol :: linorder
begin

definition less_eq_protocol :: "protocol \<Rightarrow> protocol \<Rightarrow> bool" where
  "less_eq_protocol a b \<longleftrightarrow> protocol_discr a \<le> protocol_discr b"

definition less_protocol :: "protocol \<Rightarrow> protocol \<Rightarrow> bool" where
  "less_protocol a b \<longleftrightarrow> protocol_discr a < protocol_discr b"

instance
proof
  fix a b :: protocol
  assume "a \<le> b" "b \<le> a"
  then show "a = b" by (cases a; cases b) (simp_all add: less_eq_protocol_def)
qed (auto simp: less_eq_protocol_def less_protocol_def)

end

fun ip_key :: "ip_addr \<Rightarrow> nat \<times> nat" where
  "ip_key (IpV4 a) = (0, unat a)"
| "ip_key (IpV6 a) = (1, unat a)"

definition ip_less :: "ip_addr \<Rightarrow> ip_addr \<Rightarrow> bool" where
  "ip_less a b \<longleftrightarrow>
     fst (ip_key a) < fst (ip_key b) \<or>
     fst (ip_key a) = fst (ip_key b) \<and> snd (ip_key a) < snd (ip_key b)"

instantiation ip_addr :: linorder
begin

definition less_eq_ip_addr :: "ip_addr \<Rightarrow> ip_addr \<Rightarrow> bool" where
  "less_eq_ip_addr a b \<longleftrightarrow> a = b \<or> ip_less a b"

definition less_ip_addr :: "ip_addr \<Rightarrow> ip_addr \<Rightarrow> bool" where
  "less_ip_addr a b \<longleftrightarrow> ip_less a b"

instance
proof
  have key: "ip_key a = ip_key b \<Longrightarrow> a = b" for a b
    by (cases a; cases b) (simp_all add: word_unat_eq_iff)
  show "a \<le> b \<or> b \<le> a" for a b :: ip_addr
    using key [of a b] by (auto simp: less_eq_ip_addr_def ip_less_def prod_eq_iff not_less le_less)
qed (auto simp: less_eq_ip_addr_def less_ip_addr_def ip_less_def)

end

definition endpoint_partial_cmp :: "endpoint \<Rightarrow> endpoint \<Rightarrow> ordering option" where
  "endpoint_partial_cmp self other =
     (case ord_cmp (protocol self) (protocol other) of
        Equal \<Rightarrow>
          (case Some (ord_cmp (sock_ip (addr self)) (sock_ip (addr other))) of
             None \<Rightarrow> Some (ord_cmp (sock_port (addr self)) (sock_port (addr other)))
           | Some Greater \<Rightarrow> Some Greater
           | Some Less \<Rightarrow> Some Less
           | Some Equal \<Rightarrow> Some (ord_cmp (sock_port (addr self)) (sock_port (addr other))))
      | Greater \<Rightarrow> Some Greater
      | Less \<Rightarrow> Some Less)"

definition endpoint_cmp :: "endpoint \<Rightarrow> endpoint \<Rightarrow> ordering result" where
  "endpoint_cmp self other =
     (case endpoint_partial_cmp self other of Some c \<Rightarrow> Inr c | None \<Rightarrow> Inl Panic)"

subsection \<open>Text form\<close>

definition area_str :: "endpoint_area \<Rightarrow> bytes" where
  "area_str a = (case a of Lan \<Rightarrow> str ''L'' | Default \<Rightarrow> str ''D'' | Wan \<Rightarrow> str ''W'' | Mapped \<Rightarrow> str ''M'')"

definition protocol_str :: "protocol \<Rightarrow> bytes" where
  "protocol_str p = (case p of Unk \<Rightarrow> str ''unk'' | Tcp \<Rightarrow> str ''tcp'' | Udp \<Rightarrow> str ''udp'')"

definition endpoint_to_string :: "(socket_addr \<Rightarrow> bytes) \<Rightarrow> endpoint \<Rightarrow> bytes" where
  "endpoint_to_string sock_to_string ep =
     area_str (area ep) @ (if is_ipv4 (addr ep) then str ''4'' else str ''6'') @
     protocol_str (protocol ep) @ sock_to_string (addr ep)"

text \<open>\<open>&s[a..b]\<close> on a string: both ends must lie in the string and on a character boundary.\<close>

definition is_char_boundary :: "bytes \<Rightarrow> nat \<Rightarrow> bool" where
  "is_char_boundary s i \<longleftrightarrow> i = 0 \<or> i = length s \<or> (i < length s \<and> \<not> utf8_tail (s ! i))"

definition str_slice :: "nat \<Rightarrow> nat \<Rightarrow> bytes \<Rightarrow> bytes result" where
  "str_slice a b s =
     (if a \<le> b \<and> is_char_boundary s a \<and> is_char_boundary s b then Inr (take (b - a) (drop a s))
      else Inl Panic)"

abbreviation invalid_input :: "'a result" where
  "invalid_input \<equiv> Inl (Err bucky_error_code.InvalidInput)"

definition endpoint_from_str :: "(bytes \<Rightarrow> socket_addr option) \<Rightarrow> bytes \<Rightarrow> endpoint result" where
  "endpoint_from_str sock_from_str s =
     rbind (str_slice 0 1 s) (\<lambda>a.
       rbind (if a = str ''W'' then Inr Wan
              else if a = str ''M'' then Inr Mapped
              else if a = str ''L'' then Inr Lan
              else if a = str ''D'' then Inr Default
              else invalid_input) (\<lambda>area.
       rbind (str_slice 1 2 s) (\<lambda>version_str.
       rbind (str_slice 2 5 s) (\<lambda>p.
       rbind (if p = str ''tcp'' then Inr Tcp
              else if p = str ''udp'' then Inr Udp
              else invalid_input) (\<lambda>protocol.
       rbind (str_slice 5 (length s) s) (\<lambda>t.
         case sock_from_str t of
           None \<Rightarrow> invalid_input
         | Some sa \<Rightarrow>
             if \<not> (is_ipv4 sa \<and> version_str = str ''4'' \<or> \<not> is_ipv4 sa \<and> version_str = str ''6'')
             then invalid_input
             else Inr \<lparr>area = area, protocol = protocol, addr = sa\<rparr>))))))"

fun join_tail :: "(socket_addr \<Rightarrow> bytes) \<Rightarrow> endpoint list \<Rightarrow> bytes" where
  "join_tail sock_to_string [] = []"
| "join_tail sock_to_string (ep # eps) =
     str '','' @ endpoint_to_string sock_to_string ep @ join_tail sock_to_string eps"

definition endpoints_to_string :: "(socket_addr \<Rightarrow> bytes) \<Rightarrow> endpoint list \<Rightarrow> bytes" where
  "endpoints_to_string sock_to_string eps =
     str ''['' @ (case eps of [] \<Rightarrow> [] | ep # _ \<Rightarrow> endpoint_to_string sock_to_string ep) @
     (if length eps > 1 then join_tail sock_to_string (tl eps) else []) @ str '']''"

subsection \<open>Binary form\<close>

definition ENDPOINT_FLAG_DEFAULT :: u8 where "ENDPOINT_FLAG_DEFAULT = push_bit 0 1"
definition ENDPOINT_PROTOCOL_UNK :: u8 where "ENDPOINT_PROTOCOL_UNK = 0"
definition ENDPOINT_PROTOCOL_TCP :: u8 where "ENDPOINT_PROTOCOL_TCP = push_bit 1 1"
definition ENDPOINT_PROTOCOL_UDP :: u8 where "ENDPOINT_PROTOCOL_UDP = push_bit 2 1"
definition ENDPOINT_IP_VERSION_4 :: u8 where "ENDPOINT_IP_VERSION_4 = push_bit 3 1"
definition ENDPOINT_IP_VERSION_6 :: u8 where "ENDPOINT_IP_VERSION_6 = push_bit 4 1"
definition ENDPOINT_FLAG_STATIC_WAN :: u8 where "ENDPOINT_FLAG_STATIC_WAN = push_bit 6 1"
definition ENDPOINT_FLAG_SIGNED :: u8 where "ENDPOINT_FLAG_SIGNED = push_bit 7 1"

lemmas endpoint_flag_defs =
  ENDPOINT_FLAG_DEFAULT_def ENDPOINT_PROTOCOL_UNK_def ENDPOINT_PROTOCOL_TCP_def
  ENDPOINT_PROTOCOL_UDP_def ENDPOINT_IP_VERSION_4_def ENDPOINT_IP_VERSION_6_def
  ENDPOINT_FLAG_STATIC_WAN_def ENDPOINT_FLAG_SIGNED_def

definition flags :: "endpoint \<Rightarrow> u8" where
  "flags ep =
     (case protocol ep of
        Tcp \<Rightarrow> ENDPOINT_PROTOCOL_TCP
      | Unk \<Rightarrow> ENDPOINT_PROTOCOL_UNK
      | Udp \<Rightarrow> ENDPOINT_PROTOCOL_UDP) OR
     (if is_static_wan ep then ENDPOINT_FLAG_STATIC_WAN else 0) OR
     (if is_sys_default ep then ENDPOINT_FLAG_DEFAULT else 0) OR
     (case addr ep of
        SockV4 _ _ \<Rightarrow> ENDPOINT_IP_VERSION_4
      | SockV6 _ _ _ _ \<Rightarrow> ENDPOINT_IP_VERSION_6)"

definition raw_encode_no_flags :: "endpoint \<Rightarrow> bytes \<Rightarrow> (bytes \<times> bytes) result" where
  "raw_encode_no_flags ep buf =
     (if length buf < 2 then Inl Panic
      else
        let w = to_le_bytes (sock_port (addr ep)); buf = drop 2 buf in
        (case addr ep of
           SockV4 ip _ \<Rightarrow>
             if length buf < 4 then out_of_limit else Inr (w @ to_be_bytes ip, drop 4 buf)
         | SockV6 ip _ _ _ \<Rightarrow>
             if length buf < 16 then out_of_limit else Inr (w @ to_be_bytes ip, drop 16 buf)))"

definition raw_decode_no_flags :: "u8 \<Rightarrow> endpoint decoder" where
  "raw_decode_no_flags fl buf =
     (let protocol =
            (if fl AND ENDPOINT_PROTOCOL_TCP = 0
             then (if fl AND ENDPOINT_PROTOCOL_UDP = 0 then Unk else Udp) else Tcp);
          area =
            (if fl AND ENDPOINT_FLAG_STATIC_WAN \<noteq> 0 then Wan
             else if fl AND ENDPOINT_FLAG_DEFAULT \<noteq> 0 then Default else Lan)
      in if length buf < 2 then Inl Panic
         else
           let port = from_le_bytes (take 2 buf); buf = drop 2 buf in
           rbind (if fl AND ENDPOINT_IP_VERSION_6 \<noteq> 0 then
                    (if length buf < 16 then out_of_limit
                     else Inr (SockV6 (from_be_bytes (take 16 buf)) port 0 0, drop 16 buf))
                  else if length buf < 4 then Inl Panic
                  else Inr (SockV4 (from_be_bytes (take 4 buf)) port, drop 4 buf))
             (\<lambda>(addr, buf). Inr (\<lparr>area = area, protocol = protocol, addr = addr\<rparr>, buf)))"

definition endpoint_raw_min_bytes :: nat where
  "endpoint_raw_min_bytes = 1 + 2 + 4"

definition endpoint_raw_max_bytes :: nat where
  "endpoint_raw_max_bytes = 1 + 2 + 16"

definition endpoint_raw_measure :: "endpoint measurer" where
  "endpoint_raw_measure ep purpose =
     (case addr ep of SockV4 _ _ \<Rightarrow> Inr (1 + 2 + 4) | SockV6 _ _ _ _ \<Rightarrow> Inr (1 + 2 + 16))"

definition endpoint_raw_encode :: "endpoint encoder" where
  "endpoint_raw_encode ep purpose buf =
     (if length buf < endpoint_raw_min_bytes then out_of_limit
      else rbind (raw_encode_no_flags ep (drop 1 buf)) (\<lambda>(w, buf). Inr (flags ep # w, buf)))"

definition endpoint_raw_decode :: "endpoint decoder" where
  "endpoint_raw_decode buf =
     (if length buf < endpoint_raw_min_bytes then out_of_limit
      else raw_decode_no_flags (hd buf) (drop 1 buf))"

datatype signed_endpoint = SignedEndpoint (as_endpoint: endpoint)

definition signed_endpoint_raw_measure :: "signed_endpoint measurer" where
  "signed_endpoint_raw_measure s purpose = endpoint_raw_measure (as_endpoint s) purpose"

definition signed_endpoint_raw_encode :: "signed_endpoint encoder" where
  "signed_endpoint_raw_encode s purpose buf =
     rbind (signed_endpoint_raw_measure s purpose) (\<lambda>bytes.
       if length buf < bytes then out_of_limit
       else rbind (raw_encode_no_flags (as_endpoint s) (drop 1 buf)) (\<lambda>(w, buf).
         Inr ((flags (as_endpoint s) OR ENDPOINT_FLAG_SIGNED) # w, buf)))"

definition signed_endpoint_raw_decode :: "signed_endpoint decoder" where
  "signed_endpoint_raw_decode buf =
     (if length buf < endpoint_raw_min_bytes then out_of_limit
      else if hd buf AND ENDPOINT_FLAG_SIGNED = 0 then Inl (Err bucky_error_code.InvalidParam)
      else rbind (raw_decode_no_flags (hd buf) (drop 1 buf)) (\<lambda>(ep, buf).
        Inr (SignedEndpoint ep, buf)))"

subsection \<open>Lemmas\<close>

text \<open>What the binary form keeps of an endpoint.\<close>

fun wire_area :: "endpoint_area \<Rightarrow> endpoint_area" where
  "wire_area Mapped = Wan"
| "wire_area a = a"

fun wire_sock :: "socket_addr \<Rightarrow> socket_addr" where
  "wire_sock (SockV4 ip p) = SockV4 ip p"
| "wire_sock (SockV6 ip p _ _) = SockV6 ip p 0 0"

definition wire_form :: "endpoint \<Rightarrow> endpoint" where
  "wire_form ep = \<lparr>area = wire_area (area ep), protocol = protocol ep, addr = wire_sock (addr ep)\<rparr>"

definition endpoint_tail :: "endpoint \<Rightarrow> bytes" where
  "endpoint_tail ep = to_le_bytes (sock_port (addr ep)) @ ip_octets (sock_ip (addr ep))"

lemma raw_encode_no_flags_tail:
  assumes "length (endpoint_tail ep) \<le> length buf"
  shows "raw_encode_no_flags ep buf = Inr (endpoint_tail ep, drop (length (endpoint_tail ep)) buf)"
  using assms by (cases "addr ep") (auto simp: raw_encode_no_flags_def endpoint_tail_def Let_def)

lemma raw_encode_no_flags_short:
  assumes "6 \<le> length buf" and "length buf < length (endpoint_tail ep)"
  shows "raw_encode_no_flags ep buf = out_of_limit"
  using assms by (cases "addr ep") (auto simp: raw_encode_no_flags_def endpoint_tail_def Let_def)

lemma raw_decode_no_flags_tail:
  assumes "fl = flags ep \<or> fl = flags ep OR ENDPOINT_FLAG_SIGNED"
  shows "raw_decode_no_flags fl (endpoint_tail ep @ rest) = Inr (wire_form ep, rest)"
  using assms
  by (cases "addr ep"; cases "area ep"; cases "protocol ep")
    (auto simp: raw_decode_no_flags_def endpoint_tail_def flags_def wire_form_def is_static_wan_def
      is_sys_default_def endpoint_flag_defs Let_def)

lemma flags_signed:
  "flags ep AND ENDPOINT_FLAG_SIGNED = 0"
  "(flags ep OR ENDPOINT_FLAG_SIGNED) AND ENDPOINT_FLAG_SIGNED \<noteq> 0"
  by (cases "addr ep"; cases "area ep"; cases "protocol ep";
      simp add: flags_def is_static_wan_def is_sys_default_def endpoint_flag_defs)+

lemma signed_flag_nonzero [simp]: "ENDPOINT_FLAG_SIGNED \<noteq> 0"
  by (simp add: ENDPOINT_FLAG_SIGNED_def)

lemma length_endpoint_tail: "length (endpoint_tail ep) = (if is_ipv4 (addr ep) then 6 else 18)"
  by (cases "addr ep") (simp_all add: endpoint_tail_def)

interpretation ep_codec: raw_codec "\<lambda>ep. wire_form ep = ep" "\<lambda>ep. flags ep # endpoint_tail ep"
  endpoint_raw_measure endpoint_raw_encode endpoint_raw_decode
proof (rule raw_codecI)
  fix ep :: endpoint and p and rest :: bytes
  assume wf: "wire_form ep = ep"
  show "endpoint_raw_measure ep p = Inr (length (flags ep # endpoint_tail ep))"
    by (cases "addr ep") (simp_all add: endpoint_raw_measure_def length_endpoint_tail)
  show "writes (endpoint_raw_encode ep p) (flags ep # endpoint_tail ep)"
    by (rule writesI)
      (auto simp: endpoint_raw_encode_def endpoint_raw_min_bytes_def raw_encode_no_flags_tail
        raw_encode_no_flags_short length_endpoint_tail split: if_splits)
  have "\<not> length ((flags ep # endpoint_tail ep) @ rest) < endpoint_raw_min_bytes"
    by (simp add: endpoint_raw_min_bytes_def length_endpoint_tail)
  then show "endpoint_raw_decode ((flags ep # endpoint_tail ep) @ rest) = Inr (ep, rest)"
    by (simp add: endpoint_raw_decode_def raw_decode_no_flags_tail wf)
qed

interpretation signed_ep_codec: raw_codec "\<lambda>s. wire_form (as_endpoint s) = as_endpoint s"
  "\<lambda>s. (flags (as_endpoint s) OR ENDPOINT_FLAG_SIGNED) # endpoint_tail (as_endpoint s)"
  signed_endpoint_raw_measure signed_endpoint_raw_encode signed_endpoint_raw_decode
proof (rule raw_codecI)
  fix s :: signed_endpoint and p and rest :: bytes
  let ?ep = "as_endpoint s" and ?w = "(flags (as_endpoint s) OR ENDPOINT_FLAG_SIGNED) # endpoint_tail (as_endpoint s)"
  assume wf: "wire_form ?ep = ?ep"
  show m: "signed_endpoint_raw_measure s p = Inr (length ?w)"
    by (cases "addr ?ep")
      (simp_all add: signed_endpoint_raw_measure_def endpoint_raw_measure_def length_endpoint_tail)
  show "writes (signed_endpoint_raw_encode s p) ?w"
    by (rule writesI) (auto simp: signed_endpoint_raw_encode_def m raw_encode_no_flags_tail)
  have "\<not> length (?w @ rest) < endpoint_raw_min_bytes"
    by (simp add: endpoint_raw_min_bytes_def length_endpoint_tail)
  then show "signed_endpoint_raw_decode (?w @ rest) = Inr (s, rest)"
    by (simp add: signed_endpoint_raw_decode_def flags_signed raw_decode_no_flags_tail wf)
qed

lemma good_raw_decode_no_flags:
  assumes "6 \<le> length buf"
  shows "good buf (raw_decode_no_flags fl buf)"
  using assms by (auto simp: raw_decode_no_flags_def Let_def)

lemma good_decode_after_flags:
  assumes "7 \<le> length buf"
  shows "good buf (raw_decode_no_flags fl (drop (Suc 0) buf))"
  by (rule good_weaken [OF good_raw_decode_no_flags]) (use assms in auto)

interpretation ep_codec: safe_decoder endpoint_raw_decode
  by (auto simp: safe_decoder_good endpoint_raw_decode_def endpoint_raw_min_bytes_def
      intro!: good_decode_after_flags)

interpretation signed_ep_codec: safe_decoder signed_endpoint_raw_decode
  by (auto simp: safe_decoder_good signed_endpoint_raw_decode_def endpoint_raw_min_bytes_def
      intro!: good_decode_after_flags good_bind)

lemma endpoint_encode_any:
  "to_vec endpoint_raw_measure endpoint_raw_encode ep = Inr (flags ep # endpoint_tail ep)"
  "to_vec signed_endpoint_raw_measure signed_endpoint_raw_encode (SignedEndpoint ep) =
     Inr ((flags ep OR ENDPOINT_FLAG_SIGNED) # endpoint_tail ep)"
  by (cases "addr ep";
      simp add: to_vec_def raw_encode_to_buffer_def endpoint_raw_measure_def endpoint_raw_encode_def
        signed_endpoint_raw_measure_def signed_endpoint_raw_encode_def raw_encode_no_flags_tail
        length_endpoint_tail endpoint_raw_min_bytes_def)+

lemma endpoint_decode_any:
  "endpoint_raw_decode (flags ep # endpoint_tail ep @ rest) = Inr (wire_form ep, rest)"
  "endpoint_raw_decode ((flags ep OR ENDPOINT_FLAG_SIGNED) # endpoint_tail ep @ rest) =
     Inr (wire_form ep, rest)"
  "signed_endpoint_raw_decode ((flags ep OR ENDPOINT_FLAG_SIGNED) # endpoint_tail ep @ rest) =
     Inr (SignedEndpoint (wire_form ep), rest)"
  "signed_endpoint_raw_decode (flags ep # endpoint_tail ep @ rest) =
     Inl (Err bucky_error_code.InvalidParam)"
  by (simp_all add: endpoint_raw_decode_def signed_endpoint_raw_decode_def flags_signed
      raw_decode_no_flags_tail endpoint_raw_min_bytes_def length_endpoint_tail)

text \<open>The ordering compares the triple of protocol, IP address and port.\<close>

definition ep_less :: "endpoint \<Rightarrow> endpoint \<Rightarrow> bool" where
  "ep_less a b \<longleftrightarrow>
     protocol a < protocol b \<or>
     protocol a = protocol b \<and>
       (sock_ip (addr a) < sock_ip (addr b) \<or>
        sock_ip (addr a) = sock_ip (addr b) \<and> sock_port (addr a) < sock_port (addr b))"

lemma endpoint_cmp_iff:
  "endpoint_cmp a b = Inr Less \<longleftrightarrow> ep_less a b"
  "endpoint_cmp a b = Inr Greater \<longleftrightarrow> ep_less b a"
  "endpoint_cmp a b = Inr Equal \<longleftrightarrow>
     protocol a = protocol b \<and> sock_ip (addr a) = sock_ip (addr b) \<and>
     sock_port (addr a) = sock_port (addr b)"
  by (auto simp: endpoint_cmp_def endpoint_partial_cmp_def ord_cmp_def ep_less_def)

lemma endpoint_cmp_total: "\<exists>c. endpoint_cmp a b = Inr c"
  by (auto simp: endpoint_cmp_def endpoint_partial_cmp_def ord_cmp_def split: ordering.splits)

lemma ep_less_trans: "ep_less a b \<Longrightarrow> ep_less b c \<Longrightarrow> ep_less a c"
  unfolding ep_less_def by (auto intro: less_trans)

subsection \<open>Properties\<close>

text \<open>C30: Every endpoint can be encoded, to at most \<open>raw_max_bytes\<close> bytes, and decodes to the same
  protocol, IP address and port whatever follows; the area \<open>Mapped\<close> is read back as \<open>Wan\<close>, and the
  flow information and scope of an IPv6 address are dropped.\<close>

theorem endpoint_decode_encode:
  "\<exists>w. to_vec endpoint_raw_measure endpoint_raw_encode ep = Inr w \<and>
    length w \<le> endpoint_raw_max_bytes \<and> endpoint_raw_measure ep None = Inr (length w) \<and>
    (\<forall>rest. endpoint_raw_decode (w @ rest) = Inr (wire_form ep, rest))"
  by (cases "addr ep")
    (auto simp: endpoint_encode_any endpoint_decode_any length_endpoint_tail endpoint_raw_max_bytes_def
      endpoint_raw_measure_def)

text \<open>The signed form is told apart by its flag: the decoder of \<open>SignedEndpoint\<close> rejects the bytes
  of an unsigned endpoint with \<open>InvalidParam\<close>, and both decoders read the bytes of a signed one.\<close>

theorem signed_endpoint_flag:
  "\<exists>w ws. to_vec endpoint_raw_measure endpoint_raw_encode ep = Inr w \<and>
    to_vec signed_endpoint_raw_measure signed_endpoint_raw_encode (SignedEndpoint ep) = Inr ws \<and>
    signed_endpoint_raw_decode (w @ rest) = Inl (Err bucky_error_code.InvalidParam) \<and>
    signed_endpoint_raw_decode (ws @ rest) = Inr (SignedEndpoint (wire_form ep), rest) \<and>
    endpoint_raw_decode (ws @ rest) = Inr (wire_form ep, rest)"
  by (simp add: endpoint_encode_any endpoint_decode_any)

text \<open>Decoding an endpoint, signed or not, from arbitrary bytes never panics, although the inner
  routine indexes its slice without a check.\<close>

theorem endpoint_decode_safe:
  "safe (endpoint_raw_decode buf) \<and> safe (signed_endpoint_raw_decode buf)"
  using ep_codec.good_dec [of buf] signed_ep_codec.good_dec [of buf] by (simp add: good_def)

text \<open>The comparison of endpoints never panics, is antisymmetric and transitive, and calls two
  endpoints equal exactly when protocol, IP address and port agree.\<close>

theorem endpoint_cmp_total_order:
  "(\<exists>c. endpoint_cmp a b = Inr c) \<and>
   (endpoint_cmp a b = Inr Less) = (endpoint_cmp b a = Inr Greater) \<and>
   (endpoint_cmp a b = Inr Less \<longrightarrow> endpoint_cmp b c = Inr Less \<longrightarrow> endpoint_cmp a c = Inr Less) \<and>
   (endpoint_cmp a b = Inr Equal) =
     (protocol a = protocol b \<and> sock_ip (addr a) = sock_ip (addr b) \<and>
      sock_port (addr a) = sock_port (addr b))"
  using ep_less_trans by (auto simp: endpoint_cmp_iff endpoint_cmp_total)

theorem endpoint_cmp_total_order_witness:
  "endpoint_cmp (endpoint_from_sock (Tcp, SockV4 1 5)) (endpoint_from_sock (Udp, SockV6 7 7 0 0)) =
     Inr Less"
  using endpoint_cmp_total_order [of "endpoint_from_sock (Tcp, SockV4 1 5)"
      "endpoint_from_sock (Tcp, SockV4 1 80)" "endpoint_from_sock (Udp, SockV6 7 7 0 0)"]
  by (simp add: endpoint_cmp_iff ep_less_def endpoint_from_sock_def less_protocol_def)

text \<open>Comparison and equality disagree, against the contract of \<open>Ord\<close>: two IPv6 endpoints that
  differ only in scope compare as \<open>Equal\<close> and are not equal.\<close>

theorem endpoint_ord_eq_disagree:
  "\<exists>a b. endpoint_cmp a b = Inr Equal \<and> \<not> endpoint_eq a b \<and> is_udp a \<and> is_udp b"
  by (rule exI [of _ "endpoint_from_sock (Udp, SockV6 1 80 0 1)"],
      rule exI [of _ "endpoint_from_sock (Udp, SockV6 1 80 0 2)"])
    (simp add: endpoint_cmp_iff endpoint_eq_def endpoint_from_sock_def is_udp_def)

text \<open>The text form round-trips for TCP and UDP endpoints, with the area kept, given that the text
  form of the socket address does and is ASCII; the form of an endpoint with no protocol is
  rejected by the parser.\<close>

theorem endpoint_string_roundtrip:
  assumes "sock_from_str (sock_to_string (addr ep)) = Some (addr ep)"
    and "list_all (\<lambda>b. b < 0x80) (sock_to_string (addr ep))"
  shows "endpoint_from_str sock_from_str (endpoint_to_string sock_to_string ep) =
    (if protocol ep = Unk then invalid_input else Inr ep)"
proof -
  obtain ar pr ad where ep: "ep = \<lparr>area = ar, protocol = pr, addr = ad\<rparr>" by (cases ep)
  have "\<not> utf8_tail b" if "b < 0x80" for b
    using that by (simp add: utf8_tail_def not_le)
  with assms(2) ep have b5: "is_char_boundary (c1 # c2 # c3 # c4 # c5 # sock_to_string ad) 5" for c1 c2 c3 c4 c5
    by (cases "sock_to_string ad") (simp_all add: is_char_boundary_def)
  show ?thesis
    using assms(1) b5 unfolding ep
    by (cases ar; cases pr; cases ad)
      (simp_all add: endpoint_to_string_def endpoint_from_str_def area_str_def protocol_str_def
        str_def str_slice_def is_char_boundary_def utf8_tail_def)
qed

theorem endpoint_string_roundtrip_witness:
  "endpoint_from_str (\<lambda>s. if s = str ''127.0.0.1:80'' then Some (SockV4 0x7F000001 80) else None)
     (endpoint_to_string (\<lambda>a. if a = SockV4 0x7F000001 80 then str ''127.0.0.1:80'' else [])
        \<lparr>area = Mapped, protocol = Udp, addr = SockV4 0x7F000001 80\<rparr>) =
   Inr \<lparr>area = Mapped, protocol = Udp, addr = SockV4 0x7F000001 80\<rparr>"
  using endpoint_string_roundtrip [of
      "\<lambda>s. if s = str ''127.0.0.1:80'' then Some (SockV4 0x7F000001 80) else None"
      "\<lambda>a. if a = SockV4 0x7F000001 80 then str ''127.0.0.1:80'' else []"
      "\<lparr>area = Mapped, protocol = Udp, addr = SockV4 0x7F000001 80\<rparr>"]
  by (simp add: str_def)

end
