(* ===== verification/AccessString.thy ===== *)
theory AccessString
  imports RawStrings
begin

text \<open>
  Access strings, from \<^verbatim>\<open>component/cyfs-base/src/base/access_string.rs\<close>: the permissions of six groups
  packed into a \<open>u32\<close>, three bits each, and their text form \<open>rwxrwxrwx---rwxrwx\<close>. The bit access of
  the \<open>intbits\<close> crate and \<open>chunks\<close> of the \<open>itertools\<close> crate are parameters, with their documented
  behaviour as the locale \<open>access_deps\<close>. A string is the list of its characters, a character its
  scalar value; a serde sequence is the list of the elements it yields.
\<close>

subsection \<open>Permissions\<close>

datatype request_op_type = OpRead | OpWrite | OpCall

datatype access_permission = Call | Write | Read

datatype access_permissions =
  PNone | CallOnly | WriteOnly | WriteAndCall | ReadOnly | ReadAndCall | ReadAndWrite | Full

fun op_into_permissions :: "request_op_type \<Rightarrow> access_permissions" where
  "op_into_permissions OpRead = ReadOnly"
| "op_into_permissions OpWrite = WriteOnly"
| "op_into_permissions OpCall = CallOnly"

fun op_into_permission :: "request_op_type \<Rightarrow> access_permission" where
  "op_into_permission OpRead = Read"
| "op_into_permission OpWrite = Write"
| "op_into_permission OpCall = Call"

fun permission_as_u8 :: "access_permission \<Rightarrow> u8" where
  "permission_as_u8 Call = 0b001"
| "permission_as_u8 Write = 0b010"
| "permission_as_u8 Read = 0b100"

fun permission_bit :: "access_permission \<Rightarrow> nat" where
  "permission_bit Call = 0"
| "permission_bit Write = 1"
| "permission_bit Read = 2"

definition permission_test :: "access_permission \<Rightarrow> u8 \<Rightarrow> bool" where
  "permission_test p access \<longleftrightarrow> (let b = permission_as_u8 p in access AND b = b)"

fun permissions_as_u8 :: "access_permissions \<Rightarrow> u8" where
  "permissions_as_u8 PNone = 0"
| "permissions_as_u8 CallOnly = 0b001"
| "permissions_as_u8 WriteOnly = 0b010"
| "permissions_as_u8 WriteAndCall = 0b011"
| "permissions_as_u8 ReadOnly = 0b100"
| "permissions_as_u8 ReadAndCall = 0b101"
| "permissions_as_u8 ReadAndWrite = 0b110"
| "permissions_as_u8 Full = 0b111"

type_synonym chars = "u32 list"

definition chr :: "char \<Rightarrow> u32" where
  "chr c = of_char c"

definition chars :: "string \<Rightarrow> chars" where
  "chars s = map chr s"

fun permissions_as_str :: "access_permissions \<Rightarrow> chars" where
  "permissions_as_str PNone = chars ''---''"
| "permissions_as_str CallOnly = chars ''--x''"
| "permissions_as_str WriteOnly = chars ''-w-''"
| "permissions_as_str WriteAndCall = chars ''-wx''"
| "permissions_as_str ReadOnly = chars ''r--''"
| "permissions_as_str ReadAndCall = chars ''r-x''"
| "permissions_as_str ReadAndWrite = chars ''rw-''"
| "permissions_as_str Full = chars ''rwx''"

text \<open>\<open>transmute\<close> of a byte to the variant with that discriminant; a byte that is none is undefined
  behaviour.\<close>

definition all_permissions :: "access_permissions list" where
  "all_permissions =
     [PNone, CallOnly, WriteOnly, WriteAndCall, ReadOnly, ReadAndCall, ReadAndWrite, Full]"

definition transmute_permissions :: "u8 \<Rightarrow> access_permissions result" where
  "transmute_permissions v =
     (case List.find (\<lambda>p. permissions_as_u8 p = v) all_permissions of
        Some p \<Rightarrow> Inr p
      | None \<Rightarrow> Inl UB)"

definition permissions_try_from :: "u8 \<Rightarrow> access_permissions result" where
  "permissions_try_from v =
     (if v > permissions_as_u8 Full then Inl (Err bucky_error_code.InvalidParam)
      else transmute_permissions v)"

text \<open>\<open>format!("{:o}", v)\<close>: octal digits without leading zeros.\<close>

fun octal_digits :: "nat \<Rightarrow> chars" where
  "octal_digits n =
     (if n < 8 then [chr CHR ''0'' + of_nat n]
      else octal_digits (n div 8) @ [chr CHR ''0'' + of_nat (n mod 8)])"

declare octal_digits.simps [simp del]

definition format_u8 :: "u8 \<Rightarrow> chars" where
  "format_u8 v =
     (case permissions_try_from v of
        Inr p \<Rightarrow> permissions_as_str p
      | Inl _ \<Rightarrow> octal_digits (unat v))"

definition test_op :: "access_permissions \<Rightarrow> request_op_type \<Rightarrow> bool" where
  "test_op p op \<longleftrightarrow> permission_test (op_into_permission op) (permissions_as_u8 p)"

definition permissions_from_str :: "chars \<Rightarrow> access_permissions result" where
  "permissions_from_str s =
     (if s = chars ''---'' then Inr PNone
      else if s = chars ''--x'' then Inr CallOnly
      else if s = chars ''-w-'' then Inr WriteOnly
      else if s = chars ''-wx'' then Inr WriteAndCall
      else if s = chars ''r--'' then Inr ReadOnly
      else if s = chars ''r-x'' then Inr ReadAndCall
      else if s = chars ''rw-'' then Inr ReadAndWrite
      else if s = chars ''rwx'' then Inr Full
      else Inl (Err bucky_error_code.InvalidFormat))"

subsection \<open>Groups\<close>

datatype access_group =
  CurrentDevice | CurrentZone | FriendZone | OthersZone | OwnerDec | OthersDec

fun group_as_u32 :: "access_group \<Rightarrow> nat" where
  "group_as_u32 CurrentDevice = 0"
| "group_as_u32 CurrentZone = 3"
| "group_as_u32 FriendZone = 6"
| "group_as_u32 OthersZone = 9"
| "group_as_u32 OwnerDec = 12"
| "group_as_u32 OthersDec = 15"

definition ACCESS_GROUP_LIST :: "access_group list" where
  "ACCESS_GROUP_LIST = [CurrentDevice, CurrentZone, FriendZone, OthersZone, OwnerDec, OthersDec]"

definition group_range :: "access_group \<Rightarrow> nat \<times> nat" where
  "group_range g = (let index = group_as_u32 g in (index, index + 3))"

definition group_bit :: "access_group \<Rightarrow> access_permission \<Rightarrow> nat" where
  "group_bit g permission = (let index = group_as_u32 g in index + permission_bit permission)"

definition group_try_from :: "chars \<Rightarrow> access_group result" where
  "group_try_from s =
     (if s = chars ''CurrentDevice'' then Inr CurrentDevice
      else if s = chars ''CurrentZone'' then Inr CurrentZone
      else if s = chars ''FriendZone'' then Inr FriendZone
      else if s = chars ''OthersZone'' then Inr OthersZone
      else if s = chars ''OwnerDec'' then Inr OwnerDec
      else if s = chars ''OthersDec'' then Inr OthersDec
      else Inl (Err bucky_error_code.InvalidParam))"

subsection \<open>The crates it uses\<close>

text \<open>The four methods of \<open>intbits::Bits\<close> on \<open>u32\<close>: \<open>bit(i)\<close>, \<open>set_bit(i, b)\<close>, \<open>bits(a..b)\<close> and
  \<open>set_bits(a..b, v)\<close>, the setters returning the updated number, and \<open>Itertools::chunks\<close>.\<close>

record access_crates =
  ib_bit :: "u32 \<Rightarrow> nat \<Rightarrow> bool"
  ib_set_bit :: "u32 \<Rightarrow> nat \<Rightarrow> bool \<Rightarrow> u32"
  ib_bits :: "u32 \<Rightarrow> nat \<times> nat \<Rightarrow> u32"
  ib_set_bits :: "u32 \<Rightarrow> nat \<times> nat \<Rightarrow> u32 \<Rightarrow> u32"
  it_chunks :: "nat \<Rightarrow> chars \<Rightarrow> chars list"

locale access_deps =
  fixes crates :: access_crates
  assumes bit_doc: "i < 32 \<Longrightarrow> ib_bit crates w i = bit w i"
    and set_bit_doc: "i < 32 \<Longrightarrow> bit (ib_set_bit crates w i on) j = (if j = i then on else bit w j)"
    and bits_doc: "a \<le> b \<Longrightarrow> b \<le> 32 \<Longrightarrow>
      bit (ib_bits crates w (a, b)) j \<longleftrightarrow> j < b - a \<and> bit w (a + j)"
    and set_bits_doc: "a \<le> b \<Longrightarrow> b \<le> 32 \<Longrightarrow> unat v < 2 ^ (b - a) \<Longrightarrow>
      bit (ib_set_bits crates w (a, b) v) j = (if a \<le> j \<and> j < b then bit v (j - a) else bit w j)"
    and chunks_doc: "0 < n \<Longrightarrow>
      it_chunks crates n cs = (if cs = [] then [] else take n cs # it_chunks crates n (drop n cs))"

subsection \<open>Access strings\<close>

datatype access_string = AccessString (access_value: u32)

record access_pair =
  pair_group :: access_group
  pair_permissions :: access_permissions

definition access_new :: "u32 \<Rightarrow> access_string" where
  "access_new bits = AccessString bits"

definition is_accessable ::
    "access_crates \<Rightarrow> access_string \<Rightarrow> access_group \<Rightarrow> access_permission \<Rightarrow> bool" where
  "is_accessable crates s grp permission = ib_bit crates (access_value s) (group_bit grp permission)"

definition set_group_permission ::
    "access_crates \<Rightarrow> access_string \<Rightarrow> access_group \<Rightarrow> access_permission \<Rightarrow> access_string" where
  "set_group_permission crates s grp permission =
     AccessString (ib_set_bit crates (access_value s) (group_bit grp permission) True)"

definition clear_group_permission ::
    "access_crates \<Rightarrow> access_string \<Rightarrow> access_group \<Rightarrow> access_permission \<Rightarrow> access_string" where
  "clear_group_permission crates s grp permission =
     AccessString (ib_set_bit crates (access_value s) (group_bit grp permission) False)"

definition get_group_permissions ::
    "access_crates \<Rightarrow> access_string \<Rightarrow> access_group \<Rightarrow> access_permissions result" where
  "get_group_permissions crates s grp =
     runwrap (permissions_try_from (ucast (ib_bits crates (access_value s) (group_range grp))))"

definition set_group_permissions ::
    "access_crates \<Rightarrow> access_string \<Rightarrow> access_group \<Rightarrow> access_permissions \<Rightarrow> access_string" where
  "set_group_permissions crates s grp permissions =
     AccessString (ib_set_bits crates (access_value s) (group_range grp)
       (ucast (permissions_as_u8 permissions)))"

definition clear_group_permissions :: "access_crates \<Rightarrow> access_string \<Rightarrow> access_group \<Rightarrow> access_string" where
  "clear_group_permissions crates s grp =
     AccessString (ib_set_bits crates (access_value s) (group_range grp) 0)"

definition access_make :: "access_crates \<Rightarrow> access_pair list \<Rightarrow> access_string" where
  "access_make crates list =
     fold (\<lambda>p ret. set_group_permissions crates ret (pair_group p) (pair_permissions p)) list
       (AccessString 0)"

definition full_except_write :: "access_crates \<Rightarrow> access_string" where
  "full_except_write crates = access_make crates
     [\<lparr>pair_group = CurrentDevice, pair_permissions = Full\<rparr>,
      \<lparr>pair_group = CurrentZone, pair_permissions = Full\<rparr>,
      \<lparr>pair_group = FriendZone, pair_permissions = Full\<rparr>,
      \<lparr>pair_group = OthersZone, pair_permissions = ReadAndCall\<rparr>,
      \<lparr>pair_group = OwnerDec, pair_permissions = Full\<rparr>,
      \<lparr>pair_group = OthersDec, pair_permissions = ReadAndCall\<rparr>]"

definition access_full :: "access_crates \<Rightarrow> access_string" where
  "access_full crates = access_make crates
     [\<lparr>pair_group = CurrentDevice, pair_permissions = Full\<rparr>,
      \<lparr>pair_group = CurrentZone, pair_permissions = Full\<rparr>,
      \<lparr>pair_group = FriendZone, pair_permissions = Full\<rparr>,
      \<lparr>pair_group = OthersZone, pair_permissions = Full\<rparr>,
      \<lparr>pair_group = OwnerDec, pair_permissions = Full\<rparr>,
      \<lparr>pair_group = OthersDec, pair_permissions = Full\<rparr>]"

definition dec_default :: "access_crates \<Rightarrow> access_string" where
  "dec_default crates = access_make crates
     [\<lparr>pair_group = CurrentDevice, pair_permissions = Full\<rparr>,
      \<lparr>pair_group = CurrentZone, pair_permissions = Full\<rparr>,
      \<lparr>pair_group = FriendZone, pair_permissions = Full\<rparr>,
      \<lparr>pair_group = OwnerDec, pair_permissions = Full\<rparr>,
      \<lparr>pair_group = OthersDec, pair_permissions = Full\<rparr>]"

definition access_default :: "access_crates \<Rightarrow> access_string" where
  "access_default crates = dec_default crates"

fun groups_to_string :: "access_crates \<Rightarrow> access_string \<Rightarrow> access_group list \<Rightarrow> chars result" where
  "groups_to_string crates s [] = Inr []"
| "groups_to_string crates s (v # vs) =
     rbind (get_group_permissions crates s v) (\<lambda>p.
       rbind (groups_to_string crates s vs) (\<lambda>r. Inr (permissions_as_str p @ r)))"

definition access_to_string :: "access_crates \<Rightarrow> access_string \<Rightarrow> chars result" where
  "access_to_string crates s = groups_to_string crates s ACCESS_GROUP_LIST"

fun from_str_loop ::
    "access_crates \<Rightarrow> (chars \<times> access_group) list \<Rightarrow> access_string \<Rightarrow> access_string result" where
  "from_str_loop crates [] access = Inr access"
| "from_str_loop crates ((chunk, grp) # r) access =
     rbind (permissions_from_str chunk) (\<lambda>p.
       from_str_loop crates r (set_group_permissions crates access grp p))"

definition access_from_str :: "access_crates \<Rightarrow> chars \<Rightarrow> access_string result" where
  "access_from_str crates s =
     from_str_loop crates
       (zip (it_chunks crates 3 (filter (\<lambda>c. c \<noteq> chr CHR ''_'' \<and> c \<noteq> chr CHR '' '') s)) ACCESS_GROUP_LIST)
       (access_new 0)"

text \<open>The serde visitor of a sequence of \<open>{grp, access}\<close> elements; \<open>Error::custom\<close> keeps the code
  here.\<close>

fun visit_seq_loop :: "access_crates \<Rightarrow> (chars \<times> chars) list \<Rightarrow> access_string \<Rightarrow> access_string result" where
  "visit_seq_loop crates [] ret = Inr ret"
| "visit_seq_loop crates ((grp, access) # r) ret =
     rbind (group_try_from grp) (\<lambda>g.
       rbind (permissions_from_str access) (\<lambda>p.
         visit_seq_loop crates r (set_group_permissions crates ret g p)))"

definition visit_seq :: "access_crates \<Rightarrow> (chars \<times> chars) list \<Rightarrow> access_string result" where
  "visit_seq crates seq = visit_seq_loop crates seq (access_default crates)"

subsection \<open>Lemmas\<close>

lemma group_bit_bound: "group_bit g q < 18"
  by (cases g; cases q) (simp_all add: group_bit_def)

lemma group_bit_inj: "group_bit g q = group_bit g' q' \<longleftrightarrow> g = g' \<and> q = q'"
  by (cases g; cases q; cases g'; cases q') (simp_all add: group_bit_def)

text \<open>The permission bits of a byte below eight.\<close>

fun has_permission :: "access_permissions \<Rightarrow> access_permission \<Rightarrow> bool" where
  "has_permission p Call \<longleftrightarrow> p \<in> {CallOnly, WriteAndCall, ReadAndCall, Full}"
| "has_permission p Write \<longleftrightarrow> p \<in> {WriteOnly, WriteAndCall, ReadAndWrite, Full}"
| "has_permission p Read \<longleftrightarrow> p \<in> {ReadOnly, ReadAndCall, ReadAndWrite, Full}"

lemma permission_test_iff: "permission_test q (permissions_as_u8 p) = has_permission p q"
  by (cases p; cases q) (simp_all add: permission_test_def)

lemma permissions_bit: "bit (permissions_as_u8 p) (permission_bit q) = has_permission p q"
  by (cases p; cases q) (simp_all add: bit_simps)

lemma permissions_ext: "(\<And>q. has_permission p q = has_permission p' q) \<Longrightarrow> p = p'"
  using has_permission.simps by (cases p; cases p') (metis (no_types, lifting) insert_iff access_permissions.distinct empty_iff)+

lemma permissions_try_from_u8: "permissions_try_from (permissions_as_u8 p) = Inr p"
  by (cases p) (simp_all add: permissions_try_from_def transmute_permissions_def all_permissions_def)

lemma permissions_high_bits:
  assumes "3 \<le> j"
  shows "\<not> bit (permissions_as_u8 p) j"
proof -
  have "take_bit 3 (permissions_as_u8 p) = permissions_as_u8 p" by (cases p) simp_all
  with assms show ?thesis by (metis bit_take_bit_iff not_less)
qed

lemma ex_permissions: "\<exists>p. \<forall>q. has_permission p q = P q"
proof (intro exI allI)
  let ?p = "if P Read then (if P Write then (if P Call then Full else ReadAndWrite)
      else (if P Call then ReadAndCall else ReadOnly))
    else (if P Write then (if P Call then WriteAndCall else WriteOnly)
      else (if P Call then CallOnly else PNone))"
  show "has_permission ?p q = P q" for q by (cases q) simp_all
qed

lemma less_3_permission: "j < 3 \<Longrightarrow> \<exists>q. j = permission_bit q"
  by (cases "j = 0"; cases "j = 1") (auto intro: exI [of _ Call] exI [of _ Write] exI [of _ Read])

lemma group_list_nth:
  assumes "i < 6"
  shows "group_as_u32 (ACCESS_GROUP_LIST ! i) = 3 * i"
proof -
  consider "i = 0" | "i = 1" | "i = 2" | "i = 3" | "i = 4" | "i = 5" using assms by linarith
  then show ?thesis by cases (simp_all add: ACCESS_GROUP_LIST_def)
qed

lemma less_18_group_bit:
  assumes "j < 18"
  shows "\<exists>g q. j = group_bit g q"
proof -
  from assms have g: "group_as_u32 (ACCESS_GROUP_LIST ! (j div 3)) = 3 * (j div 3)"
    by (intro group_list_nth) simp
  obtain q where q: "j mod 3 = permission_bit q" using less_3_permission [of "j mod 3"] by auto
  have "group_bit (ACCESS_GROUP_LIST ! (j div 3)) q = 3 * (j div 3) + j mod 3"
    by (simp only: group_bit_def Let_def g q)
  also have "\<dots> = j" by (rule mult_div_mod_eq)
  finally show ?thesis by metis
qed

lemma group_range_bit:
  "group_as_u32 g \<le> group_bit g' q \<and> group_bit g' q < group_as_u32 g + 3 \<longleftrightarrow> g = g'"
  by (cases g; cases g'; cases q) (simp_all add: group_bit_def)

lemma permissions_u32_bits:
  "unat (ucast (permissions_as_u8 p) :: u32) < 8"
  "bit (ucast (permissions_as_u8 p) :: u32) (permission_bit q) = has_permission p q"
proof -
  show "unat (ucast (permissions_as_u8 p) :: u32) < 8" by (cases p) simp_all
  have "bit (ucast (permissions_as_u8 p) :: u32) (permission_bit q) = bit (permissions_as_u8 p) (permission_bit q)"
    by (cases q) (simp_all add: bit_ucast_iff)
  then show "bit (ucast (permissions_as_u8 p) :: u32) (permission_bit q) = has_permission p q"
    by (simp add: permissions_bit)
qed

lemma group_as_u32_bound: "group_as_u32 g \<le> 15"
  by (cases g) simp_all

context access_deps
begin

lemma accessable_bit: "is_accessable crates s g q = bit (access_value s) (group_bit g q)"
  using group_bit_bound [of g q] by (simp add: is_accessable_def bit_doc)

lemma set_permissions_bit:
  "bit (access_value (set_group_permissions crates s g p)) j =
     (if group_as_u32 g \<le> j \<and> j < group_as_u32 g + 3
      then bit (ucast (permissions_as_u8 p) :: u32) (j - group_as_u32 g) else bit (access_value s) j)"
  using group_as_u32_bound [of g] permissions_u32_bits(1) [of p]
  by (simp add: set_group_permissions_def group_range_def Let_def set_bits_doc)

lemma set_permissions_accessable:
  "is_accessable crates (set_group_permissions crates s g p) g' q =
     (if g = g' then has_permission p q else is_accessable crates s g' q)"
  using group_range_bit [of g g' q]
  by (auto simp: accessable_bit set_permissions_bit group_bit_def permissions_u32_bits)

lemma clear_permissions_accessable:
  "is_accessable crates (clear_group_permissions crates s g) g' q =
     (g \<noteq> g' \<and> is_accessable crates s g' q)"
  using group_range_bit [of g g' q] group_as_u32_bound [of g]
  by (auto simp: accessable_bit clear_group_permissions_def group_range_def Let_def set_bits_doc)

lemma set_permission_accessable:
  "is_accessable crates (set_group_permission crates s g p) g' q =
     (g = g' \<and> p = q \<or> is_accessable crates s g' q)"
  "is_accessable crates (clear_group_permission crates s g p) g' q =
     (\<not> (g = g' \<and> p = q) \<and> is_accessable crates s g' q)"
  using group_bit_bound [of g p]
  by (auto simp: accessable_bit set_group_permission_def clear_group_permission_def set_bit_doc
      group_bit_inj)

lemma get_permissions:
  "\<exists>p. get_group_permissions crates s g = Inr p \<and>
     (\<forall>q. has_permission p q = is_accessable crates s g q)"
proof -
  let ?v = "ucast (ib_bits crates (access_value s) (group_range g)) :: u8"
  obtain p where p: "\<forall>q. has_permission p q = is_accessable crates s g q"
    using ex_permissions by metis
  have "?v = permissions_as_u8 p"
  proof (rule bit_eqI)
    fix j
    have v: "bit ?v j \<longleftrightarrow> j < 3 \<and> bit (access_value s) (group_as_u32 g + j)"
      using group_as_u32_bound [of g]
      by (auto simp: bit_ucast_iff group_range_def Let_def bits_doc)
    show "bit ?v j = bit (permissions_as_u8 p) j"
    proof (cases "j < 3")
      case True
      then obtain q where "j = permission_bit q" using less_3_permission by blast
      with v True p show ?thesis by (simp add: permissions_bit accessable_bit group_bit_def)
    qed (use v permissions_high_bits in auto)
  qed
  with p show ?thesis by (auto simp: get_group_permissions_def permissions_try_from_u8)
qed

lemma groups_string:
  assumes "\<And>g. g \<in> set gs \<Longrightarrow> get_group_permissions crates s g = Inr (f g)"
  shows "groups_to_string crates s gs = Inr (concat (map (\<lambda>g. permissions_as_str (f g)) gs))"
  using assms by (induction gs) simp_all

lemma chunks_strings:
  "it_chunks crates 3 (concat (map permissions_as_str ps)) = map permissions_as_str ps"
proof (induction ps)
  case Nil
  show ?case by (subst chunks_doc) simp_all
next
  case (Cons p ps)
  have "length (permissions_as_str p) = 3" by (cases p) (simp_all add: chars_def)
  with Cons show ?case by (subst chunks_doc) auto
qed

lemma from_str_loop_strings:
  "from_str_loop crates (zip (map permissions_as_str ps) gs) s =
     Inr (fold (\<lambda>(p, g) s. set_group_permissions crates s g p) (zip ps gs) s)"
proof (induction ps arbitrary: gs s)
  case (Cons p ps)
  have "permissions_from_str (permissions_as_str p) = Inr p"
    by (cases p) (simp_all add: permissions_from_str_def chars_def chr_def)
  with Cons show ?case by (cases gs) simp_all
qed simp

lemma set_permissions_high:
  assumes "18 \<le> j"
  shows "bit (access_value (set_group_permissions crates s g p)) j = bit (access_value s) j"
  using assms group_as_u32_bound [of g] by (simp add: set_permissions_bit)

lemma fold_set_high:
  assumes "18 \<le> j"
  shows "bit (access_value (fold (\<lambda>(p, g) s. set_group_permissions crates s g p) pgs s)) j =
    bit (access_value s) j"
  by (induction pgs arbitrary: s)
    (simp_all add: set_permissions_high [OF assms] split_beta)

lemma fold_set_accessable:
  assumes "distinct (map snd pgs)"
  shows "is_accessable crates (fold (\<lambda>(p, g) s. set_group_permissions crates s g p) pgs s) g q =
    (case map_of (map (\<lambda>(p, g). (g, p)) pgs) g of
       Some p \<Rightarrow> has_permission p q | None \<Rightarrow> is_accessable crates s g q)"
  using assms
proof (induction pgs arbitrary: s)
  case (Cons pg pgs)
  obtain p h where pg: "pg = (p, h)" by (cases pg)
  have "map_of (map (\<lambda>(p, g). (g, p)) pgs) h = None" if "g = h"
    using Cons.prems pg by (force simp: map_of_eq_None_iff)
  with Cons pg show ?case by (auto simp: set_permissions_accessable split: option.splits)
qed simp

lemma from_str_to_string:
  "rbind (access_to_string crates s) (access_from_str crates) =
     Inr (AccessString (take_bit 18 (access_value s)))"
proof -
  obtain f where f: "\<And>g. get_group_permissions crates s g = Inr (f g)"
    and fq: "\<And>g q. has_permission (f g) q = is_accessable crates s g q"
    using get_permissions [of s] by metis
  let ?ps = "map f ACCESS_GROUP_LIST"
  let ?r = "fold (\<lambda>(p, g) s. set_group_permissions crates s g p) (zip ?ps ACCESS_GROUP_LIST) (AccessString 0)"
  have str: "access_to_string crates s = Inr (concat (map permissions_as_str ?ps))"
    using groups_string [of ACCESS_GROUP_LIST s f] f by (simp add: access_to_string_def comp_def)
  have keep: "filter (\<lambda>c. c \<noteq> chr CHR ''_'' \<and> c \<noteq> chr CHR '' '') (concat (map permissions_as_str ps)) =
      concat (map permissions_as_str ps)" for ps
  proof (induction ps)
    case (Cons p ps)
    then show ?case by (cases p) (simp_all add: chars_def chr_def)
  qed simp
  have "AccessString (take_bit 18 (access_value s)) = ?r"
  proof (rule access_string.expand, rule bit_eqI)
    fix j
    show "bit (access_value (AccessString (take_bit 18 (access_value s)))) j = bit (access_value ?r) j"
    proof (cases "j < 18")
      case True
      then obtain g q where "j = group_bit g q" using less_18_group_bit by blast
      with True fq [of g q] fold_set_accessable [of "zip ?ps ACCESS_GROUP_LIST" "AccessString 0" g q]
      show ?thesis
        by (cases g) (simp_all add: accessable_bit bit_take_bit_iff ACCESS_GROUP_LIST_def)
    qed (simp add: bit_take_bit_iff fold_set_high)
  qed
  with str keep show ?thesis
    by (simp add: access_from_str_def chunks_strings from_str_loop_strings access_new_def del: map_map)
qed

end

text \<open>The documented behaviour as functions, which shows that the laws can hold.\<close>

function ref_chunks :: "nat \<Rightarrow> chars \<Rightarrow> chars list" where
  "ref_chunks n cs = (if n = 0 \<or> cs = [] then [] else take n cs # ref_chunks n (drop n cs))"
  by auto
termination by (relation "measure (\<lambda>(n, cs). length cs)") auto

declare ref_chunks.simps [simp del]

definition ref_crates :: access_crates where
  "ref_crates = \<lparr>
     ib_bit = bit,
     ib_set_bit = (\<lambda>w i on. if on then set_bit i w else unset_bit i w),
     ib_bits = (\<lambda>w (a, b). take_bit (b - a) (drop_bit a w)),
     ib_set_bits = (\<lambda>w (a, b) v. (w AND NOT (push_bit a (mask (b - a)))) OR push_bit a (take_bit (b - a) v)),
     it_chunks = ref_chunks\<rparr>"

interpretation ref: access_deps ref_crates
proof
  show "ib_bit ref_crates w i = bit w i" for w i by (simp add: ref_crates_def)
  show "bit (ib_set_bit ref_crates w i on) j = (if j = i then on else bit w j)" if "i < 32" for w i on j
    using that by (auto simp: ref_crates_def bit_set_bit_iff bit_unset_bit_iff)
  show "bit (ib_bits ref_crates w (a, b)) j \<longleftrightarrow> j < b - a \<and> bit w (a + j)" for w a b j
    by (auto simp: ref_crates_def bit_take_bit_iff bit_drop_bit_eq)
  show "bit (ib_set_bits ref_crates w (a, b) v) j = (if a \<le> j \<and> j < b then bit v (j - a) else bit w j)"
    if "a \<le> b" "b \<le> 32" for w a b v j
    using that bit_imp_le_length [of w j]
    by (auto simp: ref_crates_def bit_simps)
  show "it_chunks ref_crates n cs = (if cs = [] then [] else take n cs # it_chunks ref_crates n (drop n cs))"
    if "0 < n" for n cs
    using that by (simp add: ref_crates_def ref_chunks.simps [of n cs])
qed

subsection \<open>Properties\<close>

text \<open>Setting the permissions of a group is read back exactly, and no other group changes: after
  \<open>set_group_permissions\<close> an access check answers from the new permissions in that group and as
  before in the others, and \<open>get_group_permissions\<close> never panics and returns what was set.\<close>

theorem set_group_permissions_exact:
  assumes "access_deps crates"
  shows "is_accessable crates (set_group_permissions crates s g p) g' q =
      (if g' = g then permission_test q (permissions_as_u8 p) else is_accessable crates s g' q) \<and>
    get_group_permissions crates (set_group_permissions crates s g p) g = Inr p"
proof -
  obtain p' where p': "get_group_permissions crates (set_group_permissions crates s g p) g = Inr p'"
    and "\<And>q. has_permission p' q = is_accessable crates (set_group_permissions crates s g p) g q"
    using access_deps.get_permissions [OF assms] by metis
  then have "\<And>q. has_permission p' q = has_permission p q"
    by (simp add: access_deps.set_permissions_accessable [OF assms])
  then have "p' = p" by (rule permissions_ext)
  with p' show ?thesis
    by (auto simp: access_deps.set_permissions_accessable [OF assms] permission_test_iff)
qed

theorem set_group_permissions_exact_witness:
  "get_group_permissions ref_crates
     (set_group_permissions ref_crates (AccessString 0) FriendZone ReadAndCall) FriendZone = Inr ReadAndCall \<and>
   \<not> is_accessable ref_crates
     (set_group_permissions ref_crates (AccessString 0) FriendZone ReadAndCall) FriendZone Write"
  using set_group_permissions_exact [OF ref.access_deps_axioms, of "AccessString 0" FriendZone
      ReadAndCall FriendZone Write]
  by (simp add: permission_test_def)

text \<open>The two ways to check an operation agree: the permissions of a group allow an operation
  exactly when the group has the corresponding access bit.\<close>

theorem test_op_is_accessable:
  assumes "access_deps crates"
  shows "\<exists>p. get_group_permissions crates s g = Inr p \<and>
    (\<forall>op. test_op p op = is_accessable crates s g (op_into_permission op))"
  using access_deps.get_permissions [OF assms, of s g] by (auto simp: test_op_def permission_test_iff)

theorem test_op_is_accessable_witness:
  "\<exists>p. get_group_permissions ref_crates (AccessString 5) CurrentDevice = Inr p \<and>
    \<not> test_op p OpWrite \<and> test_op p OpRead"
  using test_op_is_accessable [OF ref.access_deps_axioms, of "AccessString 5" CurrentDevice]
  by (auto simp: ref.accessable_bit group_bit_def bit_simps)

text \<open>C31: The text form round-trips: printing an access string never panics, and parsing the text
  gives back its eighteen permission bits, so every access string below 2^18.\<close>

theorem access_string_roundtrip:
  assumes "access_deps crates"
  shows "rbind (access_to_string crates s) (access_from_str crates) =
    Inr (AccessString (take_bit 18 (access_value s)))"
  by (rule access_deps.from_str_to_string [OF assms])

theorem access_string_roundtrip_witness:
  "rbind (access_to_string ref_crates (AccessString 0x3F1FF)) (access_from_str ref_crates) =
     Inr (AccessString 0x3F1FF)"
  using access_string_roundtrip [OF ref.access_deps_axioms, of "AccessString 0x3F1FF"] by simp

text \<open>The predefined access strings: \<open>full\<close> allows everything; \<open>full_except_write\<close> differs from it
  only in that other zones and other applications cannot write; the default denies other zones
  everything and allows the rest.\<close>

theorem access_presets:
  assumes "access_deps crates"
  shows "is_accessable crates (access_full crates) g q \<and>
    is_accessable crates (full_except_write crates) g q = (\<not> (q = Write \<and> (g = OthersZone \<or> g = OthersDec))) \<and>
    is_accessable crates (access_default crates) g q = (g \<noteq> OthersZone)"
proof -
  have zero: "\<not> is_accessable crates (AccessString 0) g q" for g q
    by (simp add: access_deps.accessable_bit [OF assms])
  note set_acc = access_deps.set_permissions_accessable [OF assms]
  show ?thesis
    by (cases g; cases q)
      (simp_all add: access_full_def full_except_write_def access_default_def dec_default_def
        access_make_def set_acc zero)
qed

theorem access_presets_witness:
  "\<not> is_accessable ref_crates (full_except_write ref_crates) OthersDec Write \<and>
   \<not> is_accessable ref_crates (access_default ref_crates) OthersZone Read"
  using access_presets [OF ref.access_deps_axioms, of OthersDec Write]
    access_presets [OF ref.access_deps_axioms, of OthersZone Read] by simp

text \<open>The parser does not require six groups: a text of fewer groups is accepted and the missing
  groups have no permission, and whatever follows the sixth group is ignored.\<close>

theorem access_from_str_lenient:
  assumes "access_deps crates"
  shows "access_from_str crates [] = Inr (AccessString 0) \<and>
    access_from_str crates (chars ''rwx'') =
      Inr (set_group_permissions crates (AccessString 0) CurrentDevice Full) \<and>
    access_from_str crates (chars ''rwxrwxrwxrwxrwxrwx'' @ chars ''bad'') =
      access_from_str crates (chars ''rwxrwxrwxrwxrwxrwx'')"
proof -
  note chunk = access_deps.chunks_doc [OF assms, of 3]
  have nil: "it_chunks crates 3 [] = []" by (subst chunk) simp_all
  have one: "it_chunks crates 3 (a # b # c # r) = [a, b, c] # it_chunks crates 3 r" for a b c r
    by (subst chunk) (simp_all add: numeral_3_eq_3)
  show ?thesis
    by (simp add: access_from_str_def chars_def chr_def nil one permissions_from_str_def access_new_def
        ACCESS_GROUP_LIST_def)
qed

theorem access_from_str_lenient_witness:
  "access_from_str ref_crates [] = Inr (AccessString 0)"
  using access_from_str_lenient [OF ref.access_deps_axioms] by simp

end
