(* ===== verification/PathLock.thy ===== *)
theory PathLock
  imports RawCodec "HOL-Library.Sublist" "HOL-Library.List_Lexorder"
begin

text \<open>
  The path locks of the object map, from
  \<^verbatim>\<open>component/cyfs-base/src/objects/object_map/lock.rs\<close>: \<open>PathLockList\<close>, operation by operation, and
  the waiting requests of \<open>ObjectMapPathLock\<close> as a step relation. A path is the list of its UTF-8
  bytes. The clock is the argument \<open>now\<close>. An asynchronous mutex is a number, and a fresh one is
  handed to the operations that create it. A reference count is a natural number: the counter of
  the source is 64 bits wide and grows by one per successful request.
\<close>

subsection \<open>Paths\<close>

definition slash :: u8 where
  "slash = 0x2F"

fun split_slash :: "bytes \<Rightarrow> bytes list" where
  "split_slash [] = [[]]"
| "split_slash (b # bs) =
     (if b = slash then [] # split_slash bs
      else (case split_slash bs of s # ss \<Rightarrow> (b # s) # ss | [] \<Rightarrow> [[b]]))"

fun join_slash :: "bytes list \<Rightarrow> bytes" where
  "join_slash [] = []"
| "join_slash [s] = s"
| "join_slash (s # t # ss) = s @ slash # join_slash (t # ss)"

definition path_segs :: "bytes \<Rightarrow> bytes list" where
  "path_segs path = filter (\<lambda>seg. length seg > 0) (split_slash path)"

definition fix_path :: "bytes \<Rightarrow> bytes" where
  "fix_path path = join_slash (path_segs path) @ [slash]"

definition ends_with_slash :: "bytes \<Rightarrow> bool" where
  "ends_with_slash path \<longleftrightarrow> path \<noteq> [] \<and> last path = slash"

subsection \<open>The lock list\<close>

record path_lock_request =
  req_path :: bytes
  req_sid :: u64
  req_expired :: u64

record path_unlock_request =
  unlock_path :: "bytes option"
  unlock_sid :: u64

record path_lock_data =
  ld_path :: bytes
  ld_sid :: u64
  ld_expired :: u64
  ld_ref_count :: nat
  ld_mutex :: nat

type_synonym path_lock_list = "path_lock_data list"

text \<open>The first item of an enumerated list that satisfies a condition, with its index.\<close>

fun enum_find :: "('a \<Rightarrow> bool) \<Rightarrow> nat \<Rightarrow> 'a list \<Rightarrow> (nat \<times> 'a) option" where
  "enum_find P i [] = None"
| "enum_find P i (x # xs) = (if P x then Some (i, x) else enum_find P (Suc i) xs)"

definition overlaps :: "bytes \<Rightarrow> path_lock_data \<Rightarrow> bool" where
  "overlaps path item \<longleftrightarrow> prefix (ld_path item) path \<or> prefix path (ld_path item)"

definition match_lock :: "path_lock_list \<Rightarrow> bytes \<Rightarrow> (nat \<times> path_lock_data) option result" where
  "match_lock l path =
     rbind (rassert (ends_with_slash path)) (\<lambda>_. Inr (enum_find (overlaps path) 0 l))"

definition find_lock :: "path_lock_list \<Rightarrow> bytes \<Rightarrow> u64 \<Rightarrow> (nat \<times> path_lock_data) option" where
  "find_lock l path sid = enum_find (\<lambda>item. path = ld_path item \<and> sid = ld_sid item) 0 l"

definition try_enter_path :: "path_lock_list \<Rightarrow> bytes \<Rightarrow> u64 \<Rightarrow> unit result" where
  "try_enter_path l path sid =
     (let path = fix_path path in
      rbind (match_lock l path) (\<lambda>m.
        case m of
          Some (_, data) \<Rightarrow>
            if ld_sid data \<noteq> sid then Inl (Err bucky_error_code.WouldBlock) else Inr ()
        | None \<Rightarrow> Inr ()))"

fun check_lock_valid :: "path_lock_list \<Rightarrow> path_lock_request list \<Rightarrow> unit result" where
  "check_lock_valid l [] = Inr ()"
| "check_lock_valid l (req # reqs) =
     (let path = fix_path (req_path req) in
      if find_lock l path (req_sid req) = None then Inl (Err bucky_error_code.NotFound)
      else check_lock_valid l reqs)"

text \<open>\<open>Vec::remove\<close>, and the two loops of \<open>remove_expired\<close>: the indices of the expired locks, then
  their removal from the last to the first.\<close>

definition vec_remove :: "nat \<Rightarrow> 'a list \<Rightarrow> 'a list result" where
  "vec_remove i xs = (if i < length xs then Inr (take i xs @ drop (Suc i) xs) else Inl Panic)"

definition is_expired :: "u64 \<Rightarrow> path_lock_data \<Rightarrow> bool" where
  "is_expired now item \<longleftrightarrow> ld_expired item > 0 \<and> now \<ge> ld_expired item"

fun collect_indices :: "(path_lock_data \<Rightarrow> bool) \<Rightarrow> nat \<Rightarrow> path_lock_list \<Rightarrow> nat list result" where
  "collect_indices P i [] = Inr []"
| "collect_indices P i (item # l) =
     rbind (rassert (ld_ref_count item > 0)) (\<lambda>_.
       rbind (collect_indices P (Suc i) l) (\<lambda>is. Inr (if P item then i # is else is)))"

fun remove_indices :: "(path_lock_data \<Rightarrow> bool) \<Rightarrow> nat list \<Rightarrow> path_lock_list \<Rightarrow> path_lock_list result" where
  "remove_indices P [] l = Inr l"
| "remove_indices P (i # is) l =
     (if i < length l then
        rbind (rassert (P (l ! i))) (\<lambda>_. rbind (vec_remove i l) (remove_indices P is))
      else Inl Panic)"

definition remove_expired :: "u64 \<Rightarrow> path_lock_list \<Rightarrow> path_lock_list result" where
  "remove_expired now l =
     rbind (collect_indices (is_expired now) 0 l) (\<lambda>removed_list.
       remove_indices (\<lambda>item. ld_expired item \<noteq> 0 \<and> now \<ge> ld_expired item) (rev removed_list) l)"

text \<open>The update of an existing lock: one more reference, and the later expiry.\<close>

definition ref_lock :: "u64 \<Rightarrow> path_lock_data \<Rightarrow> path_lock_data" where
  "ref_lock expired d =
     d\<lparr>ld_ref_count := ld_ref_count d + 1,
       ld_expired := (if expired > ld_expired d then expired else ld_expired d)\<rparr>"

definition new_lock :: "bytes \<Rightarrow> path_lock_request \<Rightarrow> nat \<Rightarrow> path_lock_data" where
  "new_lock path req mutex =
     \<lparr>ld_path = path, ld_sid = req_sid req, ld_expired = req_expired req, ld_ref_count = 1,
      ld_mutex = mutex\<rparr>"

text \<open>\<open>try_lock\<close> returns the list and either \<open>Inl\<close> the mutex of the lock in the way or \<open>Inr ()\<close>.\<close>

definition try_lock ::
    "u64 \<Rightarrow> nat \<Rightarrow> path_lock_list \<Rightarrow> path_lock_request \<Rightarrow> nat option \<Rightarrow>
     (path_lock_list \<times> (nat + unit)) result" where
  "try_lock now fresh l req mutex =
     rbind (remove_expired now l) (\<lambda>l.
       let path = fix_path (req_path req);
           add_new =
             (let mutex = (case mutex of Some v \<Rightarrow> v | None \<Rightarrow> fresh)
              in Inr (l @ [new_lock path req mutex], Inr ()))
       in rbind (match_lock l path) (\<lambda>ret.
            case ret of
              Some (index, current_lock) \<Rightarrow>
                if ld_sid current_lock \<noteq> req_sid req then Inr (l, Inl (ld_mutex current_lock))
                else if path = ld_path current_lock
                then Inr (l[index := ref_lock (req_expired req) current_lock], Inr ())
                else add_new
            | None \<Rightarrow> add_new))"

text \<open>\<open>lock_list\<close>: the check of all requests, then the updates.\<close>

fun lock_list_check ::
    "path_lock_list \<Rightarrow> path_lock_request list \<Rightarrow> (path_lock_request \<times> nat option) list result" where
  "lock_list_check l [] = Inr []"
| "lock_list_check l (req # reqs) =
     (let req = req\<lparr>req_path := fix_path (req_path req)\<rparr> in
      rbind (match_lock l (req_path req)) (\<lambda>ret.
        case ret of
          Some (index, current_lock) \<Rightarrow>
            if ld_sid current_lock \<noteq> req_sid req then Inl (Err bucky_error_code.AlreadyExists)
            else rbind (lock_list_check l reqs) (\<lambda>all.
              Inr ((req, if ld_path current_lock = req_path req then Some index else None) # all))
        | None \<Rightarrow> rbind (lock_list_check l reqs) (\<lambda>all. Inr ((req, None) # all))))"

fun lock_list_apply ::
    "nat \<Rightarrow> path_lock_list \<Rightarrow> (path_lock_request \<times> nat option) list \<Rightarrow> path_lock_list result" where
  "lock_list_apply fresh l [] = Inr l"
| "lock_list_apply fresh l ((req, index) # all) =
     (case index of
        Some i \<Rightarrow>
          if i < length l then lock_list_apply fresh (l[i := ref_lock (req_expired req) (l ! i)]) all
          else Inl Panic
      | None \<Rightarrow> lock_list_apply (Suc fresh) (l @ [new_lock (req_path req) req fresh]) all)"

definition lock_list ::
    "u64 \<Rightarrow> nat \<Rightarrow> path_lock_list \<Rightarrow> path_lock_request list \<Rightarrow> (path_lock_list \<times> unit result) result" where
  "lock_list now fresh l req_list =
     rbind (rassert (length req_list > 0)) (\<lambda>_.
       rbind (remove_expired now l) (\<lambda>l.
         case lock_list_check l req_list of
           Inl (Err e) \<Rightarrow> Inr (l, Inl (Err e))
         | Inl f \<Rightarrow> Inl f
         | Inr all \<Rightarrow> rbind (lock_list_apply fresh l all) (\<lambda>l. Inr (l, Inr ()))))"

definition unlock_by_sid :: "path_lock_list \<Rightarrow> u64 \<Rightarrow> path_lock_list result" where
  "unlock_by_sid l sid =
     rbind (collect_indices (\<lambda>item. ld_sid item = sid) 0 l) (\<lambda>removed_list.
       remove_indices (\<lambda>item. ld_sid item = sid) (rev removed_list) l)"

definition unlock_by_path :: "path_lock_list \<Rightarrow> bytes \<Rightarrow> u64 \<Rightarrow> path_lock_list result" where
  "unlock_by_path l path sid =
     (let path = fix_path path in
      case enum_find (\<lambda>item. path = ld_path item) 0 l of
        Some (index, item) \<Rightarrow>
          rbind (rassert (ld_ref_count item > 0)) (\<lambda>_.
            if ld_sid item \<noteq> sid then Inl (Err bucky_error_code.Unmatch)
            else let item = item\<lparr>ld_ref_count := ld_ref_count item - 1\<rparr> in
              if ld_ref_count item = 0 then vec_remove index (l[index := item])
              else Inr (l[index := item]))
      | None \<Rightarrow> Inl (Err bucky_error_code.NotFound))"

text \<open>\<open>unlock\<close>: the list after the call, which has lost the expired locks also when the call fails,
  and the result.\<close>

definition unlock :: "u64 \<Rightarrow> path_lock_list \<Rightarrow> path_unlock_request \<Rightarrow>
    (path_lock_list \<times> unit result) result" where
  "unlock now l req =
     rbind (remove_expired now l) (\<lambda>l.
       case (case unlock_path req of
               Some path \<Rightarrow> unlock_by_path l path (unlock_sid req)
             | None \<Rightarrow> unlock_by_sid l (unlock_sid req)) of
         Inr l' \<Rightarrow> Inr (l', Inr ())
       | Inl (Err e) \<Rightarrow> Inr (l, Inl (Err e))
       | Inl f \<Rightarrow> Inl f)"

subsection \<open>The shared lock\<close>

text \<open>The methods of \<open>ObjectMapPathLock\<close> on the list behind its mutex.\<close>

fun trim_end_slashes :: "bytes \<Rightarrow> bytes" where
  "trim_end_slashes path = rev (dropWhile (\<lambda>b. b = slash) (rev path))"

definition try_enter_path_and_key :: "path_lock_list \<Rightarrow> bytes \<Rightarrow> bytes \<Rightarrow> u64 \<Rightarrow> unit result" where
  "try_enter_path_and_key l path key sid =
     (let full_path = trim_end_slashes path @ [slash] @ key in try_enter_path l full_path sid)"

definition shared_try_lock ::
    "u64 \<Rightarrow> nat \<Rightarrow> path_lock_list \<Rightarrow> path_lock_request \<Rightarrow> (path_lock_list \<times> unit result) result" where
  "shared_try_lock now fresh l req =
     rbind (try_lock now fresh l req None) (\<lambda>(l, r).
       Inr (l, case r of Inr () \<Rightarrow> Inr () | Inl _ \<Rightarrow> Inl (Err bucky_error_code.AlreadyExists)))"

definition try_lock_list ::
    "u64 \<Rightarrow> nat \<Rightarrow> path_lock_list \<Rightarrow> path_lock_request list \<Rightarrow> (path_lock_list \<times> unit result) result" where
  "try_lock_list now fresh l req_list = lock_list now fresh l (sort_key req_path req_list)"

subsection \<open>Paths and ancestors\<close>

text \<open>A normalised path is the concatenation of its segments, each closed by a slash.\<close>

definition seg_path :: "bytes list \<Rightarrow> bytes" where
  "seg_path ss = concat (map (\<lambda>s. s @ [slash]) ss)"

lemma split_slash_nonempty: "split_slash p \<noteq> []"
  by (induction p) (auto split: list.splits)

lemma split_slash_no_slash: "s \<in> set (split_slash p) \<Longrightarrow> slash \<notin> set s"
proof (induction p arbitrary: s)
  case (Cons b p)
  then show ?case using split_slash_nonempty [of p]
    by (cases "split_slash p") (auto split: if_splits)
qed simp

lemma path_segs_no_slash: "s \<in> set (path_segs p) \<Longrightarrow> slash \<notin> set s \<and> s \<noteq> []"
  using split_slash_no_slash by (auto simp: path_segs_def)

lemma join_slash_seg_path: "ss \<noteq> [] \<Longrightarrow> join_slash ss @ [slash] = seg_path ss"
  by (induction ss rule: join_slash.induct) (auto simp: seg_path_def)

lemma fix_path_eq: "fix_path p = (if path_segs p = [] then [slash] else seg_path (path_segs p))"
  by (simp add: fix_path_def join_slash_seg_path)

lemma split_seg_path:
  assumes "slash \<notin> set s"
  shows "split_slash (s @ slash # p) = s # split_slash p"
  using assms by (induction s) auto

lemma split_join:
  assumes "\<And>s. s \<in> set ss \<Longrightarrow> slash \<notin> set s"
  shows "split_slash (seg_path ss) = ss @ [[]]"
  using assms by (induction ss) (simp_all add: seg_path_def split_seg_path)

lemma path_segs_seg_path:
  assumes "\<And>s. s \<in> set ss \<Longrightarrow> slash \<notin> set s \<and> s \<noteq> []"
  shows "path_segs (seg_path ss) = ss"
proof -
  have "split_slash (seg_path ss) = ss @ [[]]" by (rule split_join) (use assms in blast)
  moreover have "filter (\<lambda>s. length s > 0) ss = ss" using assms by (simp add: filter_id_conv)
  ultimately show ?thesis by (simp add: path_segs_def)
qed

lemma path_segs_fix_path: "path_segs (fix_path p) = path_segs p"
proof (cases "path_segs p = []")
  case False
  with path_segs_seg_path [OF path_segs_no_slash] show ?thesis by (simp add: fix_path_eq)
qed (simp add: fix_path_eq, simp add: path_segs_def)

lemma fix_path_idem [simp]: "fix_path (fix_path p) = fix_path p"
  by (simp only: fix_path_def [of "fix_path p"] path_segs_fix_path) (simp only: fix_path_def)

lemma ends_with_fix_path [simp]: "ends_with_slash (fix_path p)"
  by (simp add: fix_path_def ends_with_slash_def)

lemma prefix_slash_iff:
  assumes "slash \<notin> set x" and "slash \<notin> set y"
  shows "prefix (x @ slash # u) (y @ slash # v) \<longleftrightarrow> x = y \<and> prefix u v"
  using assms
proof (induction x arbitrary: y)
  case Nil
  then show ?case by (cases y) auto
next
  case (Cons a x)
  then show ?case by (cases y) auto
qed

lemma prefix_seg_path:
  assumes "\<And>s. s \<in> set a \<union> set b \<Longrightarrow> slash \<notin> set s"
  shows "prefix (seg_path a) (seg_path b) \<longleftrightarrow> prefix a b"
  using assms
proof (induction a arbitrary: b)
  case Nil
  then show ?case by (simp add: seg_path_def)
next
  case (Cons x a)
  then show ?case by (cases b) (auto simp: seg_path_def prefix_slash_iff)
qed

lemma prefix_fix_path:
  assumes "path_segs p \<noteq> []" and "path_segs q \<noteq> []"
  shows "prefix (fix_path p) (fix_path q) \<longleftrightarrow> prefix (path_segs p) (path_segs q)"
  using assms path_segs_no_slash by (subst prefix_seg_path [symmetric]) (auto simp: fix_path_eq)

subsection \<open>Removal loops\<close>

lemma collect_indices_total:
  assumes "list_all (\<lambda>d. ld_ref_count d > 0) l"
  shows "collect_indices P i l = Inr (map (\<lambda>k. i + k) (filter (\<lambda>k. P (l ! k)) [0..<length l]))"
  using assms
proof (induction l arbitrary: i)
  case (Cons d l)
  have "filter (\<lambda>k. P ((d # l) ! k)) [0..<length (d # l)] =
      (if P d then [0] else []) @ map Suc (filter (\<lambda>k. P (l ! k)) [0..<length l])"
    by (simp add: upt_conv_Cons map_Suc_upt [symmetric] filter_map comp_def del: upt_Suc)
  with Cons show ?case by simp
qed simp

lemma remove_indices_snoc:
  assumes "\<forall>i\<in>set is. i < length l" and "sorted_wrt (>) is"
  shows "remove_indices P is (l @ [d]) = rbind (remove_indices P is l) (\<lambda>l. Inr (l @ [d]))"
  using assms
proof (induction "is" arbitrary: l)
  case (Cons i "is")
  let ?l = "take i l @ drop (Suc i) l"
  have "\<forall>j\<in>set is. j < length ?l" using Cons.prems by auto
  with Cons.IH [of ?l] Cons.prems show ?case
    by (simp add: nth_append vec_remove_def rbind_assoc rassert_def)
qed simp

lemma remove_indices_filter:
  assumes "\<forall>d\<in>set l. P d \<longrightarrow> Q d"
  shows "remove_indices Q (rev (filter (\<lambda>k. P (l ! k)) [0..<length l])) l =
    Inr (filter (\<lambda>d. \<not> P d) l)"
  using assms
proof (induction l rule: rev_induct)
  case (snoc d l)
  let ?is = "rev (filter (\<lambda>k. P (l ! k)) [0..<length l])"
  have idx: "filter (\<lambda>k. P ((l @ [d]) ! k)) [0..<length (l @ [d])] =
      filter (\<lambda>k. P (l ! k)) [0..<length l] @ (if P d then [length l] else [])"
    by (auto simp: nth_append intro!: filter_cong)
  have "sorted_wrt (>) ?is"
    by (simp add: sorted_wrt_rev sorted_wrt_filter)
  then have keep: "remove_indices Q ?is (l @ [d]) = Inr (filter (\<lambda>d. \<not> P d) l @ [d])"
    using snoc by (subst remove_indices_snoc) auto
  show ?case
  proof (cases "P d")
    case True
    with snoc show ?thesis unfolding idx by (simp add: vec_remove_def)
  next
    case False
    with keep show ?thesis unfolding idx by simp
  qed
qed simp

definition refs_pos :: "path_lock_list \<Rightarrow> bool" where
  "refs_pos l \<longleftrightarrow> list_all (\<lambda>d. ld_ref_count d > 0) l"

lemma remove_expired_filter:
  assumes "refs_pos l"
  shows "remove_expired now l = Inr (filter (\<lambda>d. \<not> is_expired now d) l)"
proof -
  have "\<forall>d\<in>set l. is_expired now d \<longrightarrow> ld_expired d \<noteq> 0 \<and> now \<ge> ld_expired d"
    by (auto simp: is_expired_def)
  from remove_indices_filter [OF this] assms show ?thesis
    by (simp add: remove_expired_def refs_pos_def collect_indices_total)
qed

lemma unlock_by_sid_filter:
  assumes "refs_pos l"
  shows "unlock_by_sid l sid = Inr (filter (\<lambda>d. ld_sid d \<noteq> sid) l)"
  using assms remove_indices_filter [of l "\<lambda>d. ld_sid d = sid" "\<lambda>d. ld_sid d = sid"]
  by (simp add: unlock_by_sid_def refs_pos_def collect_indices_total)

lemma refs_pos_filter [simp]: "refs_pos l \<Longrightarrow> refs_pos (filter P l)"
  by (auto simp: refs_pos_def list_all_iff)

lemma enum_find_None: "enum_find P i l = None \<longleftrightarrow> (\<forall>d\<in>set l. \<not> P d)"
  by (induction l arbitrary: i) auto

lemma enum_find_Some:
  assumes "enum_find P i l = Some (j, d)"
  shows "i \<le> j \<and> j - i < length l \<and> l ! (j - i) = d \<and> P d \<and> (\<forall>k < j - i. \<not> P (l ! k))"
  using assms
proof (induction l arbitrary: i)
  case (Cons x l)
  show ?case
  proof (cases "P x")
    case False
    with Cons have *: "Suc i \<le> j \<and> j - Suc i < length l \<and> l ! (j - Suc i) = d \<and> P d \<and>
        (\<forall>k < j - Suc i. \<not> P (l ! k))"
      by simp
    then have "j - i = Suc (j - Suc i)" by linarith
    with * False show ?thesis by (auto simp: nth_Cons split: nat.splits)
  qed (use Cons in auto)
qed simp

lemma enum_find_0:
  assumes "enum_find P 0 l = Some (j, d)"
  shows "j < length l" and "l ! j = d" and "P d" and "d \<in> set l"
  using enum_find_Some [OF assms] by auto

subsection \<open>The operations on a list with positive counts\<close>

definition live :: "u64 \<Rightarrow> path_lock_list \<Rightarrow> path_lock_list" where
  "live now l = filter (\<lambda>d. \<not> is_expired now d) l"

lemma refs_pos_live [simp]: "refs_pos l \<Longrightarrow> refs_pos (live now l)"
  by (simp add: live_def)

lemma set_live: "d \<in> set (live now l) \<longleftrightarrow> d \<in> set l \<and> \<not> is_expired now d"
  by (auto simp: live_def)

lemma remove_expired_live: "refs_pos l \<Longrightarrow> remove_expired now l = Inr (live now l)"
  by (simp add: remove_expired_filter live_def)

lemma match_lock_fix [simp]: "match_lock l (fix_path p) = Inr (enum_find (overlaps (fix_path p)) 0 l)"
  by (simp add: match_lock_def)

lemma try_lock_eq:
  assumes "refs_pos l"
  shows "try_lock now fresh l req mutex =
    (let path = fix_path (req_path req); l1 = live now l;
         added = l1 @ [new_lock path req (case mutex of Some v \<Rightarrow> v | None \<Rightarrow> fresh)]
     in Inr (case enum_find (overlaps path) 0 l1 of
          None \<Rightarrow> (added, Inr ())
        | Some (i, d) \<Rightarrow>
            if ld_sid d \<noteq> req_sid req then (l1, Inl (ld_mutex d))
            else if path = ld_path d then (l1[i := ref_lock (req_expired req) d], Inr ())
            else (added, Inr ())))"
  using assms by (simp add: try_lock_def remove_expired_live Let_def split: option.splits)

text \<open>A successful request either counts up a lock of the same path and session, or adds one.\<close>

lemma try_lock_cases:
  assumes "refs_pos l" and "try_lock now fresh l req mutex = Inr (l', r)"
  obtains (blocked) i d where "enum_find (overlaps (fix_path (req_path req))) 0 (live now l) = Some (i, d)"
      and "ld_sid d \<noteq> req_sid req" and "l' = live now l" and "r = Inl (ld_mutex d)"
    | (counted) i d where "enum_find (overlaps (fix_path (req_path req))) 0 (live now l) = Some (i, d)"
      and "ld_sid d = req_sid req" and "ld_path d = fix_path (req_path req)"
      and "l' = (live now l)[i := ref_lock (req_expired req) d]" and "r = Inr ()"
    | (added) "l' = live now l @ [new_lock (fix_path (req_path req)) req
          (case mutex of Some v \<Rightarrow> v | None \<Rightarrow> fresh)]" and "r = Inr ()"
      and "\<And>i d. enum_find (overlaps (fix_path (req_path req))) 0 (live now l) = Some (i, d) \<Longrightarrow>
        ld_sid d = req_sid req \<and> ld_path d \<noteq> fix_path (req_path req)"
proof (cases "enum_find (overlaps (fix_path (req_path req))) 0 (live now l)")
  case None
  with assms show ?thesis by (intro added) (auto simp: try_lock_eq Let_def)
next
  case (Some id)
  obtain i d where id: "id = (i, d)" by (cases id)
  note eq = assms(2) [unfolded try_lock_eq [OF assms(1)] Let_def Some id]
  show ?thesis
  proof (cases "ld_sid d = req_sid req")
    case False
    with eq Some id show ?thesis by (intro blocked) auto
  next
    case sid: True
    show ?thesis
    proof (cases "ld_path d = fix_path (req_path req)")
      case True
      with eq Some id sid show ?thesis by (intro counted) auto
    next
      case False
      with eq Some id sid show ?thesis by (intro added) auto
    qed
  qed
qed

lemma refs_pos_ref_lock [simp]: "ld_ref_count (ref_lock e d) > 0"
  by (simp add: ref_lock_def)

lemma ref_lock_simps [simp]:
  "ld_path (ref_lock e d) = ld_path d" "ld_sid (ref_lock e d) = ld_sid d"
  "ld_mutex (ref_lock e d) = ld_mutex d" "ld_ref_count (ref_lock e d) = Suc (ld_ref_count d)"
  by (simp_all add: ref_lock_def)

lemma new_lock_simps [simp]:
  "ld_path (new_lock p req m) = p" "ld_sid (new_lock p req m) = req_sid req"
  "ld_mutex (new_lock p req m) = m" "ld_ref_count (new_lock p req m) = 1"
  "ld_expired (new_lock p req m) = req_expired req"
  by (simp_all add: new_lock_def)

lemma refs_pos_update: "refs_pos l \<Longrightarrow> ld_ref_count d > 0 \<Longrightarrow> refs_pos (l[i := d])"
  by (auto simp: refs_pos_def list_all_iff dest!: set_update_subset_insert [THEN subsetD])

lemma refs_pos_append [simp]: "refs_pos (l @ l') \<longleftrightarrow> refs_pos l \<and> refs_pos l'"
  by (simp add: refs_pos_def)

lemma refs_pos_single [simp]: "refs_pos [d] \<longleftrightarrow> ld_ref_count d > 0"
  by (simp add: refs_pos_def)

lemma try_lock_refs_pos:
  assumes "refs_pos l" and "try_lock now fresh l req mutex = Inr (l', r)"
  shows "refs_pos l'"
  using assms by (cases rule: try_lock_cases) (use assms(1) in \<open>auto intro: refs_pos_update\<close>)

subsection \<open>Exclusion\<close>

text \<open>Locks on a path and on a path below it belong to one session.\<close>

definition exclusive :: "path_lock_list \<Rightarrow> bool" where
  "exclusive l \<longleftrightarrow>
     (\<forall>d\<in>set l. \<forall>e\<in>set l. prefix (ld_path d) (ld_path e) \<longrightarrow> ld_sid d = ld_sid e)"

lemma exclusiveD:
  "exclusive l \<Longrightarrow> d \<in> set l \<Longrightarrow> e \<in> set l \<Longrightarrow>
    prefix (ld_path d) (ld_path e) \<or> prefix (ld_path e) (ld_path d) \<Longrightarrow> ld_sid d = ld_sid e"
  unfolding exclusive_def by metis

lemma exclusive_live: "exclusive l \<Longrightarrow> exclusive (live now l)"
  by (auto simp: exclusive_def set_live)

text \<open>Two locks that overlap a path overlap each other, unless both lie below it.\<close>

lemma overlaps_related:
  assumes "prefix (ld_path d) path" and "overlaps path e"
  shows "prefix (ld_path d) (ld_path e) \<or> prefix (ld_path e) (ld_path d)"
proof (cases "prefix (ld_path e) path")
  case True
  with assms(1) show ?thesis using prefix_same_cases by metis
next
  case False
  with assms have "prefix (ld_path d) (ld_path e)"
    unfolding overlaps_def by (blast intro: prefix_order.trans)
  then show ?thesis ..
qed

lemma first_match_owner:
  assumes "exclusive l" and "enum_find (overlaps path) 0 l = Some (i, d)"
    and "e \<in> set l" and "overlaps path e" and "prefix (ld_path d) path \<or> prefix (ld_path e) path"
  shows "ld_sid e = ld_sid d"
proof -
  note d = enum_find_0 [OF assms(2)]
  from assms(4,5) d(3) have "prefix (ld_path d) (ld_path e) \<or> prefix (ld_path e) (ld_path d)"
    using overlaps_related [of d path e] overlaps_related [of e path d] by blast
  with assms(1,3) d(4) show ?thesis using exclusiveD by metis
qed

lemma exclusive_update:
  assumes "exclusive l" and "i < length l" and "ld_path d = ld_path (l ! i)" and "ld_sid d = ld_sid (l ! i)"
  shows "exclusive (l[i := d])"
proof -
  have "\<exists>e\<in>set l. ld_path e = ld_path x \<and> ld_sid e = ld_sid x" if "x \<in> set (l[i := d])" for x
  proof (cases "x = d")
    case True
    with assms(2-4) show ?thesis by (intro bexI [of _ "l ! i"]) auto
  next
    case False
    with that show ?thesis using set_update_subset_insert [of l i d] by blast
  qed
  with assms(1) show ?thesis unfolding exclusive_def by metis
qed

lemma exclusive_snoc:
  assumes "exclusive l" and "\<And>e. e \<in> set l \<Longrightarrow> overlaps (ld_path d) e \<Longrightarrow> ld_sid e = ld_sid d"
  shows "exclusive (l @ [d])"
  unfolding exclusive_def
proof (intro ballI impI)
  fix a b
  assume "a \<in> set (l @ [d])" "b \<in> set (l @ [d])" "prefix (ld_path a) (ld_path b)"
  then consider "a \<in> set l" "b \<in> set l" | "a \<in> set l" "b = d" | "a = d" "b \<in> set l" | "a = d" "b = d"
    by auto
  then show "ld_sid a = ld_sid b"
  proof cases
    case 1
    then show ?thesis using assms(1) \<open>prefix (ld_path a) (ld_path b)\<close> exclusiveD by blast
  next
    case 2
    with assms(2) [of a] \<open>prefix (ld_path a) (ld_path b)\<close> show ?thesis by (simp add: overlaps_def)
  next
    case 3
    with assms(2) [of b] \<open>prefix (ld_path a) (ld_path b)\<close> show ?thesis by (simp add: overlaps_def)
  qed simp
qed

subsection \<open>Counts\<close>

text \<open>The abstract view of a lock list: how often each path is held by each session.\<close>

definition holds :: "path_lock_list \<Rightarrow> bytes \<Rightarrow> u64 \<Rightarrow> nat" where
  "holds l p s = (\<Sum>d\<leftarrow>l. if ld_path d = p \<and> ld_sid d = s then ld_ref_count d else 0)"

lemma holds_simps [simp]:
  "holds [] p s = 0"
  "holds (d # l) p s = (if ld_path d = p \<and> ld_sid d = s then ld_ref_count d else 0) + holds l p s"
  "holds (l @ l') p s = holds l p s + holds l' p s"
  by (simp_all add: holds_def)

lemma holds_split:
  assumes "i < length l"
  shows "l = take i l @ l ! i # drop (Suc i) l" and "l[i := d] = take i l @ d # drop (Suc i) l"
  using assms by (simp_all add: id_take_nth_drop upd_conv_take_nth_drop)

lemma holds_update:
  assumes "i < length l" and "ld_path d = ld_path (l ! i)" and "ld_sid d = ld_sid (l ! i)"
  shows "holds (l[i := d]) p s + (if ld_path d = p \<and> ld_sid d = s then ld_ref_count (l ! i) else 0) =
    holds l p s + (if ld_path d = p \<and> ld_sid d = s then ld_ref_count d else 0)"
proof -
  have "holds l p s = holds (take i l @ l ! i # drop (Suc i) l) p s"
    using holds_split(1) [OF assms(1)] by simp
  with assms show ?thesis by (simp add: holds_split(2))
qed

lemma holds_remove:
  assumes "i < length l"
  shows "holds l p s = holds (take i l @ drop (Suc i) l) p s +
    (if ld_path (l ! i) = p \<and> ld_sid (l ! i) = s then ld_ref_count (l ! i) else 0)"
proof -
  have "holds l p s = holds (take i l @ l ! i # drop (Suc i) l) p s"
    using holds_split(1) [OF assms] by simp
  then show ?thesis by simp
qed

lemma holds_pos: "holds l p s > 0 \<longleftrightarrow> (\<exists>d\<in>set l. ld_path d = p \<and> ld_sid d = s \<and> ld_ref_count d > 0)"
  by (induction l) auto

lemma holds_filter_sid: "holds (filter (\<lambda>d. ld_sid d \<noteq> sid) l) p s = (if s = sid then 0 else holds l p s)"
  by (induction l) auto

lemma try_lock_holds:
  assumes "refs_pos l" and "try_lock now fresh l req mutex = Inr (l', r)"
  shows "holds l' p s = holds (live now l) p s +
    (if r = Inr () \<and> p = fix_path (req_path req) \<and> s = req_sid req then 1 else 0)"
  using assms
proof (cases rule: try_lock_cases)
  case (counted i d)
  note d = enum_find_0 [OF counted(1)]
  with holds_update [of i "live now l" "ref_lock (req_expired req) d" p s] counted show ?thesis
    by (auto split: if_splits)
qed auto

text \<open>Unlocking a path looks at the first lock on it only. Without an owner in common the session of a later
  lock is refused.\<close>

lemma unlock_by_path_counts:
  assumes "refs_pos l" and "unlock_by_path l path sid = Inr l'"
  shows "refs_pos l' \<and> holds l (fix_path path) sid > 0 \<and>
    (\<forall>p s. holds l' p s = holds l p s - (if p = fix_path path \<and> s = sid then 1 else 0))"
proof -
  from assms(2) obtain i d where id: "enum_find (\<lambda>item. fix_path path = ld_path item) 0 l = Some (i, d)"
    and sid: "ld_sid d = sid"
    by (auto simp: unlock_by_path_def Let_def rbind_eq_Inr split: option.splits if_splits)
  note d = enum_find_0 [OF id]
  have dp: "ld_path d = fix_path path" using d(3) by simp
  have pos: "ld_ref_count d > 0" using assms(1) d(4) by (auto simp: refs_pos_def list_all_iff)
  have held: "holds l (fix_path path) sid > 0" using sid d(4) dp pos unfolding holds_pos by metis
  show ?thesis
  proof (cases "ld_ref_count d = 1")
    case True
    have l': "l' = take i l @ drop (Suc i) l"
      using True id sid d(1) assms(2) by (simp add: unlock_by_path_def Let_def vec_remove_def)
    have "refs_pos l'"
      using assms(1) by (auto simp: l' refs_pos_def list_all_iff dest: in_set_takeD in_set_dropD)
    moreover have "holds l' p s = holds l p s - (if p = fix_path path \<and> s = sid then 1 else 0)" for p s
      using holds_remove [OF d(1), of p s] d(2) dp True sid by (auto simp: l')
    ultimately show ?thesis using held by blast
  next
    case False
    let ?d = "d\<lparr>ld_ref_count := ld_ref_count d - 1\<rparr>"
    have l': "l' = l[i := ?d]"
      using False id sid d(1) pos assms(2) by (simp add: unlock_by_path_def Let_def)
    have "refs_pos l'"
      using assms(1) False pos unfolding l' by (intro refs_pos_update) auto
    moreover have "holds l' p s = holds l p s - (if p = fix_path path \<and> s = sid then 1 else 0)" for p s
      using holds_update [of i l ?d p s] d(1,2) dp False pos sid by (auto simp: l')
    ultimately show ?thesis using held by blast
  qed
qed

lemma unlock_by_path_held:
  assumes "refs_pos l" and "exclusive l" and "holds l (fix_path path) sid > 0"
  shows "\<exists>l'. unlock_by_path l path sid = Inr l'"
proof (cases "enum_find (\<lambda>item. fix_path path = ld_path item) 0 l")
  case None
  with assms(3) show ?thesis unfolding holds_pos by (auto simp: enum_find_None)
next
  case (Some id)
  obtain i d where id: "id = (i, d)" by (cases id)
  note d = enum_find_0 [OF Some [unfolded id]]
  have pos: "ld_ref_count d > 0" using assms(1) d(4) by (auto simp: refs_pos_def list_all_iff)
  from assms(3) obtain e where e: "e \<in> set l" "ld_path e = fix_path path" "ld_sid e = sid" unfolding holds_pos by blast
  have "ld_sid e = ld_sid d" by (rule exclusiveD [OF assms(2) e(1) d(4)]) (use d(3) e(2) in simp)
  with Some id e(3) pos d(1) show ?thesis by (simp add: unlock_by_path_def Let_def vec_remove_def)
qed

subsection \<open>Requests in a batch\<close>

definition fixed :: "path_lock_request \<Rightarrow> path_lock_request" where
  "fixed req = req\<lparr>req_path := fix_path (req_path req)\<rparr>"

fun planned :: "path_lock_list \<Rightarrow> path_lock_request \<times> nat option \<Rightarrow> bool" where
  "planned l (req, None) = True"
| "planned l (req, Some i) \<longleftrightarrow> i < length l \<and> ld_path (l ! i) = req_path req \<and> ld_sid (l ! i) = req_sid req"

lemma lock_list_check_cases:
  "lock_list_check l reqs = Inl (Err bucky_error_code.AlreadyExists) \<or>
   (\<exists>all. lock_list_check l reqs = Inr all \<and> map fst all = map fixed reqs \<and> list_all (planned l) all)"
proof (induction reqs)
  case (Cons req reqs)
  show ?case
  proof (cases "enum_find (overlaps (fix_path (req_path req))) 0 l")
    case None
    with Cons show ?thesis by (auto simp: Let_def fixed_def)
  next
    case (Some id)
    obtain i d where id: "id = (i, d)" by (cases id)
    from enum_find_0 [OF Some [unfolded id]] Cons Some id show ?thesis
      by (auto simp: Let_def fixed_def)
  qed
qed simp

lemma planned_mono:
  assumes "planned l a" and "length l \<le> length l'"
    and "\<And>i. i < length l \<Longrightarrow> ld_path (l' ! i) = ld_path (l ! i) \<and> ld_sid (l' ! i) = ld_sid (l ! i)"
  shows "planned l' a"
  using assms by (cases "(l, a)" rule: planned.cases) auto

lemma lock_list_apply_holds:
  assumes "list_all (planned l) all" and "refs_pos l"
  shows "\<exists>l'. lock_list_apply fresh l all = Inr l' \<and> refs_pos l' \<and>
    (\<forall>p s. holds l' p s = holds l p s +
       length (filter (\<lambda>r. req_path r = p \<and> req_sid r = s) (map fst all)))"
  using assms
proof (induction all arbitrary: l fresh)
  case (Cons a all)
  obtain req idx where a: "a = (req, idx)" by (cases a)
  show ?case
  proof (cases idx)
    case None
    let ?l = "l @ [new_lock (req_path req) req fresh]"
    have "list_all (planned ?l) all" using Cons.prems(1)
      by (auto simp: list_all_iff nth_append intro: planned_mono)
    with Cons.IH [of ?l "Suc fresh"] Cons.prems None a show ?thesis by auto
  next
    case (Some i)
    let ?l = "l[i := ref_lock (req_expired req) (l ! i)]"
    from Cons.prems Some a have i: "i < length l" "ld_path (l ! i) = req_path req"
      "ld_sid (l ! i) = req_sid req" by auto
    have "planned ?l x" if "planned l x" for x
      by (rule planned_mono [OF that]) (use i in \<open>auto simp: nth_list_update\<close>)
    then have "list_all (planned ?l) all" using Cons.prems(1) by (auto simp: list_all_iff)
    with Cons.IH [of ?l fresh] Cons.prems(2) obtain l' where l': "lock_list_apply fresh ?l all = Inr l'"
      "refs_pos l'" and h: "\<And>p s. holds l' p s = holds ?l p s +
        length (filter (\<lambda>r. req_path r = p \<and> req_sid r = s) (map fst all))"
      by (auto simp: refs_pos_update)
    have "holds l' p s = holds l p s + length (filter (\<lambda>r. req_path r = p \<and> req_sid r = s) (map fst (a # all)))"
      for p s
      using h [of p s] holds_update [of i l "ref_lock (req_expired req) (l ! i)" p s] i a by auto
    with l' Some a i show ?thesis by auto
  qed
qed simp

lemma lock_list_cases:
  assumes "refs_pos l" and "reqs \<noteq> []"
  obtains (refused) "lock_list now fresh l reqs = Inr (live now l, Inl (Err bucky_error_code.AlreadyExists))"
    | (granted) l' where "lock_list now fresh l reqs = Inr (l', Inr ())" and "refs_pos l'"
      and "\<And>p s. holds l' p s = holds (live now l) p s +
        length (filter (\<lambda>r. fix_path (req_path r) = p \<and> req_sid r = s) reqs)"
proof -
  from lock_list_check_cases [of "live now l" reqs] show ?thesis
  proof
    assume "lock_list_check (live now l) reqs = Inl (Err bucky_error_code.AlreadyExists)"
    with assms show ?thesis
      by (intro refused) (simp add: lock_list_def remove_expired_live)
  next
    assume "\<exists>all. lock_list_check (live now l) reqs = Inr all \<and> map fst all = map fixed reqs \<and>
      list_all (planned (live now l)) all"
    then obtain all where all: "lock_list_check (live now l) reqs = Inr all"
      "map fst all = map fixed reqs" "list_all (planned (live now l)) all" by blast
    from lock_list_apply_holds [OF all(3), of fresh] assms(1) obtain l' where l':
      "lock_list_apply fresh (live now l) all = Inr l'" "refs_pos l'"
      "\<And>p s. holds l' p s = holds (live now l) p s +
        length (filter (\<lambda>r. req_path r = p \<and> req_sid r = s) (map fst all))"
      by auto
    show ?thesis
    proof (rule granted)
      show "lock_list now fresh l reqs = Inr (l', Inr ())"
        using assms all(1) l'(1) by (simp add: lock_list_def remove_expired_live)
      show "holds l' p s = holds (live now l) p s +
          length (filter (\<lambda>r. fix_path (req_path r) = p \<and> req_sid r = s) reqs)" for p s
        unfolding l'(3) all(2) by (simp add: filter_map comp_def fixed_def)
    qed (rule l'(2))
  qed
qed

subsection \<open>The system of sessions\<close>

text \<open>
  The lock list with the tasks inside \<open>ObjectMapPathLock::lock\<close>, whose loop is: call \<open>try_lock\<close> with the
  mutex held, if any; on failure wait for the mutex of the lock in the way, take it, and try again.
  A mutex is held by the entry of the list it belongs to or by the one task that took it.
\<close>

datatype task = Trying path_lock_request "nat option" | Waiting path_lock_request nat

record lock_sys =
  locks :: path_lock_list
  tasks :: "nat \<Rightarrow> task option"
  next_mutex :: nat

definition task_holds :: "lock_sys \<Rightarrow> nat \<Rightarrow> nat \<Rightarrow> bool" where
  "task_holds st t m \<longleftrightarrow> (\<exists>req. tasks st t = Some (Trying req (Some m)))"

inductive lock_step :: "lock_sys \<Rightarrow> lock_sys \<Rightarrow> bool" where
  call_lock:
    "tasks st t = None \<Longrightarrow> lock_step st (st\<lparr>tasks := (tasks st)(t \<mapsto> Trying req None)\<rparr>)"
| attempt_ok:
    "tasks st t = Some (Trying req m) \<Longrightarrow>
     try_lock now (next_mutex st) (locks st) req m = Inr (l, Inr ()) \<Longrightarrow>
     lock_step st (st\<lparr>locks := l, tasks := (tasks st)(t := None), next_mutex := Suc (next_mutex st)\<rparr>)"
| attempt_blocked:
    "tasks st t = Some (Trying req m) \<Longrightarrow>
     try_lock now (next_mutex st) (locks st) req m = Inr (l, Inl lock) \<Longrightarrow>
     lock_step st (st\<lparr>locks := l, tasks := (tasks st)(t \<mapsto> Waiting req lock)\<rparr>)"
| acquire:
    "tasks st t = Some (Waiting req lock) \<Longrightarrow> lock \<notin> ld_mutex ` set (locks st) \<Longrightarrow>
     (\<And>t'. \<not> task_holds st t' lock) \<Longrightarrow>
     lock_step st (st\<lparr>tasks := (tasks st)(t \<mapsto> Trying req (Some lock))\<rparr>)"
| do_try_lock:
    "shared_try_lock now (next_mutex st) (locks st) req = Inr (l, r) \<Longrightarrow>
     lock_step st (st\<lparr>locks := l, next_mutex := Suc (next_mutex st)\<rparr>)"
| do_try_lock_list:
    "try_lock_list now (next_mutex st) (locks st) reqs = Inr (l, r) \<Longrightarrow>
     lock_step st (st\<lparr>locks := l, next_mutex := next_mutex st + length reqs\<rparr>)"
| do_unlock:
    "unlock now (locks st) ureq = Inr (l, r) \<Longrightarrow> lock_step st (st\<lparr>locks := l\<rparr>)"

inductive lock_reachable :: "lock_sys \<Rightarrow> bool" where
  initial: "lock_reachable \<lparr>locks = [], tasks = (\<lambda>_. None), next_mutex = 0\<rparr>"
| step: "lock_reachable st \<Longrightarrow> lock_step st st' \<Longrightarrow> lock_reachable st'"

text \<open>Every mutex has one holder, and none of a mutex yet to be created.\<close>

definition lock_inv :: "lock_sys \<Rightarrow> bool" where
  "lock_inv st \<longleftrightarrow>
     refs_pos (locks st) \<and>
     distinct (map ld_mutex (locks st)) \<and>
     (\<forall>d\<in>set (locks st). ld_mutex d < next_mutex st) \<and>
     (\<forall>t m. task_holds st t m \<longrightarrow> m < next_mutex st \<and> m \<notin> ld_mutex ` set (locks st)) \<and>
     (\<forall>t t' m. task_holds st t m \<longrightarrow> task_holds st t' m \<longrightarrow> t = t') \<and>
     (\<forall>t req m. tasks st t = Some (Waiting req m) \<longrightarrow> m < next_mutex st)"

text \<open>What the operations do to the mutexes of the list.\<close>

abbreviation mutexes :: "path_lock_list \<Rightarrow> nat list" where
  "mutexes l \<equiv> map ld_mutex l"

lemma subseq_live: "subseq (mutexes (live now l)) (mutexes l)"
  unfolding live_def by (rule subseq_map) (rule subseq_filter_left)

lemma subseq_set: "subseq xs ys \<Longrightarrow> set xs \<subseteq> set ys"
  by (induction rule: list_emb.induct) auto

lemma subseq_distinct: "subseq xs ys \<Longrightarrow> distinct ys \<Longrightarrow> distinct xs"
proof (induction rule: list_emb.induct)
  case (list_emb_Cons2 x y xs ys)
  then show ?case using subseq_set [of xs ys] by auto
qed auto

lemma mutexes_update: "i < length l \<Longrightarrow> ld_mutex d = ld_mutex (l ! i) \<Longrightarrow> mutexes (l[i := d]) = mutexes l"
  by (simp add: map_update list_update_same_conv)

lemma unlock_by_path_total:
  assumes "refs_pos l"
  obtains e where "unlock_by_path l path sid = Inl (Err e)"
    | l' where "unlock_by_path l path sid = Inr l'" and "refs_pos l'"
      and "subseq (mutexes l') (mutexes l)"
proof (cases "enum_find (\<lambda>item. fix_path path = ld_path item) 0 l")
  case None
  then show ?thesis by (intro that(1)) (simp add: unlock_by_path_def)
next
  case (Some id)
  obtain i d where id: "id = (i, d)" by (cases id)
  note d = enum_find_0 [OF Some [unfolded id]]
  have pos: "ld_ref_count d > 0" using assms d(4) by (auto simp: refs_pos_def list_all_iff)
  let ?d = "d\<lparr>ld_ref_count := ld_ref_count d - 1\<rparr>"
  consider "ld_sid d \<noteq> sid" | "ld_sid d = sid" "ld_ref_count d = 1" | "ld_sid d = sid" "ld_ref_count d > 1"
    using pos by linarith
  then show ?thesis
  proof cases
    case 1
    then show ?thesis using Some id pos by (intro that(1)) (simp add: unlock_by_path_def)
  next
    case 2
    let ?l = "take i l @ drop (Suc i) l"
    have "subseq ?l (take i l @ drop i l)"
      using d(1) by (intro list_emb_append_mono) (auto simp: Cons_nth_drop_Suc [symmetric] subseq_Cons')
    then have "subseq (mutexes ?l) (mutexes l)" by (intro subseq_map) simp
    moreover have "unlock_by_path l path sid = Inr ?l"
      using 2 Some id d(1) by (simp add: unlock_by_path_def Let_def vec_remove_def)
    moreover have "refs_pos ?l"
      using assms by (auto simp: refs_pos_def list_all_iff dest: in_set_takeD in_set_dropD)
    ultimately show ?thesis by (intro that(2))
  next
    case 3
    have "unlock_by_path l path sid = Inr (l[i := ?d])"
      using 3 Some id d(1) by (simp add: unlock_by_path_def Let_def)
    moreover have "refs_pos (l[i := ?d])" using assms 3 by (intro refs_pos_update) auto
    moreover have "mutexes (l[i := ?d]) = mutexes l" using d by (intro mutexes_update) auto
    ultimately show ?thesis by (intro that(2)) auto
  qed
qed

lemma unlock_total:
  assumes "refs_pos l"
  obtains l' r where "unlock now l req = Inr (l', r)" and "refs_pos l'"
    and "subseq (mutexes l') (mutexes l)"
proof (cases "unlock_path req")
  case None
  let ?l = "filter (\<lambda>d. ld_sid d \<noteq> unlock_sid req) (live now l)"
  have "unlock now l req = Inr (?l, Inr ())"
    using None assms by (simp add: unlock_def remove_expired_live unlock_by_sid_filter)
  moreover have "subseq (mutexes ?l) (mutexes l)"
    using subseq_map [OF subseq_filter_left] subseq_live by (rule subseq_order.trans)
  ultimately show ?thesis using assms by (intro that) auto
next
  case (Some path)
  have "refs_pos (live now l)" using assms by simp
  then show ?thesis
  proof (rule unlock_by_path_total [of _ path "unlock_sid req"])
    fix e
    assume "unlock_by_path (live now l) path (unlock_sid req) = Inl (Err e)"
    then have "unlock now l req = Inr (live now l, Inl (Err e))"
      using Some assms by (simp add: unlock_def remove_expired_live)
    then show ?thesis by (rule that) (simp_all add: assms subseq_live)
  next
    fix l'
    assume u: "unlock_by_path (live now l) path (unlock_sid req) = Inr l'" and "refs_pos l'"
      and "subseq (mutexes l') (mutexes (live now l))"
    moreover from u have "unlock now l req = Inr (l', Inr ())"
      using Some assms by (simp add: unlock_def remove_expired_live)
    ultimately show ?thesis using subseq_live by (intro that) (auto intro: subseq_order.trans)
  qed
qed

lemma try_lock_total:
  assumes "refs_pos l"
  obtains l' r where "try_lock now fresh l req m = Inr (l', r)"
  using assms by (cases "try_lock now fresh l req m") (auto simp: try_lock_eq Let_def)

lemma lock_list_apply_mutexes:
  assumes "list_all (planned l) all" and "lock_list_apply fresh l all = Inr l'"
  shows "\<exists>k \<le> length all. mutexes l' = mutexes l @ [fresh..<fresh + k]"
  using assms
proof (induction all arbitrary: l fresh)
  case (Cons a all)
  obtain req idx where a: "a = (req, idx)" by (cases a)
  show ?case
  proof (cases idx)
    case None
    let ?l = "l @ [new_lock (req_path req) req fresh]"
    have "list_all (planned ?l) all" using Cons.prems(1)
      by (auto simp: list_all_iff nth_append intro: planned_mono)
    with Cons None a obtain k where "k \<le> length all" "mutexes l' = mutexes ?l @ [Suc fresh..<Suc fresh + k]"
      by fastforce
    moreover from this have "mutexes l' = mutexes l @ [fresh..<fresh + Suc k]"
      by (simp add: upt_conv_Cons del: upt_Suc)
    ultimately show ?thesis by (intro exI [of _ "Suc k"]) simp
  next
    case (Some i)
    let ?l = "l[i := ref_lock (req_expired req) (l ! i)]"
    from Cons.prems Some a have i: "i < length l" by auto
    have "planned ?l x" if "planned l x" for x
      by (rule planned_mono [OF that]) (use i in \<open>auto simp: nth_list_update\<close>)
    then have "list_all (planned ?l) all" using Cons.prems(1) by (auto simp: list_all_iff)
    with Cons.IH [of ?l fresh] Cons.prems(2) Some a i obtain k where
      "k \<le> length all" "mutexes l' = mutexes ?l @ [fresh..<fresh + k]" by auto
    with i show ?thesis by (auto simp: mutexes_update intro: exI [of _ k])
  qed
qed simp

text \<open>The invariant of a state with another list whose mutexes are old ones, or old ones and new
  ones.\<close>

lemma task_holds_update [simp]: "task_holds (st\<lparr>locks := l, next_mutex := n\<rparr>) = task_holds st"
  by (simp add: task_holds_def fun_eq_iff)

definition mutex_free :: "lock_sys \<Rightarrow> nat \<Rightarrow> bool" where
  "mutex_free st m \<longleftrightarrow> m \<notin> ld_mutex ` set (locks st) \<and> (\<forall>t. \<not> task_holds st t m)"

lemma mutex_free_new: "lock_inv st \<Longrightarrow> next_mutex st \<le> m \<Longrightarrow> mutex_free st m"
  by (force simp: lock_inv_def mutex_free_def)

lemma lock_inv_grow:
  assumes "lock_inv st" and "refs_pos l" and "next_mutex st \<le> n"
    and "mutexes l = ms @ ns" and "subseq ms (mutexes (locks st))" and "distinct ns"
    and "\<And>m. m \<in> set ns \<Longrightarrow> mutex_free st m \<and> m < n"
  shows "lock_inv (st\<lparr>locks := l, next_mutex := n\<rparr>)"
proof -
  from subseq_set [OF assms(5)] have ms: "set ms \<subseteq> ld_mutex ` set (locks st)" by simp
  have set: "ld_mutex ` set l = set ms \<union> set ns"
    using arg_cong [OF assms(4), of set] by simp
  have old: "m < next_mutex st" if "m \<in> set ms" for m
    using that ms assms(1) by (auto simp: lock_inv_def)
  have "set ms \<inter> set ns = {}"
    using assms(7) ms unfolding mutex_free_def by blast
  then have "distinct (mutexes l)"
    using assms(1,4,6) subseq_distinct [OF assms(5)] by (simp add: lock_inv_def)
  moreover have "ld_mutex d < n" if "d \<in> set l" for d
    using that set old assms(3,7) by (metis UnE imageI less_le_trans)
  moreover have "m < n \<and> m \<notin> ld_mutex ` set l" if "task_holds st t m" for t m
    using that assms(1,3,7) ms unfolding set lock_inv_def mutex_free_def
    by (metis UnE less_le_trans subsetD)
  moreover have "m < n" if "tasks st t = Some (Waiting req m)" for t req m
    using that assms(1,3) unfolding lock_inv_def by (metis less_le_trans)
  ultimately show ?thesis
    using assms(1,2) unfolding lock_inv_def by simp
qed

lemma lock_inv_shrink:
  assumes "lock_inv st" and "refs_pos l" and "subseq (mutexes l) (mutexes (locks st))"
  shows "lock_inv (st\<lparr>locks := l\<rparr>)"
proof -
  have "lock_inv (st\<lparr>locks := l, next_mutex := next_mutex st\<rparr>)"
    by (rule lock_inv_grow [where ms = "mutexes l" and ns = "[]"]) (use assms in auto)
  then show ?thesis by simp
qed


lemma lock_inv_drop_task:
  assumes "lock_inv st"
  shows "lock_inv (st\<lparr>tasks := (tasks st)(t := None)\<rparr>)"
    and "lock_inv (st\<lparr>tasks := (tasks st)(t \<mapsto> Trying req None)\<rparr>)"
  using assms unfolding lock_inv_def task_holds_def by (auto split: if_splits)

lemma lock_inv_wait:
  assumes "lock_inv st" and "m < next_mutex st"
  shows "lock_inv (st\<lparr>tasks := (tasks st)(t \<mapsto> Waiting req m)\<rparr>)"
  using assms unfolding lock_inv_def task_holds_def by (auto split: if_splits)

lemma lock_inv_acquire:
  assumes "lock_inv st" and "tasks st t = Some (Waiting req m)" and "m \<notin> ld_mutex ` set (locks st)"
    and "\<And>t'. \<not> task_holds st t' m"
  shows "lock_inv (st\<lparr>tasks := (tasks st)(t \<mapsto> Trying req (Some m))\<rparr>)"
  using assms unfolding lock_inv_def task_holds_def by (auto split: if_splits)

lemma try_lock_inv:
  assumes inv: "lock_inv st" and tl: "try_lock now (next_mutex st) (locks st) req m = Inr (l, r)"
    and m: "\<And>v. m = Some v \<Longrightarrow> mutex_free st v \<and> v < next_mutex st"
  shows "lock_inv (st\<lparr>locks := l, next_mutex := Suc (next_mutex st)\<rparr>)"
    and "r = Inl lock \<Longrightarrow> lock < next_mutex st \<and> subseq (mutexes l) (mutexes (locks st))"
proof -
  have refs: "refs_pos (locks st)" using inv by (simp add: lock_inv_def)
  note grow = lock_inv_grow [OF inv try_lock_refs_pos [OF refs tl], of "Suc (next_mutex st)"]
  from refs tl show "lock_inv (st\<lparr>locks := l, next_mutex := Suc (next_mutex st)\<rparr>)"
  proof (cases rule: try_lock_cases)
    case (blocked i d)
    then show ?thesis
      by (intro grow [where ms = "mutexes l" and ns = "[]"]) (auto simp: subseq_live)
  next
    case (counted i d)
    from enum_find_0 [OF counted(1)] have "mutexes l = mutexes (live now (locks st))"
      unfolding counted(4) by (intro mutexes_update) auto
    then show ?thesis
      by (intro grow [where ms = "mutexes l" and ns = "[]"]) (auto simp: subseq_live)
  next
    case added
    let ?m = "case m of Some v \<Rightarrow> v | None \<Rightarrow> next_mutex st"
    have "mutex_free st ?m \<and> ?m < Suc (next_mutex st)"
      using m mutex_free_new [OF inv] by (cases m) auto
    with added(1) show ?thesis
      by (intro grow [where ms = "mutexes (live now (locks st))" and ns = "[?m]"])
        (auto simp: subseq_live)
  qed
  show "lock < next_mutex st \<and> subseq (mutexes l) (mutexes (locks st))" if "r = Inl lock"
    using refs tl
  proof (cases rule: try_lock_cases)
    case (blocked i d)
    from enum_find_0(4) [OF blocked(1)] have "d \<in> set (locks st)" by (simp add: set_live)
    with blocked that inv show ?thesis by (auto simp: lock_inv_def subseq_live)
  qed (use that in auto)
qed

lemma lock_list_inv:
  assumes inv: "lock_inv st" and step: "lock_list now (next_mutex st) (locks st) reqs = Inr (l, r)"
  shows "lock_inv (st\<lparr>locks := l, next_mutex := next_mutex st + length reqs\<rparr>)"
proof -
  let ?n = "next_mutex st" and ?l = "live now (locks st)"
  have refs: "refs_pos (locks st)" using inv by (simp add: lock_inv_def)
  from step have ne: "reqs \<noteq> []" by (auto simp: lock_list_def)
  from lock_list_check_cases [of ?l reqs] show ?thesis
  proof
    assume "lock_list_check ?l reqs = Inl (Err bucky_error_code.AlreadyExists)"
    with step ne refs have "l = ?l" by (simp add: lock_list_def remove_expired_live)
    with refs show ?thesis
      by (intro lock_inv_grow [OF inv, where ms = "mutexes l" and ns = "[]"]) (auto simp: subseq_live)
  next
    assume "\<exists>all. lock_list_check ?l reqs = Inr all \<and> map fst all = map fixed reqs \<and> list_all (planned ?l) all"
    then obtain all where all: "lock_list_check ?l reqs = Inr all" "map fst all = map fixed reqs"
      "list_all (planned ?l) all" by blast
    from lock_list_apply_holds [OF all(3), of ?n] refs obtain l' where
      l': "lock_list_apply ?n ?l all = Inr l'" "refs_pos l'" by auto
    with step ne refs all have "l = l'" by (simp add: lock_list_def remove_expired_live)
    moreover have "length all = length reqs" using all(2) by (metis length_map)
    moreover obtain k where "k \<le> length all" "mutexes l' = mutexes ?l @ [?n..<?n + k]"
      using lock_list_apply_mutexes [OF all(3) l'(1)] by blast
    ultimately show ?thesis using l'(2)
      by (intro lock_inv_grow [OF inv, where ms = "mutexes ?l" and ns = "[?n..<?n + k]"])
        (auto simp: subseq_live mutex_free_new [OF inv])
  qed
qed

lemma lock_step_inv: "lock_step st st' \<Longrightarrow> lock_inv st \<Longrightarrow> lock_inv st'"
proof (induction rule: lock_step.induct)
  case (attempt_ok st t req m now l)
  let ?st = "st\<lparr>tasks := (tasks st)(t := None)\<rparr>"
  have "mutex_free ?st v \<and> v < next_mutex ?st" if "m = Some v" for v
    using attempt_ok(1,3) that by (auto simp: lock_inv_def mutex_free_def task_holds_def)
  with lock_inv_drop_task(1) [OF attempt_ok(3)] attempt_ok(2)
  have "lock_inv (?st\<lparr>locks := l, next_mutex := Suc (next_mutex ?st)\<rparr>)"
    by (intro try_lock_inv(1)) auto
  moreover have "?st\<lparr>locks := l, next_mutex := Suc (next_mutex ?st)\<rparr> =
      st\<lparr>locks := l, tasks := (tasks st)(t := None), next_mutex := Suc (next_mutex st)\<rparr>"
    by (cases st) simp
  ultimately show ?case by (rule back_subst [of lock_inv])
next
  case (attempt_blocked st t req m now l lock)
  let ?st = "st\<lparr>tasks := (tasks st)(t := None)\<rparr>"
  have "mutex_free ?st v \<and> v < next_mutex ?st" if "m = Some v" for v
    using attempt_blocked(1,3) that by (auto simp: lock_inv_def mutex_free_def task_holds_def)
  with lock_inv_drop_task(1) [OF attempt_blocked(3)] attempt_blocked(2)
  have "lock < next_mutex ?st \<and> subseq (mutexes l) (mutexes (locks ?st))"
    by (intro try_lock_inv(2)) auto
  then have lock: "lock < next_mutex st" and sub: "subseq (mutexes l) (mutexes (locks st))" by simp_all
  have "refs_pos (locks st)" using attempt_blocked(3) by (simp add: lock_inv_def)
  from try_lock_refs_pos [OF this attempt_blocked(2)] have "lock_inv (st\<lparr>locks := l\<rparr>)"
    using sub by (rule lock_inv_shrink [OF attempt_blocked(3)])
  from lock_inv_wait [OF this, of lock t req] lock show ?case by simp
next
  case (do_try_lock now st req l r)
  then obtain r' where "try_lock now (next_mutex st) (locks st) req None = Inr (l, r')"
    by (auto simp: shared_try_lock_def rbind_eq_Inr)
  from try_lock_inv(1) [OF do_try_lock(2) this] show ?case by simp
next
  case (do_try_lock_list now st reqs l r)
  then show ?case
    using lock_list_inv [of st now "sort_key req_path reqs" l r] by (simp add: try_lock_list_def)
next
  case (do_unlock now st ureq l r)
  then have "refs_pos (locks st)" by (simp add: lock_inv_def)
  then show ?case
    by (rule unlock_total [where now = now and req = ureq])
      (use do_unlock in \<open>auto intro: lock_inv_shrink\<close>)
qed (simp_all add: lock_inv_drop_task lock_inv_acquire)

lemma lock_reachable_inv: "lock_reachable st \<Longrightarrow> lock_inv st"
  by (induction rule: lock_reachable.induct)
    (auto simp: lock_step_inv, simp add: lock_inv_def task_holds_def refs_pos_def)

subsection \<open>Properties\<close>

text \<open>A path lock in use: session 1 holds a lock, and a task of session 2 waits for it.\<close>

definition contended :: lock_sys where
  "contended = \<lparr>locks = [new_lock (fix_path (str ''/a'')) \<lparr>req_path = str ''/a'', req_sid = 1, req_expired = 0\<rparr> 0],
     tasks = [2 \<mapsto> Waiting \<lparr>req_path = str ''/a/b'', req_sid = 2, req_expired = 0\<rparr> 0], next_mutex = 1\<rparr>"

lemma contended_reachable: "lock_reachable contended"
proof -
  let ?r1 = "\<lparr>req_path = str ''/a'', req_sid = 1, req_expired = 0\<rparr>" and ?r2 = "\<lparr>req_path = str ''/a/b'', req_sid = 2, req_expired = 0\<rparr>"
  let ?l = "[new_lock (fix_path (str ''/a'')) ?r1 0]"
  let ?s1 = "\<lparr>locks = ?l, tasks = (\<lambda>_. None), next_mutex = 1\<rparr>"
  let ?s2 = "?s1\<lparr>tasks := (tasks ?s1)(2 \<mapsto> Trying ?r2 None)\<rparr>"
  note eval = try_lock_eq live_def is_expired_def overlaps_def shared_try_lock_def fix_path_def path_segs_def str_def slash_def
  have "shared_try_lock 0 0 [] ?r1 = Inr (?l, Inr ())"
    by (simp add: eval refs_pos_def split: unit.split)
  from lock_step.do_try_lock [where st = "\<lparr>locks = [], tasks = (\<lambda>_. None), next_mutex = 0\<rparr>"] this
  have "lock_step \<lparr>locks = [], tasks = (\<lambda>_. None), next_mutex = 0\<rparr> ?s1" by fastforce
  with lock_reachable.initial have r1: "lock_reachable ?s1" by (rule lock_reachable.step)
  have "lock_step ?s1 ?s2" by (rule lock_step.call_lock) simp
  with r1 have r2: "lock_reachable ?s2" by (rule lock_reachable.step)
  have "try_lock 0 1 ?l ?r2 None = Inr (?l, Inl 0)" by (simp add: eval refs_pos_def)
  with lock_step.attempt_blocked [of ?s2 2 ?r2 None 0 ?l 0] have "lock_step ?s2 contended" by (simp add: contended_def)
  with r2 show ?thesis by (rule lock_reachable.step)
qed

text \<open>C15: In every state that the sessions can reach, whatever requests they make and whenever locks
  expire, the operations of the lock fail no assertion and no index, except for an empty batch, which
  is asserted against: each returns. Every mutex has at most one holder: the locks have different
  mutexes, a task holds none of these, and no two tasks hold the same.\<close>

theorem path_lock_never_panics:
  assumes "lock_reachable st"
  shows "(\<exists>l r. try_lock now fresh (locks st) req m = Inr (l, r)) \<and>
    (\<exists>l r. unlock now (locks st) ureq = Inr (l, r)) \<and>
    (\<exists>l r. try_lock_list now fresh (locks st) (req # reqs) = Inr (l, r)) \<and>
    try_lock_list now fresh (locks st) [] = Inl Panic \<and>
    safe (try_enter_path (locks st) path sid) \<and>
    distinct (map ld_mutex (locks st)) \<and>
    (\<forall>t v. task_holds st t v \<longrightarrow> v \<notin> ld_mutex ` set (locks st)) \<and>
    (\<forall>t t' v. task_holds st t v \<longrightarrow> task_holds st t' v \<longrightarrow> t = t')"
proof -
  have inv: "lock_inv st" using assms by (rule lock_reachable_inv)
  then have refs: "refs_pos (locks st)" by (simp add: lock_inv_def)
  have "sort_key req_path (req # reqs) \<noteq> []"
    using length_sort [of req_path "req # reqs"] by fastforce
  with refs have "\<exists>l r. try_lock_list now fresh (locks st) (req # reqs) = Inr (l, r)"
    unfolding try_lock_list_def by (rule lock_list_cases [where now = now and fresh = fresh]) auto
  moreover have "\<exists>l r. try_lock now fresh (locks st) req m = Inr (l, r)"
    using try_lock_total [OF refs] by metis
  moreover have "\<exists>l r. unlock now (locks st) ureq = Inr (l, r)"
    using unlock_total [OF refs] by metis
  moreover have "safe (try_enter_path (locks st) path sid)"
    by (auto simp: try_enter_path_def Let_def split: option.splits)
  moreover have "try_lock_list now fresh (locks st) [] = Inl Panic"
    by (simp add: try_lock_list_def lock_list_def rassert_def)
  moreover have "distinct (map ld_mutex (locks st))" "\<forall>t v. task_holds st t v \<longrightarrow> v \<notin> ld_mutex ` set (locks st)"
    "\<forall>t t' v. task_holds st t v \<longrightarrow> task_holds st t' v \<longrightarrow> t = t'" using inv unfolding lock_inv_def by blast+
  ultimately show ?thesis by blast
qed

theorem path_lock_never_panics_witness:
  "lock_reachable contended \<and>
   (\<exists>l r. unlock 0 (locks contended) \<lparr>unlock_path = Some (str ''/a''), unlock_sid = 1\<rparr> = Inr (l, r)) \<and>
   (\<exists>l r. try_lock 0 1 (locks contended) \<lparr>req_path = str ''/a/b'', req_sid = 2, req_expired = 0\<rparr> None = Inr (l, r))"
  using path_lock_never_panics [OF contended_reachable, where now = 0 and fresh = 1 and m = None
      and ureq = "\<lparr>unlock_path = Some (str ''/a''), unlock_sid = 1\<rparr>" and req = "\<lparr>req_path = str ''/a/b'', req_sid = 2, req_expired = 0\<rparr>"]
    contended_reachable by blast

text \<open>On normalised paths the textual prefix test decides ancestry: for paths other than the root,
  two paths overlap exactly when the segments of one are an initial part of the segments of the
  other, so that \<open>/a/b\<close> covers \<open>/a/b/c\<close> and not \<open>/a/bc\<close>.\<close>

theorem fix_path_ancestry:
  assumes "path_segs p \<noteq> []" and "path_segs (ld_path d) \<noteq> []" and "fix_path (ld_path d) = ld_path d"
  shows "overlaps (fix_path p) d \<longleftrightarrow>
    prefix (path_segs (ld_path d)) (path_segs p) \<or> prefix (path_segs p) (path_segs (ld_path d))"
  using prefix_fix_path [OF assms(1,2)] prefix_fix_path [OF assms(2,1)] assms(3)
  by (simp add: overlaps_def)

theorem fix_path_ancestry_witness:
  "\<not> overlaps (fix_path (str ''/a/bc'')) (new_lock (fix_path (str ''a/b'')) \<lparr>req_path = [], req_sid = 1, req_expired = 0\<rparr> 0)"
  using fix_path_ancestry [of "str ''/a/bc''"
      "new_lock (fix_path (str ''a/b'')) \<lparr>req_path = [], req_sid = 1, req_expired = 0\<rparr> 0"]
  by (simp add: path_segs_fix_path) (simp add: path_segs_def str_def slash_def)

text \<open>A locked subtree is closed to other sessions: while a session holds an unexpired lock on a
  path, a request of another session for that path or any path below it fails, changes nothing but
  expired locks, and names a mutex to wait for.\<close>

theorem locked_subtree_refuses:
  assumes "refs_pos l" and "exclusive l" and "d \<in> set l" and "\<not> is_expired now d"
    and "prefix (ld_path d) (fix_path (req_path req))" and "ld_sid d \<noteq> req_sid req"
  shows "\<exists>m. try_lock now fresh l req mutex = Inr (live now l, Inl m)"
proof -
  let ?p = "fix_path (req_path req)"
  have d: "d \<in> set (live now l)" "overlaps ?p d"
    using assms(3-5) by (simp_all add: set_live overlaps_def)
  then obtain i e where e: "enum_find (overlaps ?p) 0 (live now l) = Some (i, e)"
    using enum_find_None [of "overlaps ?p" 0 "live now l"] by (cases "enum_find (overlaps ?p) 0 (live now l)") auto
  have "ld_sid d = ld_sid e"
    using first_match_owner [OF exclusive_live [OF assms(2)] e d] assms(5) by simp
  with e assms(1,6) show ?thesis by (simp add: try_lock_eq)
qed

theorem locked_subtree_refuses_witness:
  "\<exists>l m. try_lock 0 1
     [new_lock (fix_path (str ''/a'')) \<lparr>req_path = [], req_sid = 1, req_expired = 0\<rparr> 0]
     \<lparr>req_path = str ''/a/b'', req_sid = 2, req_expired = 0\<rparr> None = Inr (l, Inl m)"
  using locked_subtree_refuses [of
      "[new_lock (fix_path (str ''/a'')) \<lparr>req_path = [], req_sid = 1, req_expired = 0\<rparr> 0]"
      "new_lock (fix_path (str ''/a'')) \<lparr>req_path = [], req_sid = 1, req_expired = 0\<rparr> 0" 0
      "\<lparr>req_path = str ''/a/b'', req_sid = 2, req_expired = 0\<rparr>" 1 None]
  by (auto simp: exclusive_def is_expired_def fix_path_def path_segs_def str_def slash_def)

text \<open>C16: Locks stay exclusive: a request keeps the locks on a path and below it in one hand, provided
  its own session holds no lock strictly below the requested path.\<close>

theorem try_lock_exclusive:
  assumes "refs_pos l" and "exclusive l"
    and "\<forall>d\<in>set l. ld_sid d = req_sid req \<longrightarrow> prefix (fix_path (req_path req)) (ld_path d) \<longrightarrow>
      ld_path d = fix_path (req_path req)"
    and "try_lock now fresh l req mutex = Inr (l', r)"
  shows "exclusive l'"
  using assms(1,4)
proof (cases rule: try_lock_cases)
  case (counted i d)
  with enum_find_0 [OF counted(1)] exclusive_live [OF assms(2)] show ?thesis
    by (auto intro: exclusive_update)
next
  case added
  let ?p = "fix_path (req_path req)"
  have "ld_sid e = req_sid req" if e: "e \<in> set (live now l)" "overlaps ?p e" for e
  proof -
    from e obtain i d where d: "enum_find (overlaps ?p) 0 (live now l) = Some (i, d)"
      using enum_find_None [of "overlaps ?p" 0 "live now l"]
      by (cases "enum_find (overlaps ?p) 0 (live now l)") auto
    note first = enum_find_0 [OF d]
    from added(3) [OF d] have sid: "ld_sid d = req_sid req" by simp
    with assms(3) first(3,4) have "prefix (ld_path d) ?p"
      by (auto simp: overlaps_def set_live)
    then show ?thesis
      using first_match_owner [OF exclusive_live [OF assms(2)] d e] sid by simp
  qed
  with exclusive_live [OF assms(2)] show ?thesis unfolding added(1) by (intro exclusive_snoc) auto
qed (use assms(2) exclusive_live in auto)

theorem try_lock_exclusive_witness:
  "\<exists>l' r. try_lock 0 1
     [new_lock (fix_path (str ''/a'')) \<lparr>req_path = [], req_sid = 1, req_expired = 0\<rparr> 0]
     \<lparr>req_path = str ''/a/b'', req_sid = 1, req_expired = 0\<rparr> None = Inr (l', r) \<and> exclusive l'"
proof -
  let ?l = "[new_lock (fix_path (str ''/a'')) \<lparr>req_path = [], req_sid = 1, req_expired = 0\<rparr> 0]"
  let ?req = "\<lparr>req_path = str ''/a/b'', req_sid = 1, req_expired = 0\<rparr>"
  have "refs_pos ?l" by simp
  then obtain l' r where t: "try_lock 0 1 ?l ?req None = Inr (l', r)" by (rule try_lock_total)
  have "exclusive l'"
    by (rule try_lock_exclusive [OF _ _ _ t])
      (auto simp: exclusive_def fix_path_def path_segs_def str_def slash_def)
  with t show ?thesis by blast
qed

text \<open>C36: The proviso is needed. A session that holds a lock below a path obtains the path itself although
  another session holds another lock below it, because only the first overlapping lock is looked at:
  from the empty list, \<open>s\<close> locks \<open>p\<close>, \<open>t\<close> locks \<open>q\<close>, neither above the other, and \<open>s\<close> is then granted
  any path above both. Now \<open>s\<close> holds the path and \<open>t\<close> a path below it.\<close>

theorem try_lock_ancestor_not_exclusive:
  assumes "s \<noteq> t" and "\<not> prefix (fix_path p) (fix_path q)" and "\<not> prefix (fix_path q) (fix_path p)"
    and "prefix (fix_path a) (fix_path p)" and "prefix (fix_path a) (fix_path q)"
  shows "\<exists>l1 l2 l3.
    try_lock now 0 [] \<lparr>req_path = p, req_sid = s, req_expired = 0\<rparr> None = Inr (l1, Inr ()) \<and>
    try_lock now 1 l1 \<lparr>req_path = q, req_sid = t, req_expired = 0\<rparr> None = Inr (l2, Inr ()) \<and>
    try_lock now 2 l2 \<lparr>req_path = a, req_sid = s, req_expired = 0\<rparr> None = Inr (l3, Inr ()) \<and>
    exclusive l2 \<and> holds l3 (fix_path a) s = 1 \<and> holds l3 (fix_path q) t = 1 \<and> \<not> exclusive l3"
proof -
  let ?r = "\<lambda>p s. \<lparr>req_path = p, req_sid = s, req_expired = 0\<rparr>"
  let ?l = "\<lambda>p s m. new_lock (fix_path p) (?r p s) m"
  let ?l2 = "[?l p s 0, ?l q t 1]"
  have refs: "refs_pos [?l p s 0]" "refs_pos ?l2" "refs_pos []" by (simp_all add: refs_pos_def)
  have ne: "fix_path a \<noteq> fix_path p" "fix_path a \<noteq> fix_path q" using assms(2-5) by auto
  note eval = try_lock_eq live_def is_expired_def overlaps_def
  have "try_lock now 0 [] (?r p s) None = Inr ([?l p s 0], Inr ())" using refs(3) by (simp add: eval)
  moreover have "try_lock now 1 [?l p s 0] (?r q t) None = Inr (?l2, Inr ())"
    using refs(1) assms(2,3) by (simp add: eval)
  moreover have "try_lock now 2 ?l2 (?r a s) None = Inr (?l2 @ [?l a s 2], Inr ())"
    using refs(2) assms(1,4) ne by (simp add: eval)
  moreover have "exclusive ?l2" "\<not> exclusive (?l2 @ [?l a s 2])" using assms by (auto simp: exclusive_def)
  moreover have "holds (?l2 @ [?l a s 2]) (fix_path a) s = 1" "holds (?l2 @ [?l a s 2]) (fix_path q) t = 1"
    using ne assms(1) by auto
  ultimately show ?thesis by blast
qed

theorem try_lock_ancestor_not_exclusive_witness:
  "\<exists>l1 l2 l3.
    try_lock 0 0 [] \<lparr>req_path = str ''/a/b/c'', req_sid = 1, req_expired = 0\<rparr> None = Inr (l1, Inr ()) \<and>
    try_lock 0 1 l1 \<lparr>req_path = str ''/a/d'', req_sid = 2, req_expired = 0\<rparr> None = Inr (l2, Inr ()) \<and>
    try_lock 0 2 l2 \<lparr>req_path = str ''/a'', req_sid = 1, req_expired = 0\<rparr> None = Inr (l3, Inr ()) \<and>
    exclusive l2 \<and> holds l3 (fix_path (str ''/a'')) 1 = 1 \<and> holds l3 (fix_path (str ''/a/d'')) 2 = 1 \<and> \<not> exclusive l3"
  by (rule try_lock_ancestor_not_exclusive) (simp_all add: fix_path_def path_segs_def str_def slash_def)

text \<open>C20: The lock list implements a table of counts: a granted request counts its path and session up
  by one and a refused one nothing; a path is unlocked only for a session that holds it, which counts
  it down by one, and otherwise nothing changes; unlocking a session clears it. Expired locks leave the
  table first. While overlapping locks belong to one session, every session that holds a path can
  unlock it.\<close>

theorem path_lock_refines_counts:
  assumes "refs_pos l"
  shows "(\<exists>l' r. try_lock now fresh l req mutex = Inr (l', r) \<and>
      (\<forall>p s. holds l' p s = holds (live now l) p s +
        (if r = Inr () \<and> p = fix_path (req_path req) \<and> s = req_sid req then 1 else 0))) \<and>
    (\<exists>l' r. unlock now l \<lparr>unlock_path = Some path, unlock_sid = sid\<rparr> = Inr (l', r) \<and>
      (r = Inr () \<longrightarrow> holds (live now l) (fix_path path) sid > 0) \<and>
      (exclusive l \<longrightarrow> holds (live now l) (fix_path path) sid > 0 \<longrightarrow> r = Inr ()) \<and>
      (\<forall>p s. holds l' p s = holds (live now l) p s - (if r = Inr () \<and> p = fix_path path \<and> s = sid then 1 else 0))) \<and>
    (\<exists>l'. unlock now l \<lparr>unlock_path = None, unlock_sid = sid\<rparr> = Inr (l', Inr ()) \<and>
      (\<forall>p s. holds l' p s = (if s = sid then 0 else holds (live now l) p s)))"
proof (intro conjI)
  show "\<exists>l' r. try_lock now fresh l req mutex = Inr (l', r) \<and>
      (\<forall>p s. holds l' p s = holds (live now l) p s +
        (if r = Inr () \<and> p = fix_path (req_path req) \<and> s = req_sid req then 1 else 0))"
    using try_lock_total [OF assms(1)] try_lock_holds [OF assms(1)] by metis
  show "\<exists>l'. unlock now l \<lparr>unlock_path = None, unlock_sid = sid\<rparr> = Inr (l', Inr ()) \<and>
      (\<forall>p s. holds l' p s = (if s = sid then 0 else holds (live now l) p s))"
    using assms(1) by (simp add: unlock_def remove_expired_live unlock_by_sid_filter holds_filter_sid)
  have refs: "refs_pos (live now l)" using assms by simp
  show "\<exists>l' r. unlock now l \<lparr>unlock_path = Some path, unlock_sid = sid\<rparr> = Inr (l', r) \<and>
      (r = Inr () \<longrightarrow> holds (live now l) (fix_path path) sid > 0) \<and>
      (exclusive l \<longrightarrow> holds (live now l) (fix_path path) sid > 0 \<longrightarrow> r = Inr ()) \<and>
      (\<forall>p s. holds l' p s = holds (live now l) p s - (if r = Inr () \<and> p = fix_path path \<and> s = sid then 1 else 0))"
  proof (cases "unlock_by_path (live now l) path sid")
    case (Inr l')
    with unlock_by_path_counts [OF refs Inr] assms show ?thesis
      by (simp add: unlock_def remove_expired_live)
  next
    case (Inl e)
    moreover obtain x where "e = Err x" using Inl unlock_by_path_total [OF refs, of path sid] by auto
    moreover have "exclusive l \<longrightarrow> \<not> holds (live now l) (fix_path path) sid > 0"
      using unlock_by_path_held [OF refs exclusive_live, of path sid] Inl by force
    ultimately show ?thesis using assms by (auto simp: unlock_def remove_expired_live)
  qed
qed

theorem path_lock_refines_counts_witness:
  "\<exists>l' r. unlock 5 [new_lock (fix_path (str ''/a'')) \<lparr>req_path = [], req_sid = 1, req_expired = 0\<rparr> 0]
     \<lparr>unlock_path = Some (str ''/a''), unlock_sid = 1\<rparr> = Inr (l', r) \<and> r = Inr () \<and> holds l' (fix_path (str ''/a'')) 1 = 0"
proof -
  let ?l = "[new_lock (fix_path (str ''/a'')) \<lparr>req_path = [], req_sid = 1, req_expired = 0\<rparr> 0]"
  have "refs_pos ?l" "exclusive ?l" "live 5 ?l = ?l" by (simp_all add: exclusive_def live_def is_expired_def)
  with path_lock_refines_counts [of ?l 5 0 undefined None "str ''/a''" 1] show ?thesis by auto
qed

text \<open>C23: A batch of requests is all or nothing: it is granted as a whole, every path counted up once per
  request, or refused with \<open>AlreadyExists\<close> and no lock taken.\<close>

theorem lock_list_all_or_nothing:
  assumes "refs_pos l" and "reqs \<noteq> []"
  shows "(\<exists>l'. lock_list now fresh l reqs = Inr (l', Inr ()) \<and>
      (\<forall>p s. holds l' p s = holds (live now l) p s +
        length (filter (\<lambda>r. fix_path (req_path r) = p \<and> req_sid r = s) reqs))) \<or>
    lock_list now fresh l reqs = Inr (live now l, Inl (Err bucky_error_code.AlreadyExists))"
  using assms by (rule lock_list_cases [where now = now and fresh = fresh]) auto

theorem lock_list_all_or_nothing_witness:
  "\<exists>l'. lock_list 0 0 [] [\<lparr>req_path = str ''/a'', req_sid = 1, req_expired = 0\<rparr>] = Inr (l', Inr ()) \<and>
     holds l' (fix_path (str ''/a'')) 1 = 1"
proof -
  let ?reqs = "[\<lparr>req_path = str ''/a'', req_sid = 1, req_expired = 0\<rparr>]"
  have "refs_pos []" by (simp add: refs_pos_def)
  then have "lock_list 0 0 [] ?reqs \<noteq> Inr (live 0 [], Inl (Err bucky_error_code.AlreadyExists))"
    by (simp add: lock_list_def remove_expired_live live_def)
  with lock_list_all_or_nothing [OF \<open>refs_pos []\<close>, of ?reqs 0 0] show ?thesis
    by (auto simp: live_def)
qed

text \<open>The root is not an ancestor in this normal form: a lock on \<open>/\<close> does not keep another session
  from locking \<open>/a\<close>.\<close>

theorem root_lock_covers_nothing:
  assumes "path_segs p \<noteq> []"
  shows "\<not> overlaps (fix_path p) (new_lock (fix_path (str ''/'')) req m)"
proof -
  from assms obtain s ss where p: "path_segs p = s # ss" by (cases "path_segs p") auto
  then have "slash \<notin> set s \<and> s \<noteq> []" using path_segs_no_slash [of s p] by simp
  then obtain b bs where "s = b # bs" "b \<noteq> slash" by (cases s) auto
  moreover have "fix_path (str ''/'') = [slash]"
    by (simp add: fix_path_def path_segs_def str_def slash_def)
  ultimately show ?thesis using p by (simp add: overlaps_def fix_path_eq [of p] seg_path_def)
qed

theorem root_lock_covers_nothing_witness:
  "\<not> overlaps (fix_path (str ''/a'')) (new_lock (fix_path (str ''/'')) \<lparr>req_path = [], req_sid = 1, req_expired = 0\<rparr> 0)"
  by (rule root_lock_covers_nothing) (simp add: path_segs_def str_def slash_def)

end
