(* ===== verification/BdtTypes.thy ===== *)
theory BdtTypes
  imports Endpoint
begin

text \<open>
  The basic types of the BDT transport, from \<^verbatim>\<open>component/cyfs-bdt/src/types.rs\<close>: sequence numbers,
  identifiers, their generators and codecs, and pairs of endpoints. The clock, in seconds since
  1970, and the random start of a generator are arguments. Unsigned arithmetic wraps, as in the
  release profile.
\<close>

subsection \<open>Sequence numbers\<close>

datatype sequence = Sequence (sequence_value: u32)

definition sequence_raw_measure :: "sequence measurer" where
  "sequence_raw_measure s purpose = Inr 4"

definition sequence_raw_encode :: "sequence encoder" where
  "sequence_raw_encode s purpose buf = u32_raw_encode (sequence_value s) purpose buf"

definition sequence_raw_decode :: "sequence decoder" where
  "sequence_raw_decode buf = rbind (u32_raw_decode buf) (\<lambda>(n, buf). Inr (Sequence n, buf))"

datatype temp_seq = TempSeq (temp_seq_value: u32)

definition temp_seq_now :: "nat \<Rightarrow> u32" where
  "temp_seq_now secs =
     (let now = word_of_nat secs; since_2021 = word_of_nat ((40 * 365 + 9) * 24 * 3600)
      in (now - since_2021) * 10)"

definition temp_seq_partial_cmp :: "temp_seq \<Rightarrow> temp_seq \<Rightarrow> ordering option" where
  "temp_seq_partial_cmp self other =
     (let a = temp_seq_value self; b = temp_seq_value other in
      if a = 0 \<or> b = 0 then Some (ord_cmp a b)
      else if max a b - min a b > 0xFFFFFFFF div 2
      then Some (if a > b then Less else Greater)
      else Some (ord_cmp a b))"

text \<open>The order derived by \<open>#[derive(Ord)]\<close>, on the number itself.\<close>

definition temp_seq_cmp :: "temp_seq \<Rightarrow> temp_seq \<Rightarrow> ordering" where
  "temp_seq_cmp self other = ord_cmp (temp_seq_value self) (temp_seq_value other)"

definition temp_seq_default :: temp_seq where
  "temp_seq_default = TempSeq 0"

definition temp_seq_raw_measure :: "temp_seq measurer" where
  "temp_seq_raw_measure s purpose = Inr 4"

definition temp_seq_raw_encode :: "temp_seq encoder" where
  "temp_seq_raw_encode s purpose buf = u32_raw_encode (temp_seq_value s) purpose buf"

definition temp_seq_raw_decode :: "temp_seq decoder" where
  "temp_seq_raw_decode buf = rbind (u32_raw_decode buf) (\<lambda>(n, buf). Inr (TempSeq n, buf))"

text \<open>A generator is its atomic counter; \<open>fetch_add\<close> returns the old value and wraps.\<close>

record temp_seq_generator =
  tsg_cur :: u32

definition temp_seq_generator_from :: "temp_seq \<Rightarrow> temp_seq_generator" where
  "temp_seq_generator_from init = \<lparr>tsg_cur = temp_seq_value init\<rparr>"

definition temp_seq_generator_new :: "nat \<Rightarrow> temp_seq_generator" where
  "temp_seq_generator_new secs = \<lparr>tsg_cur = temp_seq_now secs\<rparr>"

definition temp_seq_generate :: "temp_seq_generator \<Rightarrow> temp_seq \<times> temp_seq_generator" where
  "temp_seq_generate g =
     (let v = tsg_cur g; g = g\<lparr>tsg_cur := v + 1\<rparr> in
      if v = 0 then (TempSeq (tsg_cur g), g\<lparr>tsg_cur := tsg_cur g + 1\<rparr>) else (TempSeq v, g))"

subsection \<open>Identifiers\<close>

datatype increase_id = IncreaseId (increase_id_value: u32)

definition increase_id_invalid :: increase_id where
  "increase_id_invalid = IncreaseId 0"

definition increase_id_default :: increase_id where
  "increase_id_default = increase_id_invalid"

definition increase_id_is_valid :: "increase_id \<Rightarrow> bool" where
  "increase_id_is_valid i \<longleftrightarrow> i \<noteq> increase_id_invalid"

definition increase_id_raw_measure :: "increase_id measurer" where
  "increase_id_raw_measure s purpose = Inr 4"

definition increase_id_raw_encode :: "increase_id encoder" where
  "increase_id_raw_encode s purpose buf = u32_raw_encode (increase_id_value s) purpose buf"

definition increase_id_raw_decode :: "increase_id decoder" where
  "increase_id_raw_decode buf = rbind (u32_raw_decode buf) (\<lambda>(n, buf). Inr (IncreaseId n, buf))"

record increase_id_generator =
  iig_cur :: u32

definition increase_id_generator_new :: "u32 \<Rightarrow> increase_id_generator" where
  "increase_id_generator_new rand = \<lparr>iig_cur = rand\<rparr>"

definition increase_id_generate :: "increase_id_generator \<Rightarrow> increase_id \<times> increase_id_generator" where
  "increase_id_generate g = (let v = iig_cur g in (IncreaseId (v + 1), g\<lparr>iig_cur := v + 1\<rparr>))"

subsection \<open>Endpoint pairs\<close>

datatype endpoint_pair = EndpointPair (pair_local: endpoint) (pair_remote: endpoint)

definition endpoint_pair_from :: "endpoint \<times> endpoint \<Rightarrow> endpoint_pair result" where
  "endpoint_pair_from ep_pair =
     rbind (rassert (is_same_ip_version (fst ep_pair) (snd ep_pair))) (\<lambda>_.
       rbind (rassert (protocol (fst ep_pair) = protocol (snd ep_pair))) (\<lambda>_.
         Inr (EndpointPair (fst ep_pair) (snd ep_pair))))"

definition pair_protocol :: "endpoint_pair \<Rightarrow> protocol" where
  "pair_protocol p = protocol (pair_local p)"

definition pair_is_ipv4 :: "endpoint_pair \<Rightarrow> bool" where
  "pair_is_ipv4 p = is_ipv4 (addr (pair_local p))"

definition pair_is_ipv6 :: "endpoint_pair \<Rightarrow> bool" where
  "pair_is_ipv6 p \<longleftrightarrow> \<not> is_ipv4 (addr (pair_local p))"

definition pair_is_tcp :: "endpoint_pair \<Rightarrow> bool" where
  "pair_is_tcp p \<longleftrightarrow> is_tcp (pair_local p) \<and> sock_port (addr (pair_local p)) = 0"

definition pair_is_udp :: "endpoint_pair \<Rightarrow> bool" where
  "pair_is_udp p = is_udp (pair_local p)"

definition pair_is_reverse_tcp :: "endpoint_pair \<Rightarrow> bool" where
  "pair_is_reverse_tcp p \<longleftrightarrow> is_tcp (pair_local p) \<and> sock_port (addr (pair_local p)) \<noteq> 0"

subsection \<open>Contracts\<close>

text \<open>A codec that wraps another one behind a constructor.\<close>

lemma wrapped_raw_codec:
  assumes "raw_codec valid wire m enc dec" and "\<And>v. get (con v) = v" and "\<And>x. con (get x) = x"
  shows "raw_codec (\<lambda>x. valid (get x)) (\<lambda>x. wire (get x)) (\<lambda>x. m (get x)) (\<lambda>x. enc (get x))
    (\<lambda>buf. rbind (dec buf) (\<lambda>(v, buf). Inr (con v, buf)))"
  using raw_codec.measure_wire [OF assms(1)] raw_codec.encode_wire [OF assms(1)]
    raw_codec.encode_short [OF assms(1)] raw_codec.decode_wire [OF assms(1)]
  by unfold_locales (simp_all add: assms(3))

lemma wrapped_safe_decoder:
  assumes "safe_decoder dec"
  shows "safe_decoder (\<lambda>buf. rbind (dec buf) (\<lambda>(v, buf). Inr (con v, buf)))"
  using assms unfolding safe_decoder_good by (auto intro!: good_bind)

interpretation sequence_codec: raw_codec "\<lambda>_. True" "\<lambda>s. to_be_bytes (sequence_value s)"
  sequence_raw_measure sequence_raw_encode sequence_raw_decode
proof -
  have eqs: "sequence_raw_measure = (\<lambda>s. u32_raw_measure (sequence_value s))"
    "sequence_raw_encode = (\<lambda>s. u32_raw_encode (sequence_value s))"
    "sequence_raw_decode = (\<lambda>buf. rbind (u32_raw_decode buf) (\<lambda>(n, buf). Inr (Sequence n, buf)))"
    by (simp_all add: fun_eq_iff sequence_raw_measure_def sequence_raw_encode_def sequence_raw_decode_def
        u32_raw_measure_def)
  show "raw_codec (\<lambda>_. True) (\<lambda>s. to_be_bytes (sequence_value s)) sequence_raw_measure
      sequence_raw_encode sequence_raw_decode"
    unfolding eqs by (rule wrapped_raw_codec [OF u32.raw_codec_axioms]) simp_all
qed

interpretation sequence_codec: safe_decoder sequence_raw_decode
  using wrapped_safe_decoder [OF u32.safe_decoder_axioms, of Sequence]
  by (simp add: safe_decoder_good sequence_raw_decode_def)

interpretation temp_seq_codec: raw_codec "\<lambda>_. True" "\<lambda>s. to_be_bytes (temp_seq_value s)"
  temp_seq_raw_measure temp_seq_raw_encode temp_seq_raw_decode
proof -
  have eqs: "temp_seq_raw_measure = (\<lambda>s. u32_raw_measure (temp_seq_value s))"
    "temp_seq_raw_encode = (\<lambda>s. u32_raw_encode (temp_seq_value s))"
    "temp_seq_raw_decode = (\<lambda>buf. rbind (u32_raw_decode buf) (\<lambda>(n, buf). Inr (TempSeq n, buf)))"
    by (simp_all add: fun_eq_iff temp_seq_raw_measure_def temp_seq_raw_encode_def temp_seq_raw_decode_def
        u32_raw_measure_def)
  show "raw_codec (\<lambda>_. True) (\<lambda>s. to_be_bytes (temp_seq_value s)) temp_seq_raw_measure
      temp_seq_raw_encode temp_seq_raw_decode"
    unfolding eqs by (rule wrapped_raw_codec [OF u32.raw_codec_axioms]) simp_all
qed

interpretation temp_seq_codec: safe_decoder temp_seq_raw_decode
  using wrapped_safe_decoder [OF u32.safe_decoder_axioms, of TempSeq]
  by (simp add: safe_decoder_good temp_seq_raw_decode_def)

interpretation increase_id_codec: raw_codec "\<lambda>_. True" "\<lambda>s. to_be_bytes (increase_id_value s)"
  increase_id_raw_measure increase_id_raw_encode increase_id_raw_decode
proof -
  have eqs: "increase_id_raw_measure = (\<lambda>s. u32_raw_measure (increase_id_value s))"
    "increase_id_raw_encode = (\<lambda>s. u32_raw_encode (increase_id_value s))"
    "increase_id_raw_decode = (\<lambda>buf. rbind (u32_raw_decode buf) (\<lambda>(n, buf). Inr (IncreaseId n, buf)))"
    by (simp_all add: fun_eq_iff increase_id_raw_measure_def increase_id_raw_encode_def increase_id_raw_decode_def
        u32_raw_measure_def)
  show "raw_codec (\<lambda>_. True) (\<lambda>s. to_be_bytes (increase_id_value s)) increase_id_raw_measure
      increase_id_raw_encode increase_id_raw_decode"
    unfolding eqs by (rule wrapped_raw_codec [OF u32.raw_codec_axioms]) simp_all
qed

interpretation increase_id_codec: safe_decoder increase_id_raw_decode
  using wrapped_safe_decoder [OF u32.safe_decoder_axioms, of IncreaseId]
  by (simp add: safe_decoder_good increase_id_raw_decode_def)

subsection \<open>Properties\<close>

lemma ord_cmp_simps: "a < b \<Longrightarrow> ord_cmp a b = Less" "ord_cmp a a = Equal" "b < a \<Longrightarrow> ord_cmp a b = Greater"
  by (auto simp: ord_cmp_def)

text \<open>The numbers of a sequence generator are never zero and each comes after the one before it in
  the wrap-around order of \<open>TempSeq\<close>, also where the counter overflows.\<close>

theorem temp_seq_generate_increases:
  assumes "temp_seq_generate g = (s, g')" and "temp_seq_generate g' = (t, g'')"
  shows "temp_seq_value s \<noteq> 0 \<and> temp_seq_value t \<noteq> 0 \<and> temp_seq_partial_cmp s t = Some Less"
proof -
  define v where "v = (if tsg_cur g = 0 then 1 else tsg_cur g)"
  have s: "temp_seq_value s = v" and g': "tsg_cur g' = v + 1" and v: "v \<noteq> 0"
    using assms(1) by (auto simp: temp_seq_generate_def Let_def v_def split: if_splits)
  show ?thesis
  proof (cases "v + 1 = 0")
    case True
    then have "v = 0xFFFFFFFF" by (simp add: eq_neg_iff_add_eq_0 [symmetric])
    moreover have "temp_seq_value t = 1"
      using assms(2) g' True by (auto simp: temp_seq_generate_def Let_def)
    moreover have "\<not> (0xFFFFFFFF :: u32) \<le> 1" by (simp add: word_le_nat_alt)
    ultimately show ?thesis
      using s by (simp add: temp_seq_partial_cmp_def Let_def max_def min_def)
  next
    case False
    then have t: "temp_seq_value t = v + 1"
      using assms(2) g' by (auto simp: temp_seq_generate_def Let_def)
    have less: "v < v + 1" using unatSuc [of v] False by (simp add: word_less_nat_alt add.commute)
    then have "max v (v + 1) - min v (v + 1) = 1" by (simp add: max_def min_def)
    with s t v False less show ?thesis
      by (simp add: temp_seq_partial_cmp_def Let_def ord_cmp_simps)
  qed
qed

theorem temp_seq_generate_increases_witness:
  "temp_seq_partial_cmp (TempSeq 0xFFFFFFFF) (TempSeq 1) = Some Less"
  using temp_seq_generate_increases [of "\<lparr>tsg_cur = 0xFFFFFFFF\<rparr>" "TempSeq 0xFFFFFFFF" "\<lparr>tsg_cur = 0\<rparr>" "TempSeq 1"
      "\<lparr>tsg_cur = 2\<rparr>"]
  by (simp add: temp_seq_generate_def)

text \<open>The two orders of \<open>TempSeq\<close> disagree: the derived \<open>cmp\<close> compares the numbers and the
  hand-written \<open>partial_cmp\<close> wraps around, so that they order the same pair in opposite ways.\<close>

theorem temp_seq_orders_disagree:
  "\<exists>s t. temp_seq_partial_cmp s t = Some Less \<and> temp_seq_cmp s t = Greater"
proof -
  have big: "\<not> (0xFFFFFFFF :: u32) \<le> 1" by (simp add: word_le_nat_alt)
  then have "temp_seq_partial_cmp (TempSeq 0xFFFFFFFF) (TempSeq 1) = Some Less"
    by (simp add: temp_seq_partial_cmp_def Let_def max_def min_def)
  moreover have "temp_seq_cmp (TempSeq 0xFFFFFFFF) (TempSeq 1) = Greater"
    using big by (simp add: temp_seq_cmp_def ord_cmp_def not_le)
  ultimately show ?thesis by blast
qed

end
