(* ===== verification/SessionData.thy ===== *)
theory SessionData
  imports BdtTypes
begin

text \<open>
  The package of the stream protocol, from \<^verbatim>\<open>component/cyfs-bdt/src/protocol/v0.rs\<close>: \<open>SessionData\<close> with its
  flags and helpers, and the codecs of its parts \<open>SessionSynInfo\<close>, \<open>SessionDataPackageIdPart\<close>,
  \<open>StreamRange\<close> and \<open>StreamRanges\<close>. Its own codec works through the merge context of the package box
  and is not modelled.
\<close>

subsection \<open>Parts\<close>

record session_syn_info =
  syn_sequence :: temp_seq
  from_session_id :: increase_id
  to_vport :: u16

definition syn_info_raw_measure :: "session_syn_info measurer" where
  "syn_info_raw_measure s purpose =
     rbind (temp_seq_raw_measure (syn_sequence s) purpose) (\<lambda>a.
       rbind (increase_id_raw_measure (from_session_id s) purpose) (\<lambda>b.
         rbind (u16_raw_measure (to_vport s) purpose) (\<lambda>c. Inr (a + b + c))))"

definition syn_info_raw_encode :: "session_syn_info encoder" where
  "syn_info_raw_encode s purpose =
     enc_then (temp_seq_raw_encode (syn_sequence s) purpose)
       (enc_then (increase_id_raw_encode (from_session_id s) purpose)
         (u16_raw_encode (to_vport s) purpose))"

definition syn_info_raw_decode :: "session_syn_info decoder" where
  "syn_info_raw_decode buf =
     rbind (temp_seq_raw_decode buf) (\<lambda>(a, buf).
       rbind (increase_id_raw_decode buf) (\<lambda>(b, buf).
         rbind (u16_raw_decode buf) (\<lambda>(c, buf).
           Inr (\<lparr>syn_sequence = a, from_session_id = b, to_vport = c\<rparr>, buf))))"

record package_id_part =
  package_id :: increase_id
  total_recv :: u64

definition id_part_raw_measure :: "package_id_part measurer" where
  "id_part_raw_measure s purpose =
     rbind (increase_id_raw_measure (package_id s) purpose) (\<lambda>a.
       rbind (u64_raw_measure (total_recv s) purpose) (\<lambda>b. Inr (a + b)))"

definition id_part_raw_encode :: "package_id_part encoder" where
  "id_part_raw_encode s purpose =
     enc_then (increase_id_raw_encode (package_id s) purpose) (u64_raw_encode (total_recv s) purpose)"

definition id_part_raw_decode :: "package_id_part decoder" where
  "id_part_raw_decode buf =
     rbind (increase_id_raw_decode buf) (\<lambda>(a, buf).
       rbind (u64_raw_decode buf) (\<lambda>(b, buf). Inr (\<lparr>package_id = a, total_recv = b\<rparr>, buf)))"

record stream_range =
  range_pos :: u64
  range_length :: u32

definition stream_range_raw_measure :: "stream_range measurer" where
  "stream_range_raw_measure s purpose =
     rbind (u64_raw_measure (range_pos s) purpose) (\<lambda>a.
       rbind (u32_raw_measure (range_length s) purpose) (\<lambda>b. Inr (a + b)))"

definition stream_range_raw_encode :: "stream_range encoder" where
  "stream_range_raw_encode s purpose =
     enc_then (u64_raw_encode (range_pos s) purpose) (u32_raw_encode (range_length s) purpose)"

definition stream_range_raw_decode :: "stream_range decoder" where
  "stream_range_raw_decode buf =
     rbind (u64_raw_decode buf) (\<lambda>(a, buf).
       rbind (u32_raw_decode buf) (\<lambda>(b, buf). Inr (\<lparr>range_pos = a, range_length = b\<rparr>, buf)))"

datatype stream_ranges = StreamRanges (ranges: "stream_range list")

definition stream_ranges_raw_measure :: "stream_ranges measurer" where
  "stream_ranges_raw_measure s purpose =
     measure_each (\<lambda>r. stream_range_raw_measure r purpose) 1 (ranges s)"

definition stream_ranges_raw_encode :: "stream_ranges encoder" where
  "stream_ranges_raw_encode s purpose =
     enc_then (u8_raw_encode (word_of_nat (length (ranges s))) purpose)
       (enc_each (\<lambda>r. stream_range_raw_encode r purpose) (ranges s))"

fun stream_ranges_loop :: "nat \<Rightarrow> bytes \<Rightarrow> stream_range list \<Rightarrow> (stream_ranges \<times> bytes) result" where
  "stream_ranges_loop 0 buf rs = Inr (StreamRanges rs, buf)"
| "stream_ranges_loop (Suc n) buf rs =
     rbind (stream_range_raw_decode buf) (\<lambda>(r, buf). stream_ranges_loop n buf (rs @ [r]))"

definition stream_ranges_raw_decode :: "stream_ranges decoder" where
  "stream_ranges_raw_decode buf =
     rbind (u8_raw_decode buf) (\<lambda>(count, buf). stream_ranges_loop (unat count) buf [])"

subsection \<open>The package\<close>

definition SESSIONDATA_FLAG_PACKAGEID :: u16 where "SESSIONDATA_FLAG_PACKAGEID = push_bit 0 1"
definition SESSIONDATA_FLAG_ACK_PACKAGEID :: u16 where "SESSIONDATA_FLAG_ACK_PACKAGEID = push_bit 1 1"
definition SESSIONDATA_FLAG_SYN :: u16 where "SESSIONDATA_FLAG_SYN = push_bit 2 1"
definition SESSIONDATA_FLAG_ACK :: u16 where "SESSIONDATA_FLAG_ACK = push_bit 3 1"
definition SESSIONDATA_FLAG_PAYLOAD :: u16 where "SESSIONDATA_FLAG_PAYLOAD = push_bit 7 1"
definition SESSIONDATA_FLAG_FIN :: u16 where "SESSIONDATA_FLAG_FIN = push_bit 10 1"
definition SESSIONDATA_FLAG_FINACK :: u16 where "SESSIONDATA_FLAG_FINACK = push_bit 11 1"
definition SESSIONDATA_FLAG_RESET :: u16 where "SESSIONDATA_FLAG_RESET = push_bit 12 1"

lemmas sessiondata_flag_defs =
  SESSIONDATA_FLAG_PACKAGEID_def SESSIONDATA_FLAG_ACK_PACKAGEID_def SESSIONDATA_FLAG_SYN_def
  SESSIONDATA_FLAG_ACK_def SESSIONDATA_FLAG_PAYLOAD_def SESSIONDATA_FLAG_FIN_def
  SESSIONDATA_FLAG_FINACK_def SESSIONDATA_FLAG_RESET_def

record session_data =
  stream_pos :: u64
  ack_stream_pos :: u64
  sack :: "stream_ranges option"
  session_id :: increase_id
  send_time :: u64
  syn_info :: "session_syn_info option"
  to_session_id :: "increase_id option"
  id_part :: "package_id_part option"
  payload :: bytes
  sd_flags :: u16

definition session_data_new :: session_data where
  "session_data_new =
     \<lparr>stream_pos = 0, ack_stream_pos = 0, sack = None, session_id = increase_id_default,
      send_time = 0, syn_info = None, to_session_id = None, id_part = None, payload = [],
      sd_flags = 0\<rparr>"

definition is_flags_contain :: "session_data \<Rightarrow> u16 \<Rightarrow> bool" where
  "is_flags_contain s flag \<longleftrightarrow> sd_flags s AND flag \<noteq> 0"

definition flags_add :: "u16 \<Rightarrow> session_data \<Rightarrow> session_data" where
  "flags_add flag s = s\<lparr>sd_flags := sd_flags s OR flag\<rparr>"

definition set_ack :: "session_data \<Rightarrow> session_data" where
  "set_ack s = s\<lparr>sd_flags := sd_flags s OR SESSIONDATA_FLAG_ACK\<rparr>"

definition stream_pos_end :: "session_data \<Rightarrow> u64" where
  "stream_pos_end s = stream_pos s + word_of_nat (length (payload s))"

definition is_syn :: "session_data \<Rightarrow> bool" where
  "is_syn s \<longleftrightarrow> syn_info s \<noteq> None \<and> sd_flags s AND SESSIONDATA_FLAG_ACK = 0"

definition is_syn_ack :: "session_data \<Rightarrow> bool" where
  "is_syn_ack s \<longleftrightarrow> syn_info s \<noteq> None \<and> sd_flags s AND SESSIONDATA_FLAG_ACK \<noteq> 0"

definition is_reset :: "session_data \<Rightarrow> bool" where
  "is_reset s \<longleftrightarrow> sd_flags s AND SESSIONDATA_FLAG_RESET \<noteq> 0"

definition is_ctrl_package :: "session_data \<Rightarrow> bool" where
  "is_ctrl_package s \<longleftrightarrow>
     is_syn s \<or> is_syn_ack s \<or> is_flags_contain s SESSIONDATA_FLAG_ACK_PACKAGEID \<or>
     is_flags_contain s SESSIONDATA_FLAG_FIN \<or> is_flags_contain s SESSIONDATA_FLAG_FINACK \<or>
     is_flags_contain s SESSIONDATA_FLAG_RESET"

definition data_size :: "session_data \<Rightarrow> nat" where
  "data_size s = length (payload s)"

definition clone_without_data :: "session_data \<Rightarrow> session_data" where
  "clone_without_data s =
     session_data_new\<lparr>stream_pos := stream_pos s, ack_stream_pos := ack_stream_pos s,
       sack := map_option (\<lambda>v. StreamRanges (ranges v)) (sack s), session_id := session_id s,
       send_time := send_time s, syn_info := syn_info s, to_session_id := to_session_id s,
       payload := [], sd_flags := sd_flags s, id_part := id_part s\<rparr>"

definition clone_with_data :: "session_data \<Rightarrow> session_data" where
  "clone_with_data s = (clone_without_data s)\<lparr>payload := payload s\<rparr>"

subsection \<open>Contracts of the parts\<close>

interpretation syn_info_codec: raw_codec "\<lambda>_. True"
  "\<lambda>s. to_be_bytes (temp_seq_value (syn_sequence s)) @
     to_be_bytes (increase_id_value (from_session_id s)) @ to_be_bytes (to_vport s)"
  syn_info_raw_measure syn_info_raw_encode syn_info_raw_decode
proof (rule raw_codecI)
  fix s :: session_syn_info and p and rest :: bytes
  show "writes (syn_info_raw_encode s p) (to_be_bytes (temp_seq_value (syn_sequence s)) @
      to_be_bytes (increase_id_value (from_session_id s)) @ to_be_bytes (to_vport s))"
    unfolding syn_info_raw_encode_def
    by (intro writes_then temp_seq_codec.writes_enc increase_id_codec.writes_enc u16.writes_enc) simp_all
qed (simp_all add: syn_info_raw_measure_def syn_info_raw_decode_def temp_seq_codec.measure_wire
    increase_id_codec.measure_wire u16.measure_wire temp_seq_codec.decode_wire
    increase_id_codec.decode_wire u16.decode_wire)

interpretation id_part_codec: raw_codec "\<lambda>_. True"
  "\<lambda>s. to_be_bytes (increase_id_value (package_id s)) @ to_be_bytes (total_recv s)"
  id_part_raw_measure id_part_raw_encode id_part_raw_decode
proof (rule raw_codecI)
  fix s :: package_id_part and p and rest :: bytes
  show "writes (id_part_raw_encode s p)
      (to_be_bytes (increase_id_value (package_id s)) @ to_be_bytes (total_recv s))"
    unfolding id_part_raw_encode_def
    by (intro writes_then increase_id_codec.writes_enc u64.writes_enc) simp_all
qed (simp_all add: id_part_raw_measure_def id_part_raw_decode_def increase_id_codec.measure_wire
    u64.measure_wire increase_id_codec.decode_wire u64.decode_wire)

interpretation stream_range_codec: raw_codec "\<lambda>_. True"
  "\<lambda>s. to_be_bytes (range_pos s) @ to_be_bytes (range_length s)"
  stream_range_raw_measure stream_range_raw_encode stream_range_raw_decode
proof (rule raw_codecI)
  fix s :: stream_range and p and rest :: bytes
  show "writes (stream_range_raw_encode s p) (to_be_bytes (range_pos s) @ to_be_bytes (range_length s))"
    unfolding stream_range_raw_encode_def
    by (intro writes_then u64.writes_enc u32.writes_enc) simp_all
qed (simp_all add: stream_range_raw_measure_def stream_range_raw_decode_def u64.measure_wire
    u32.measure_wire u64.decode_wire u32.decode_wire)

abbreviation stream_range_wire :: "stream_range \<Rightarrow> bytes" where
  "stream_range_wire s \<equiv> to_be_bytes (range_pos s) @ to_be_bytes (range_length s)"

lemma stream_ranges_loop_wire:
  "stream_ranges_loop (length rs) (concat (map stream_range_wire rs) @ rest) acc =
     Inr (StreamRanges (acc @ rs), rest)"
  by (induction rs arbitrary: acc) (simp_all add: stream_range_codec.decode_wire [simplified])

interpretation stream_ranges_codec: raw_codec "\<lambda>s. length (ranges s) < 256"
  "\<lambda>s. word_of_nat (length (ranges s)) # concat (map stream_range_wire (ranges s))"
  stream_ranges_raw_measure stream_ranges_raw_encode stream_ranges_raw_decode
proof (rule raw_codecI)
  fix s :: stream_ranges and p and rest :: bytes
  let ?w = "word_of_nat (length (ranges s)) # concat (map stream_range_wire (ranges s))"
  assume len: "length (ranges s) < 256"
  show "stream_ranges_raw_measure s p = Inr (length ?w)"
    unfolding stream_ranges_raw_measure_def
    by (subst measure_each_sum [where f = stream_range_wire])
      (simp_all add: stream_range_codec.measure_wire)
  have "writes (stream_ranges_raw_encode s p)
      ([word_of_nat (length (ranges s))] @ concat (map stream_range_wire (ranges s)))"
    unfolding stream_ranges_raw_encode_def
    by (intro writes_then writes_each u8.writes_enc stream_range_codec.writes_enc) simp_all
  then show "writes (stream_ranges_raw_encode s p) ?w" by simp
  have "unat (word_of_nat (length (ranges s)) :: u8) = length (ranges s)"
    using len by (simp add: unsigned_of_nat take_bit_nat_eq_self)
  then show "stream_ranges_raw_decode (?w @ rest) = Inr (s, rest)"
    using stream_ranges_loop_wire [of "ranges s" rest "[]"]
    by (cases s) (simp add: stream_ranges_raw_decode_def u8_raw_decode_def)
qed

end
