(* ===== verification/SendQueue.thy ===== *)
theory SendQueue
  imports SessionData
begin

text \<open>
  The send queue of a package stream, from \<^verbatim>\<open>component/cyfs-bdt/src/stream/package/send_queue.rs\<close>: the
  bytes an application has written and the peer has not yet acknowledged, cut into blocks, with the
  Nagle buffer that collects small writes. The clock is the argument \<open>now\<close>, in microseconds; a
  \<open>Duration\<close> is its number of nanoseconds. Positions are 64-bit words; a subtraction of lengths
  below zero is \<open>Panic\<close>.
\<close>

subsection \<open>Data\<close>

definition MTU :: nat where
  "MTU = 1472"

definition mss :: nat where
  "mss = MTU - 180"

definition from_micros :: "u64 \<Rightarrow> nat" where
  "from_micros t = unat t * 1000"

datatype block_state = Wait | OnAir u64

record send_block =
  sb_data :: bytes
  sb_start :: u64
  sb_state :: block_state
  sb_fin :: bool

datatype nagle_state = NagleNone | Nagle u64 nat

record send_queue =
  sq_capacity :: nat
  sq_start :: u64
  nagle_buffer :: bytes
  sq_nagle :: nagle_state
  sq_blocks :: "send_block list"
  sq_flight :: nat

definition sb_len :: "send_block \<Rightarrow> nat" where
  "sb_len b = length (sb_data b)"

definition sb_end :: "send_block \<Rightarrow> u64" where
  "sb_end b = sb_start b + word_of_nat (sb_len b)"

definition to_session_data :: "u64 \<Rightarrow> send_block \<Rightarrow> session_data" where
  "to_session_data when b =
     (let package = flags_add SESSIONDATA_FLAG_PAYLOAD session_data_new;
          package = package\<lparr>stream_pos := sb_start b, send_time := when, payload := sb_data b\<rparr>
      in if sb_fin b then flags_add SESSIONDATA_FLAG_FIN package else package)"

subsection \<open>Operations\<close>

definition send_queue_new :: "nat \<Rightarrow> send_queue" where
  "send_queue_new capacity =
     \<lparr>sq_capacity = capacity, sq_start = 0, nagle_buffer = replicate mss 0, sq_nagle = NagleNone,
      sq_blocks = [], sq_flight = 0\<rparr>"

definition block_end :: "send_queue \<Rightarrow> u64" where
  "block_end q = (if sq_blocks q \<noteq> [] then sb_end (last (sq_blocks q)) else sq_start q)"

definition used :: "send_queue \<Rightarrow> nat result" where
  "used q =
     (if sq_start q \<le> block_end q
      then Inr (unat (block_end q - sq_start q) +
        (case sq_nagle q of Nagle _ len \<Rightarrow> len | NagleNone \<Rightarrow> 0))
      else Inl Panic)"

definition remain :: "send_queue \<Rightarrow> nat result" where
  "remain q = rbind (used q) (checked_sub (sq_capacity q))"

definition alloc_block_from_owned :: "bytes \<Rightarrow> bool \<Rightarrow> send_queue \<Rightarrow> send_queue" where
  "alloc_block_from_owned data fin q =
     q\<lparr>sq_blocks := sq_blocks q @
         [\<lparr>sb_data = data, sb_start = block_end q, sb_state = Wait, sb_fin = fin\<rparr>]\<rparr>"

definition alloc_block_from_shared :: "bytes \<Rightarrow> bool \<Rightarrow> send_queue \<Rightarrow> send_queue" where
  "alloc_block_from_shared data fin q = alloc_block_from_owned data fin q"

text \<open>\<open>buffer[i..i + src.len()].copy_from_slice(src)\<close>\<close>

definition copy_at :: "nat \<Rightarrow> bytes \<Rightarrow> bytes \<Rightarrow> bytes result" where
  "copy_at i src buffer =
     (if i + length src \<le> length buffer
      then Inr (take i buffer @ src @ drop (i + length src) buffer) else Inl Panic)"

text \<open>The loop that cuts full blocks; it returns what is left.\<close>

function alloc_full_blocks :: "bytes \<Rightarrow> send_queue \<Rightarrow> bytes \<times> send_queue" where
  "alloc_full_blocks rem q =
     (if mss \<le> length rem
      then alloc_full_blocks (drop mss rem) (alloc_block_from_shared (take mss rem) False q)
      else (rem, q))"
  by auto
termination by (relation "measure (\<lambda>(rem, q). length rem)") (auto simp: mss_def MTU_def)

declare alloc_full_blocks.simps [simp del]

definition enter_nagle :: "u64 \<Rightarrow> bytes \<Rightarrow> send_queue \<Rightarrow> send_queue result" where
  "enter_nagle now rem q =
     rbind (copy_at 0 rem (nagle_buffer q)) (\<lambda>buffer.
       Inr (q\<lparr>nagle_buffer := buffer, sq_nagle := Nagle now (length rem)\<rparr>))"

text \<open>The part of \<open>alloc_blocks\<close> after the Nagle buffer has been dealt with.\<close>

definition alloc_rest :: "u64 \<Rightarrow> bytes \<Rightarrow> send_queue \<Rightarrow> send_queue result" where
  "alloc_rest now rem q =
     (let (rem, q) = alloc_full_blocks rem q in
      if length rem > 0 then enter_nagle now rem q else Inr q)"

text \<open>The part of \<open>alloc_blocks\<close> after the buffer has been cut to the room left.\<close>

definition alloc_taken :: "u64 \<Rightarrow> bytes \<Rightarrow> send_queue \<Rightarrow> send_queue result" where
  "alloc_taken now rem q =
     (case sq_nagle q of
        NagleNone \<Rightarrow> if length rem < mss then enter_nagle now rem q else alloc_rest now rem q
      | Nagle t len \<Rightarrow>
          let total = length rem + len in
          rbind (if total < mss then Inr (length rem) else checked_sub mss len) (\<lambda>nagle_len.
            rbind (if nagle_len \<le> length rem then copy_at len (take nagle_len rem) (nagle_buffer q)
                   else Inl Panic) (\<lambda>buffer.
              let q = q\<lparr>nagle_buffer := buffer, sq_nagle := Nagle t (len + nagle_len)\<rparr>;
                  rem = drop nagle_len rem;
                  q = (if total \<ge> mss
                       then (alloc_block_from_owned (nagle_buffer q) False q)\<lparr>sq_nagle := NagleNone\<rparr>
                       else q)
              in alloc_rest now rem q)))"

definition alloc_blocks :: "u64 \<Rightarrow> bytes \<Rightarrow> send_queue \<Rightarrow> (nat \<times> send_queue) result" where
  "alloc_blocks now buf q =
     rbind (remain q) (\<lambda>r.
       if r = 0 then Inr (0, q)
       else
         let rem = (if length buf > r then take r buf else buf); writen = length rem in
         rbind (alloc_taken now rem q) (\<lambda>q. Inr (writen, q)))"

text \<open>The scan of \<open>confirm\<close>: bytes acknowledged, whether the final block was, the number of blocks to
  remove and the bytes in flight among them.\<close>

fun confirm_scan :: "u64 \<Rightarrow> bool \<Rightarrow> send_block list \<Rightarrow> nat \<times> bool \<times> nat \<times> nat" where
  "confirm_scan ack_pos fin_ack [] = (0, False, 0, 0)"
| "confirm_scan ack_pos fin_ack (b # bs) =
     (if sb_end b \<le> ack_pos then
        (if sb_fin b \<and> \<not> fin_ack then (0, False, 0, 0)
         else case confirm_scan ack_pos fin_ack bs of (n, fin, k, d) \<Rightarrow>
           (sb_len b + n, sb_fin b \<or> fin, Suc k,
            (case sb_state b of OnAir _ \<Rightarrow> sb_len b | Wait \<Rightarrow> 0) + d))
      else (0, False, 0, 0))"

definition confirm :: "u64 \<Rightarrow> bool \<Rightarrow> send_queue \<Rightarrow> ((nat \<times> bool) \<times> send_queue) result" where
  "confirm ack_pos fin_ack q =
     (case confirm_scan ack_pos fin_ack (sq_blocks q) of (newly_acked, fin, removed, dec_flight) \<Rightarrow>
        let q = q\<lparr>sq_blocks := drop removed (sq_blocks q)\<rparr> in
        rbind (checked_sub (sq_flight q) dec_flight) (\<lambda>flight.
          Inr ((newly_acked, fin),
            q\<lparr>sq_flight := flight, sq_start := sq_start q + word_of_nat newly_acked\<rparr>)))"

definition check_nagle :: "u64 \<Rightarrow> nat \<Rightarrow> send_queue \<Rightarrow> (bool \<times> send_queue) result" where
  "check_nagle now nagle q =
     (case sq_nagle q of
        Nagle timestamp len \<Rightarrow>
          if now > timestamp \<and> from_micros (now - timestamp) > nagle then
            (if len \<le> length (nagle_buffer q)
             then Inr (True, (alloc_block_from_owned (take len (nagle_buffer q)) False q)\<lparr>sq_nagle := NagleNone\<rparr>)
             else Inl Panic)
          else Inr (False, q)
      | NagleNone \<Rightarrow> Inr (False, q))"

definition sq_close :: "send_queue \<Rightarrow> send_queue result" where
  "sq_close q =
     (if length (sq_blocks q) = 0 \<or> \<not> sb_fin (last (sq_blocks q)) then
        (case sq_nagle q of
           Nagle _ len \<Rightarrow>
             if len \<le> length (nagle_buffer q)
             then Inr ((alloc_block_from_owned (take len (nagle_buffer q)) True q)\<lparr>sq_nagle := NagleNone\<rparr>)
             else Inl Panic
         | NagleNone \<Rightarrow> Inr (alloc_block_from_owned [] True q))
      else Inr q)"

text \<open>The loop of \<open>check_wnd\<close>: the blocks, the bytes in flight and the packages to send.\<close>

fun check_wnd_loop :: "u64 \<Rightarrow> nat \<Rightarrow> u64 \<Rightarrow> nat \<Rightarrow> bool \<Rightarrow> send_block list \<Rightarrow>
    send_block list \<times> nat \<times> session_data list" where
  "check_wnd_loop now timeout cwnd flight beyond_wnd [] = ([], flight, [])"
| "check_wnd_loop now timeout cwnd flight beyond_wnd (b # bs) =
     (if beyond_wnd then
        (case sb_state b of
           OnAir _ \<Rightarrow>
             (case check_wnd_loop now timeout cwnd flight True bs of (bs', f, ps) \<Rightarrow>
                (b\<lparr>sb_state := Wait\<rparr> # bs', f, ps))
         | Wait \<Rightarrow> (b # bs, flight, []))
      else
        let post_flight = flight + sb_len b in
        (case sb_state b of
           OnAir sent \<Rightarrow>
             if word_of_nat post_flight > cwnd then
               (case check_wnd_loop now timeout cwnd flight True bs of (bs', f, ps) \<Rightarrow>
                  (b\<lparr>sb_state := Wait\<rparr> # bs', f, ps))
             else if now > sent \<and> from_micros (now - sent) > timeout then
               (case check_wnd_loop now timeout cwnd post_flight False bs of (bs', f, ps) \<Rightarrow>
                  (b\<lparr>sb_state := OnAir now\<rparr> # bs', f, to_session_data now b # ps))
             else
               (case check_wnd_loop now timeout cwnd post_flight False bs of (bs', f, ps) \<Rightarrow>
                  (b # bs', f, ps))
         | Wait \<Rightarrow>
             if word_of_nat post_flight > cwnd then (b # bs, flight, [])
             else
               (case check_wnd_loop now timeout cwnd post_flight False bs of (bs', f, ps) \<Rightarrow>
                  (b\<lparr>sb_state := OnAir now\<rparr> # bs', f, to_session_data now b # ps))))"

definition sq_check_wnd :: "u64 \<Rightarrow> nat \<Rightarrow> u64 \<Rightarrow> send_queue \<Rightarrow> session_data list \<times> send_queue" where
  "sq_check_wnd now timeout cwnd q =
     (case check_wnd_loop now timeout cwnd 0 False (sq_blocks q) of (blocks, flight, packages) \<Rightarrow>
        (packages, q\<lparr>sq_blocks := blocks, sq_flight := flight\<rparr>))"

definition check_timeout :: "u64 \<Rightarrow> nat \<Rightarrow> send_queue \<Rightarrow> nat" where
  "check_timeout now timeout q =
     (\<Sum>b\<leftarrow>sq_blocks q.
        case sb_state b of
          OnAir sent \<Rightarrow>
            if now > sent \<and> from_micros (now - sent) > timeout then length (sb_data b) else 0
        | Wait \<Rightarrow> 0)"

subsection \<open>Invariant\<close>

text \<open>
  The queue is related to the list \<open>A\<close> of all bytes the application has written so far: the blocks
  are adjacent from \<open>start\<close> on, and their bytes followed by those of the Nagle buffer are what \<open>A\<close> has
  from \<open>start\<close> on. The blocks on the air come first, and \<open>flight\<close> is their size.
\<close>

definition nagle_data :: "send_queue \<Rightarrow> bytes" where
  "nagle_data q = (case sq_nagle q of Nagle _ len \<Rightarrow> take len (nagle_buffer q) | NagleNone \<Rightarrow> [])"

definition blocks_data :: "send_block list \<Rightarrow> bytes" where
  "blocks_data bs = concat (map sb_data bs)"

definition queue_data :: "send_queue \<Rightarrow> bytes" where
  "queue_data q = blocks_data (sq_blocks q) @ nagle_data q"

fun chained :: "nat \<Rightarrow> send_block list \<Rightarrow> bool" where
  "chained p [] \<longleftrightarrow> True"
| "chained p (b # bs) \<longleftrightarrow> unat (sb_start b) = p \<and> chained (p + sb_len b) bs"

definition air_len :: "send_block \<Rightarrow> nat" where
  "air_len b = (case sb_state b of OnAir _ \<Rightarrow> sb_len b | Wait \<Rightarrow> 0)"

definition flying :: "send_block list \<Rightarrow> nat" where
  "flying bs = sum_list (map air_len bs)"

fun air_first :: "send_block list \<Rightarrow> bool" where
  "air_first [] \<longleftrightarrow> True"
| "air_first (b # bs) \<longleftrightarrow>
     (if sb_state b = Wait then \<forall>c\<in>set bs. sb_state c = Wait else air_first bs)"

definition sq_inv :: "bytes \<Rightarrow> send_queue \<Rightarrow> bool" where
  "sq_inv A q \<longleftrightarrow>
     length (nagle_buffer q) = mss \<and>
     (case sq_nagle q of Nagle _ len \<Rightarrow> len \<le> mss | NagleNone \<Rightarrow> True) \<and>
     length A < 2 ^ 64 \<and> unat (sq_start q) \<le> length A \<and>
     drop (unat (sq_start q)) A = queue_data q \<and>
     length (queue_data q) \<le> sq_capacity q \<and>
     chained (unat (sq_start q)) (sq_blocks q) \<and>
     air_first (sq_blocks q) \<and> sq_flight q = flying (sq_blocks q)"

text \<open>Only the last block carries FIN, and nothing is waiting behind it.\<close>

definition is_closed :: "send_queue \<Rightarrow> bool" where
  "is_closed q \<longleftrightarrow> sq_blocks q \<noteq> [] \<and> sb_fin (last (sq_blocks q)) \<and> sq_nagle q = NagleNone"

definition fin_last :: "send_queue \<Rightarrow> bool" where
  "fin_last q \<longleftrightarrow>
     (\<forall>b\<in>set (butlast (sq_blocks q)). \<not> sb_fin b) \<and>
     (sq_blocks q \<noteq> [] \<and> sb_fin (last (sq_blocks q)) \<longrightarrow> sq_nagle q = NagleNone)"

lemma nagle_data_update [simp]:
  "nagle_data (sq_blocks_update f q) = nagle_data q"
  "nagle_data (sq_start_update g q) = nagle_data q"
  "nagle_data (sq_flight_update h q) = nagle_data q"
  by (simp_all add: nagle_data_def split: nagle_state.split)

lemma blocks_data_simps [simp]:
  "blocks_data [] = []"
  "blocks_data (b # bs) = sb_data b @ blocks_data bs"
  "blocks_data (bs @ cs) = blocks_data bs @ blocks_data cs"
  by (simp_all add: blocks_data_def)

lemma flying_simps [simp]:
  "flying [] = 0"
  "flying (b # bs) = air_len b + flying bs"
  "flying (bs @ cs) = flying bs + flying cs"
  by (simp_all add: flying_def)

lemma chained_append [simp]:
  "chained p (bs @ cs) \<longleftrightarrow> chained p bs \<and> chained (p + length (blocks_data bs)) cs"
  by (induction bs arbitrary: p) (auto simp: sb_len_def add.assoc)

lemma air_first_all_wait: "\<forall>b\<in>set bs. sb_state b = Wait \<Longrightarrow> air_first bs"
  by (cases bs) auto

lemma air_first_snoc: "air_first bs \<Longrightarrow> sb_state b = Wait \<Longrightarrow> air_first (bs @ [b])"
  by (induction bs) auto

lemma air_first_drop: "air_first bs \<Longrightarrow> air_first (drop k bs)"
proof (induction k arbitrary: bs)
  case (Suc k)
  then show ?case
    by (cases bs) (auto split: if_splits intro: air_first_all_wait)
qed simp

lemma flying_all_wait: "\<forall>b\<in>set bs. sb_state b = Wait \<Longrightarrow> flying bs = 0"
  by (induction bs) (simp_all add: air_len_def)

lemma unat_add_nat64: "unat (w :: u64) + n < 2 ^ 64 \<Longrightarrow> unat (w + word_of_nat n) = unat w + n"
  by (simp add: unat_word_ariths unsigned_of_nat take_bit_nat_eq_self)

lemma chained_last_end:
  "chained p bs \<Longrightarrow> bs \<noteq> [] \<Longrightarrow> p + length (blocks_data bs) < 2 ^ 64 \<Longrightarrow>
   unat (sb_end (last bs)) = p + length (blocks_data bs)"
proof (induction bs arbitrary: p)
  case (Cons b bs)
  then show ?case
    by (cases "bs = []") (auto simp: sb_end_def sb_len_def unat_add_nat64)
qed simp

lemma sq_invD:
  assumes "sq_inv A q"
  shows "length (nagle_buffer q) = mss" "length A < 2 ^ 64" "unat (sq_start q) \<le> length A"
    "drop (unat (sq_start q)) A = queue_data q" "length (queue_data q) \<le> sq_capacity q"
    "chained (unat (sq_start q)) (sq_blocks q)" "air_first (sq_blocks q)"
    "sq_flight q = flying (sq_blocks q)"
    "length A = unat (sq_start q) + length (queue_data q)"
    "sq_nagle q = Nagle t len \<Longrightarrow> len \<le> mss"
proof -
  show "length A = unat (sq_start q) + length (queue_data q)"
    using assms unfolding sq_inv_def by (metis le_add_diff_inverse length_drop)
qed (use assms in \<open>auto simp: sq_inv_def\<close>)

lemma block_end_unat:
  assumes "sq_inv A q"
  shows "unat (block_end q) = unat (sq_start q) + length (blocks_data (sq_blocks q))"
  using sq_invD(2,6,9) [OF assms] chained_last_end [of "unat (sq_start q)" "sq_blocks q"]
  by (auto simp: block_end_def queue_data_def)

lemma nagle_data_length:
  assumes "sq_inv A q"
  shows "length (nagle_data q) = (case sq_nagle q of Nagle _ len \<Rightarrow> len | NagleNone \<Rightarrow> 0)"
  using sq_invD(1) [OF assms] sq_invD(10) [OF assms]
  by (auto simp: nagle_data_def split: nagle_state.splits)

lemma used_eq:
  assumes "sq_inv A q"
  shows "used q = Inr (length (queue_data q))"
proof -
  have le: "sq_start q \<le> block_end q"
    using block_end_unat [OF assms] by (simp add: word_le_nat_alt)
  then have "unat (block_end q - sq_start q) = length (blocks_data (sq_blocks q))"
    using block_end_unat [OF assms] by (simp add: unat_sub)
  then show ?thesis
    using le nagle_data_length [OF assms] by (simp add: used_def queue_data_def)
qed

lemma remain_eq:
  "sq_inv A q \<Longrightarrow> remain q = Inr (sq_capacity q - length (queue_data q))"
  by (simp add: remain_def used_eq sq_invD(5))

subsection \<open>Writing\<close>

lemma alloc_block_sel [simp]:
  "sq_capacity (alloc_block_from_owned d fin q) = sq_capacity q"
  "sq_start (alloc_block_from_owned d fin q) = sq_start q"
  "nagle_buffer (alloc_block_from_owned d fin q) = nagle_buffer q"
  "sq_nagle (alloc_block_from_owned d fin q) = sq_nagle q"
  "sq_flight (alloc_block_from_owned d fin q) = sq_flight q"
  by (simp_all add: alloc_block_from_owned_def)

lemma sq_inv_alloc_block:
  assumes inv: "sq_inv A q" and none: "sq_nagle q = NagleNone"
    and room: "length (queue_data q) + length d \<le> sq_capacity q" and len: "length A + length d < 2 ^ 64"
  shows "sq_inv (A @ d) (alloc_block_from_owned d fin q)"
  using sq_invD [OF inv] none room len block_end_unat [OF inv] air_first_snoc [OF sq_invD(7) [OF inv]]
  by (simp add: sq_inv_def alloc_block_from_owned_def queue_data_def nagle_data_def air_len_def)

lemma sq_inv_flush_nagle:
  assumes inv: "sq_inv A q" and nagle: "sq_nagle q = Nagle t len"
  shows "sq_inv A ((alloc_block_from_owned (take len (nagle_buffer q)) fin q)\<lparr>sq_nagle := NagleNone\<rparr>)"
  using sq_invD [OF inv] nagle block_end_unat [OF inv] air_first_snoc [OF sq_invD(7) [OF inv]]
  by (simp add: sq_inv_def alloc_block_from_owned_def queue_data_def nagle_data_def air_len_def)

lemma enter_nagle_ok:
  assumes inv: "sq_inv A q" and none: "sq_nagle q = NagleNone" and small: "length d \<le> mss"
    and room: "length (queue_data q) + length d \<le> sq_capacity q" and len: "length A + length d < 2 ^ 64"
  shows "\<exists>q'. enter_nagle now d q = Inr q' \<and> sq_inv (A @ d) q' \<and> sq_blocks q' = sq_blocks q"
  using sq_invD [OF inv] none room len small
  by (simp add: enter_nagle_def copy_at_def sq_inv_def queue_data_def nagle_data_def)

lemma alloc_full_blocks_ok:
  assumes "sq_inv A q" "sq_nagle q = NagleNone"
    "length (queue_data q) + length d \<le> sq_capacity q" "length A + length d < 2 ^ 64"
  shows "\<exists>d' rest q'. alloc_full_blocks d q = (rest, q') \<and> d = d' @ rest \<and> length rest < mss \<and>
     sq_inv (A @ d') q' \<and> sq_nagle q' = NagleNone \<and> sq_capacity q' = sq_capacity q \<and>
     (\<exists>bs. sq_blocks q' = sq_blocks q @ bs \<and> (\<forall>b\<in>set bs. \<not> sb_fin b))"
  using assms
proof (induction d q arbitrary: A rule: alloc_full_blocks.induct)
  case (1 d q)
  show ?case
  proof (cases "mss \<le> length d")
    case False
    then show ?thesis
      using 1(2,3) by (subst alloc_full_blocks.simps) simp
  next
    case True
    let ?q = "alloc_block_from_shared (take mss d) False q"
    have inv: "sq_inv (A @ take mss d) ?q"
      using 1(2-5) True by (simp add: alloc_block_from_shared_def sq_inv_alloc_block)
    have sel: "sq_nagle ?q = NagleNone" "sq_capacity ?q = sq_capacity q"
      "sq_blocks ?q = sq_blocks q @
         [\<lparr>sb_data = take mss d, sb_start = block_end q, sb_state = Wait, sb_fin = False\<rparr>]"
      using 1(3) by (simp_all add: alloc_block_from_shared_def alloc_block_from_owned_def)
    have qd: "length (queue_data ?q) = length (queue_data q) + mss"
      using 1(3) True sel by (simp add: queue_data_def nagle_data_def)
    have room: "length (queue_data ?q) + length (drop mss d) \<le> sq_capacity ?q"
      "length (A @ take mss d) + length (drop mss d) < 2 ^ 64"
      using 1(4,5) True sel(2) qd by simp_all
    obtain d' rest q' bs where ih: "alloc_full_blocks (drop mss d) ?q = (rest, q')" "drop mss d = d' @ rest"
      "length rest < mss" "sq_inv ((A @ take mss d) @ d') q'" "sq_nagle q' = NagleNone"
      "sq_capacity q' = sq_capacity ?q" "sq_blocks q' = sq_blocks ?q @ bs" "\<forall>b\<in>set bs. \<not> sb_fin b"
      using "1.IH" [OF True inv sel(1) room] by blast
    have "alloc_full_blocks d q = (rest, q')"
      using ih(1) True by (subst alloc_full_blocks.simps) simp
    moreover have "d = (take mss d @ d') @ rest"
      using ih(2) by (metis append_assoc append_take_drop_id)
    moreover have "sq_inv (A @ take mss d @ d') q'" "sq_capacity q' = sq_capacity q"
      using ih(4,6) sel(2) by simp_all
    moreover have "\<exists>bs. sq_blocks q' = sq_blocks q @ bs \<and> (\<forall>b\<in>set bs. \<not> sb_fin b)"
      using ih(7,8) sel(3) by simp
    ultimately show ?thesis
      using ih(3,5) by blast
  qed
qed

lemma alloc_full_blocks_start: "alloc_full_blocks d q = (rest, q1) \<Longrightarrow> sq_start q1 = sq_start q"
  by (induction d q rule: alloc_full_blocks.induct)
    (subst (asm) (2) alloc_full_blocks.simps, auto simp: alloc_block_from_shared_def split: if_splits)

lemma alloc_rest_ok:
  assumes inv: "sq_inv A q" and none: "sq_nagle q = NagleNone \<or> d = []"
    and room: "length (queue_data q) + length d \<le> sq_capacity q" and len: "length A + length d < 2 ^ 64"
  shows "\<exists>q'. alloc_rest now d q = Inr q' \<and> sq_inv (A @ d) q' \<and>
     (\<exists>bs. sq_blocks q' = sq_blocks q @ bs \<and> (\<forall>b\<in>set bs. \<not> sb_fin b))"
proof (cases "d = []")
  case True
  then have "alloc_full_blocks d q = ([], q)"
    by (subst alloc_full_blocks.simps) (simp add: mss_def MTU_def)
  then show ?thesis
    using True inv by (simp add: alloc_rest_def)
next
  case False
  then have "sq_nagle q = NagleNone"
    using none by simp
  then obtain d' rest q1 bs where q1: "alloc_full_blocks d q = (rest, q1)" "d = d' @ rest" "length rest < mss"
    "sq_inv (A @ d') q1" "sq_nagle q1 = NagleNone" "sq_capacity q1 = sq_capacity q"
    "sq_blocks q1 = sq_blocks q @ bs" "\<forall>b\<in>set bs. \<not> sb_fin b"
    using alloc_full_blocks_ok [OF inv _ room len] by blast
  show ?thesis
  proof (cases "rest = []")
    case True
    then show ?thesis
      using q1 by (simp add: alloc_rest_def)
  next
    case False
    have "length (queue_data q1) + length rest \<le> sq_capacity q1"
      using sq_invD(9) [OF q1(4)] sq_invD(9) [OF inv] alloc_full_blocks_start [OF q1(1)] q1(2,6) room by simp
    then obtain q2 where "enter_nagle now rest q1 = Inr q2" "sq_inv ((A @ d') @ rest) q2"
      "sq_blocks q2 = sq_blocks q1"
      using enter_nagle_ok [OF q1(4,5), of rest now] q1(2,3) len by auto
    then show ?thesis
      using q1 False by (simp add: alloc_rest_def)
  qed
qed

lemma extend_nagle_ok:
  assumes inv: "sq_inv A q" and nagle: "sq_nagle q = Nagle t n" and fits: "n + length d \<le> mss"
    and room: "length (queue_data q) + length d \<le> sq_capacity q" and len: "length A + length d < 2 ^ 64"
  shows "\<exists>buffer. copy_at n d (nagle_buffer q) = Inr buffer \<and>
     sq_inv (A @ d) (q\<lparr>nagle_buffer := buffer, sq_nagle := Nagle t (n + length d)\<rparr>)"
  using sq_invD [OF inv] nagle room len fits
  by (simp add: copy_at_def sq_inv_def queue_data_def nagle_data_def)

lemma queue_data_grows:
  assumes "sq_inv A q" "sq_inv (A @ d) q'" "sq_start q' = sq_start q"
  shows "length (queue_data q') = length (queue_data q) + length d"
  using sq_invD(9) [OF assms(1)] sq_invD(9) [OF assms(2)] assms(3) by simp

lemma alloc_nagle_ok:
  assumes inv: "sq_inv A q" and nagle: "sq_nagle q = Nagle t n"
    and room: "length (queue_data q) + length d \<le> sq_capacity q" and len: "length A + length d < 2 ^ 64"
    and nl: "nl = (if length d + n < mss then length d else mss - n)"
  shows "\<exists>buffer q1 q'. copy_at n (take nl d) (nagle_buffer q) = Inr buffer \<and>
     q1 = q\<lparr>nagle_buffer := buffer, sq_nagle := Nagle t (n + nl)\<rparr> \<and>
     alloc_rest now (drop nl d)
       (if mss \<le> length d + n then (alloc_block_from_owned (nagle_buffer q1) False q1)\<lparr>sq_nagle := NagleNone\<rparr>
        else q1) = Inr q' \<and> sq_inv (A @ d) q' \<and>
     (\<exists>bs. sq_blocks q' = sq_blocks q @ bs \<and> (\<forall>b\<in>set bs. \<not> sb_fin b))"
proof -
  have nle: "n \<le> mss" "nl \<le> length d" "n + nl \<le> mss"
    using sq_invD(10) [OF inv nagle] nl by (auto split: if_splits)
  have lt: "length (take nl d) = nl"
    using nle(2) by simp
  obtain buffer where b: "copy_at n (take nl d) (nagle_buffer q) = Inr buffer"
    "sq_inv (A @ take nl d) (q\<lparr>nagle_buffer := buffer, sq_nagle := Nagle t (n + nl)\<rparr>)"
    using extend_nagle_ok [OF inv nagle, of "take nl d"] nle room len unfolding lt by auto
  let ?q1 = "q\<lparr>nagle_buffer := buffer, sq_nagle := Nagle t (n + nl)\<rparr>"
  let ?q2 = "if mss \<le> length d + n
     then (alloc_block_from_owned (nagle_buffer ?q1) False ?q1)\<lparr>sq_nagle := NagleNone\<rparr> else ?q1"
  have full: "take (n + nl) (nagle_buffer ?q1) = nagle_buffer ?q1" if "mss \<le> length d + n"
    using sq_invD(1) [OF b(2)] nl nle that by simp
  have inv2: "sq_inv (A @ take nl d) ?q2"
    using b(2) sq_inv_flush_nagle [OF b(2), of t "n + nl" False] full
    by (cases "mss \<le> length d + n") simp_all
  have blocks: "\<exists>bs. sq_blocks ?q2 = sq_blocks q @ bs \<and> (\<forall>b\<in>set bs. \<not> sb_fin b)"
    by (simp add: alloc_block_from_owned_def)
  have "sq_start ?q2 = sq_start q" and cap: "sq_capacity ?q2 = sq_capacity q"
    by simp_all
  then have room2: "length (queue_data ?q2) + length (drop nl d) \<le> sq_capacity ?q2"
    using queue_data_grows [OF inv inv2] nle(2) room lt by simp
  have len2: "length (A @ take nl d) + length (drop nl d) < 2 ^ 64"
    using len nle(2) by simp
  have none: "sq_nagle ?q2 = NagleNone \<or> drop nl d = []"
    using nl by simp
  obtain q' bs where "alloc_rest now (drop nl d) ?q2 = Inr q'" "sq_inv ((A @ take nl d) @ drop nl d) q'"
    "sq_blocks q' = sq_blocks ?q2 @ bs" "\<forall>b\<in>set bs. \<not> sb_fin b"
    using alloc_rest_ok [OF inv2 none room2 len2] by blast
  moreover have "(A @ take nl d) @ drop nl d = A @ d"
    by simp
  moreover obtain bs2 where "sq_blocks ?q2 = sq_blocks q @ bs2" "\<forall>b\<in>set bs2. \<not> sb_fin b"
    using blocks by blast
  ultimately have "alloc_rest now (drop nl d) ?q2 = Inr q' \<and> sq_inv (A @ d) q' \<and>
     sq_blocks q' = sq_blocks q @ (bs2 @ bs) \<and> (\<forall>b\<in>set (bs2 @ bs). \<not> sb_fin b)"
    by (simp del: append_assoc) auto
  then show ?thesis
    using b(1) by blast
qed

lemma alloc_taken_ok:
  assumes inv: "sq_inv A q"
    and room: "length (queue_data q) + length d \<le> sq_capacity q" and len: "length A + length d < 2 ^ 64"
  shows "\<exists>q'. alloc_taken now d q = Inr q' \<and> sq_inv (A @ d) q' \<and>
     (\<exists>bs. sq_blocks q' = sq_blocks q @ bs \<and> (\<forall>b\<in>set bs. \<not> sb_fin b))"
proof (cases "sq_nagle q")
  case NagleNone
  show ?thesis
    using enter_nagle_ok [OF inv NagleNone _ room len, of now] alloc_rest_ok [OF inv _ room len, of now]
    by (cases "length d < mss") (auto simp: alloc_taken_def NagleNone)
next
  case (Nagle t m)
  define nl where "nl = (if length d + m < mss then length d else mss - m)"
  have "(if length d + m < mss then Inr (length d) else checked_sub mss m) = (Inr nl :: nat result)" "nl \<le> length d"
    using sq_invD(10) [OF inv Nagle] by (auto simp: nl_def)
  then show ?thesis
    using alloc_nagle_ok [OF inv Nagle room len nl_def, of now]
    by (auto simp: alloc_taken_def Nagle Let_def)
qed

lemma alloc_blocks_ok:
  assumes inv: "sq_inv A q" and len: "length A + length buf < 2 ^ 64"
    and n: "n = min (length buf) (sq_capacity q - length (queue_data q))"
  shows "\<exists>q'. alloc_blocks now buf q = Inr (n, q') \<and> sq_inv (A @ take n buf) q' \<and>
     (\<exists>bs. sq_blocks q' = sq_blocks q @ bs \<and> (\<forall>b\<in>set bs. \<not> sb_fin b))"
proof -
  let ?r = "sq_capacity q - length (queue_data q)"
  have d: "(if ?r < length buf then take ?r buf else buf) = take n buf" "length (take n buf) = n"
    using n by (simp_all add: min_def)
  have "\<exists>q'. alloc_taken now (take n buf) q = Inr q' \<and> sq_inv (A @ take n buf) q' \<and>
     (\<exists>bs. sq_blocks q' = sq_blocks q @ bs \<and> (\<forall>b\<in>set bs. \<not> sb_fin b))"
    by (rule alloc_taken_ok [OF inv]) (use n len sq_invD(5) [OF inv] in simp_all)
  moreover have "n = 0" if "?r = 0"
    using n that by simp
  ultimately show ?thesis
    using inv d by (cases "?r = 0") (auto simp: alloc_blocks_def remain_eq [OF inv] Let_def)
qed

lemma sq_inv_new [simp]: "sq_inv [] (send_queue_new capacity)"
  by (simp add: sq_inv_def send_queue_new_def queue_data_def nagle_data_def)

lemma check_nagle_ok:
  assumes inv: "sq_inv A q"
  shows "\<exists>sent q'. check_nagle now nagle q = Inr (sent, q') \<and> sq_inv A q' \<and> (fin_last q \<longrightarrow> fin_last q')"
proof (cases "sq_nagle q")
  case NagleNone
  then show ?thesis using inv by (auto simp: check_nagle_def)
next
  case (Nagle t n)
  let ?q = "(alloc_block_from_owned (take n (nagle_buffer q)) False q)\<lparr>sq_nagle := NagleNone\<rparr>"
  have "sq_inv A ?q"
    by (rule sq_inv_flush_nagle [OF inv Nagle])
  moreover have "fin_last q \<Longrightarrow> fin_last ?q"
    by (cases "sq_blocks q" rule: rev_cases)
      (auto simp: fin_last_def alloc_block_from_owned_def Nagle butlast_append)
  ultimately show ?thesis
    using inv Nagle sq_invD(1) [OF inv] sq_invD(10) [OF inv Nagle] by (auto simp: check_nagle_def)
qed

lemma sq_close_ok:
  assumes inv: "sq_inv A q"
  shows "\<exists>q'. sq_close q = Inr q' \<and> sq_inv A q' \<and>
    (fin_last q \<longrightarrow> fin_last q' \<and> is_closed q')"
proof (cases "sq_blocks q = [] \<or> \<not> sb_fin (last (sq_blocks q))")
  case False
  then show ?thesis
    using inv by (auto simp: sq_close_def fin_last_def is_closed_def)
next
  case True
  have "fin_last q \<Longrightarrow> \<forall>b\<in>set (sq_blocks q). \<not> sb_fin b"
    using True by (cases "sq_blocks q" rule: rev_cases) (auto simp: fin_last_def)
  then show ?thesis
    using sq_inv_flush_nagle [OF inv] sq_inv_alloc_block [OF inv, of "[]" True] sq_invD(1,2,5) [OF inv]
      sq_invD(10) [OF inv] True
    by (cases "sq_nagle q")
      (simp_all add: sq_close_def fin_last_def is_closed_def alloc_block_from_owned_def)
qed

lemma alloc_blocks_fin_last:
  assumes "alloc_blocks now buf q = Inr (n, q')" "sq_blocks q' = sq_blocks q @ bs"
    "\<forall>b\<in>set bs. \<not> sb_fin b" "\<forall>b\<in>set (sq_blocks q). \<not> sb_fin b"
  shows "fin_last q'"
proof -
  have nf: "\<forall>b\<in>set (sq_blocks q'). \<not> sb_fin b"
    using assms(2-4) by auto
  then show ?thesis
    unfolding fin_last_def by (meson in_set_butlastD last_in_set)
qed

lemma enter_nagle_start: "enter_nagle now d q = Inr q' \<Longrightarrow> sq_start q' = sq_start q"
  by (auto simp: enter_nagle_def rbind_eq_Inr)

lemma alloc_rest_start: "alloc_rest now d q = Inr q' \<Longrightarrow> sq_start q' = sq_start q"
  by (auto simp: alloc_rest_def split: prod.splits if_splits
      dest!: enter_nagle_start alloc_full_blocks_start)

lemma alloc_taken_start: "alloc_taken now d q = Inr q' \<Longrightarrow> sq_start q' = sq_start q"
  by (auto simp: alloc_taken_def rbind_eq_Inr Let_def split: nagle_state.splits if_splits
      dest!: enter_nagle_start alloc_rest_start)

lemma alloc_blocks_start: "alloc_blocks now buf q = Inr (n, q') \<Longrightarrow> sq_start q' = sq_start q"
  by (auto simp: alloc_blocks_def rbind_eq_Inr Let_def split: if_splits dest!: alloc_taken_start)

lemma check_nagle_blocks:
  "check_nagle now nagle q = Inr (sent, q') \<Longrightarrow> sq_start q' = sq_start q \<and>
   (\<exists>bs. sq_blocks q' = sq_blocks q @ bs \<and> (\<forall>b\<in>set bs. \<not> sb_fin b) \<and>
      (sq_nagle q = NagleNone \<longrightarrow> bs = [] \<and> sq_nagle q' = NagleNone))"
  by (auto simp: check_nagle_def alloc_block_from_owned_def split: nagle_state.splits if_splits)

lemma sq_close_blocks:
  "sq_close q = Inr q' \<Longrightarrow> sq_start q' = sq_start q \<and>
   (if sq_blocks q \<noteq> [] \<and> sb_fin (last (sq_blocks q)) then q' = q
    else \<exists>b. sq_blocks q' = sq_blocks q @ [b] \<and> sb_fin b \<and> sb_len b \<le> length (nagle_buffer q) \<and>
      sq_nagle q' = NagleNone)"
  by (auto simp: sq_close_def alloc_block_from_owned_def sb_len_def split: nagle_state.splits if_splits)

subsection \<open>Acknowledgement\<close>

lemma confirm_scan_ok:
  assumes "confirm_scan ack_pos fin_ack bs = (n, fin, k, d)"
  shows "n = length (blocks_data (take k bs)) \<and> d = flying (take k bs) \<and>
    (fin \<longleftrightarrow> (\<exists>b\<in>set (take k bs). sb_fin b)) \<and> (\<forall>b\<in>set (take k bs). sb_end b \<le> ack_pos)"
  using assms
proof (induction bs arbitrary: n fin k d)
  case (Cons b bs)
  obtain n' fin' k' d' where r: "confirm_scan ack_pos fin_ack bs = (n', fin', k', d')"
    by (metis prod_cases4)
  show ?case
  proof (cases "sb_end b \<le> ack_pos \<and> (sb_fin b \<longrightarrow> fin_ack)")
    case True
    then have "n = sb_len b + n' \<and> fin = (sb_fin b \<or> fin') \<and> k = Suc k' \<and> d = air_len b + d'"
      using Cons.prems r by (auto simp: air_len_def)
    then show ?thesis
      using Cons.IH [OF r] True by (auto simp: sb_len_def)
  next
    case False
    then show ?thesis
      using Cons.prems r by (auto split: if_splits)
  qed
qed simp

lemma confirm_ok:
  assumes inv: "sq_inv A q"
  shows "\<exists>n fin q' k. confirm ack_pos fin_ack q = Inr ((n, fin), q') \<and> sq_inv A q' \<and>
     unat (sq_start q') = unat (sq_start q) + n \<and> sq_blocks q' = drop k (sq_blocks q) \<and>
     sq_nagle q' = sq_nagle q \<and> sq_capacity q' = sq_capacity q \<and>
     n = length (blocks_data (take k (sq_blocks q))) \<and>
     (fin \<longleftrightarrow> (\<exists>b\<in>set (take k (sq_blocks q)). sb_fin b)) \<and>
     (\<forall>b\<in>set (take k (sq_blocks q)). sb_end b \<le> ack_pos)"
proof -
  obtain n fin k d where scan: "confirm_scan ack_pos fin_ack (sq_blocks q) = (n, fin, k, d)"
    by (metis prod_cases4)
  have ok: "n = length (blocks_data (take k (sq_blocks q)))" "d = flying (take k (sq_blocks q))"
    "fin \<longleftrightarrow> (\<exists>b\<in>set (take k (sq_blocks q)). sb_fin b)"
    "\<forall>b\<in>set (take k (sq_blocks q)). sb_end b \<le> ack_pos"
    using confirm_scan_ok [OF scan] by blast+
  let ?ts = "take k (sq_blocks q)" and ?ds = "drop k (sq_blocks q)"
  have split: "flying (sq_blocks q) = flying ?ts + flying ?ds"
    "blocks_data (sq_blocks q) = blocks_data ?ts @ blocks_data ?ds"
    by (metis append_take_drop_id flying_simps(3), metis append_take_drop_id blocks_data_simps(3))
  let ?q = "q\<lparr>sq_blocks := ?ds, sq_flight := sq_flight q - d, sq_start := sq_start q + word_of_nat n\<rparr>"
  have eq: "confirm ack_pos fin_ack q = Inr ((n, fin), ?q)"
    using sq_invD(8) [OF inv] ok(2) split(1) by (simp add: confirm_def scan)
  have start: "unat (sq_start ?q) = unat (sq_start q) + n"
    using sq_invD(2,9) [OF inv] ok(1) split(2) by (simp add: unat_add_nat64 queue_data_def)
  have chain: "chained (unat (sq_start q) + length (blocks_data ?ts)) ?ds"
    using sq_invD(6) [OF inv] chained_append [of "unat (sq_start q)" ?ts ?ds]
    by (simp only: append_take_drop_id simp_thms)
  have qd: "queue_data q = blocks_data ?ts @ queue_data ?q"
    by (simp add: queue_data_def split(2))
  have "drop (unat (sq_start ?q)) A = drop n (drop (unat (sq_start q)) A)"
    using start by (simp add: add.commute)
  then have data: "drop (unat (sq_start ?q)) A = queue_data ?q"
    using sq_invD(4) [OF inv] qd ok(1) by simp
  have "sq_inv A ?q"
    unfolding sq_inv_def
  proof (intro conjI)
    show "case sq_nagle ?q of Nagle _ len \<Rightarrow> len \<le> mss | NagleNone \<Rightarrow> True"
      using sq_invD(10) [OF inv] by (simp split: nagle_state.splits)
    show "chained (unat (sq_start ?q)) (sq_blocks ?q)"
      using chain start ok(1) by simp
    show "unat (sq_start ?q) \<le> length A" "length (queue_data ?q) \<le> sq_capacity ?q"
      using start qd ok(1) sq_invD(5,9) [OF inv] by simp_all
    show "sq_flight ?q = flying (sq_blocks ?q)"
      using sq_invD(8) [OF inv] ok(2) split(1) by simp
  qed (use sq_invD(1,2,7) [OF inv] data in \<open>simp_all add: air_first_drop\<close>)
  then show ?thesis
    using eq start ok(1,3,4) by auto
qed

lemma fin_last_drop: "fin_last q \<Longrightarrow> sq_blocks q' = drop k (sq_blocks q) \<Longrightarrow> sq_nagle q' = sq_nagle q \<Longrightarrow> fin_last q'"
  by (auto simp: fin_last_def butlast_drop dest: in_set_dropD)

subsection \<open>Sending\<close>

text \<open>Blocks that differ in their state only.\<close>

definition sb_content :: "send_block \<Rightarrow> bytes \<times> u64 \<times> bool" where
  "sb_content b = (sb_data b, sb_start b, sb_fin b)"

lemma sb_content_update [simp]: "sb_content (b\<lparr>sb_state := s\<rparr>) = sb_content b"
  by (simp add: sb_content_def)

lemma sb_content_parts:
  "sb_content b = sb_content c \<Longrightarrow> sb_data b = sb_data c \<and> sb_start b = sb_start c \<and> sb_fin b = sb_fin c"
  by (simp add: sb_content_def)

lemma check_wnd_loop_content:
  "check_wnd_loop now timeout cwnd fl beyond bs = (bs', fl', ps) \<Longrightarrow>
   map sb_content bs' = map sb_content bs \<and> (\<forall>p\<in>set ps. \<exists>b\<in>set bs. p = to_session_data now b)"
  by (induction bs arbitrary: fl beyond bs' fl' ps)
    (auto simp: Let_def split: if_splits block_state.splits prod.splits)

lemma check_wnd_loop_beyond:
  "check_wnd_loop now timeout cwnd fl True bs = (bs', fl', ps) \<Longrightarrow> air_first bs \<Longrightarrow>
   fl' = fl \<and> (\<forall>b\<in>set bs'. sb_state b = Wait)"
proof (induction bs arbitrary: bs' fl' ps)
  case (Cons b bs)
  then show ?case by (cases "sb_state b") (auto split: prod.splits)
qed simp

lemma check_wnd_loop_flight:
  "check_wnd_loop now timeout cwnd fl False bs = (bs', fl', ps) \<Longrightarrow> air_first bs \<Longrightarrow>
   air_first bs' \<and> fl' = fl + flying bs'"
proof (induction bs arbitrary: fl bs' fl' ps)
  case (Cons b bs)
  have af: "air_first bs"
    using Cons.prems(2) by (auto split: if_splits intro: air_first_all_wait)
  have wait: "air_first (b # bs) \<and> flying (b # bs) = 0" if "sb_state b = Wait"
    using Cons.prems(2) that by (simp add: air_len_def flying_all_wait)
  show ?case
  proof (cases "word_of_nat (fl + sb_len b) > cwnd")
    case True
    then show ?thesis
      using Cons.prems(1) wait af
      by (cases "sb_state b")
        (auto simp: air_len_def flying_all_wait dest!: check_wnd_loop_beyond split: prod.splits)
  next
    case False
    then show ?thesis
      using Cons.prems(1) af
      by (cases "sb_state b")
        (auto simp: air_len_def sb_len_def Let_def split: prod.splits if_splits dest!: Cons.IH)
  qed
qed simp

lemma content_chained: "map sb_content bs' = map sb_content bs \<Longrightarrow> chained p bs' = chained p bs"
proof (induction bs arbitrary: bs' p)
  case (Cons b bs)
  then obtain c cs where c: "bs' = c # cs" "sb_content c = sb_content b" "map sb_content cs = map sb_content bs"
    by auto
  then show ?case
    using Cons.IH [OF c(3)] sb_content_parts [OF c(2)] by (simp add: sb_len_def)
qed simp

lemma content_data:
  assumes "map sb_content bs' = map sb_content bs"
  shows "blocks_data bs' = blocks_data bs"
proof -
  have "map sb_data xs = map fst (map sb_content xs)" for xs
    by (simp add: sb_content_def)
  then show ?thesis
    using assms by (simp only: blocks_data_def)
qed

lemma content_fin:
  assumes "map sb_content bs' = map sb_content bs"
  shows "map sb_fin bs' = map sb_fin bs"
proof -
  have "map sb_fin xs = map (snd \<circ> snd) (map sb_content xs)" for xs
    by (simp add: sb_content_def)
  then show ?thesis
    using assms by (simp only:)
qed

lemma fin_last_map:
  "fin_last q \<longleftrightarrow> (\<forall>f\<in>set (butlast (map sb_fin (sq_blocks q))). \<not> f) \<and>
     (map sb_fin (sq_blocks q) \<noteq> [] \<and> last (map sb_fin (sq_blocks q)) \<longrightarrow> sq_nagle q = NagleNone)"
  by (auto simp: fin_last_def map_butlast [symmetric] last_map)

lemma sq_check_wnd_ok:
  assumes inv: "sq_inv A q" and eq: "sq_check_wnd now timeout cwnd q = (ps, q')"
  shows "sq_inv A q'" "map sb_content (sq_blocks q') = map sb_content (sq_blocks q)"
    "sq_nagle q' = sq_nagle q" "sq_start q' = sq_start q" "sq_capacity q' = sq_capacity q"
    "fin_last q' \<longleftrightarrow> fin_last q" "p \<in> set ps \<Longrightarrow> \<exists>b\<in>set (sq_blocks q). p = to_session_data now b"
proof -
  obtain bs' fl where loop: "check_wnd_loop now timeout cwnd 0 False (sq_blocks q) = (bs', fl, ps)"
    and q': "q' = q\<lparr>sq_blocks := bs', sq_flight := fl\<rparr>"
    using eq by (auto simp: sq_check_wnd_def split: prod.splits)
  note c = check_wnd_loop_content [OF loop]
  show content: "map sb_content (sq_blocks q') = map sb_content (sq_blocks q)"
    using c q' by simp
  show "sq_inv A q'"
    using inv check_wnd_loop_flight [OF loop sq_invD(7) [OF inv]] content_chained [of bs' "sq_blocks q"]
      content_data [of bs' "sq_blocks q"] c q'
    by (simp add: sq_inv_def queue_data_def)
  show "fin_last q' \<longleftrightarrow> fin_last q"
    using content_fin [OF content] q' by (simp add: fin_last_map)
  show "p \<in> set ps \<Longrightarrow> \<exists>b\<in>set (sq_blocks q). p = to_session_data now b"
    using c by blast
qed (use eq in \<open>auto simp: sq_check_wnd_def split: prod.splits\<close>)

lemma check_wnd_loop_bound:
  assumes "check_wnd_loop now timeout cwnd fl beyond bs = (bs', fl', ps)"
    "fl + length (blocks_data bs) < 2 ^ 64" "fl \<le> unat cwnd"
  shows "fl' \<le> unat cwnd"
  using assms
proof (induction bs arbitrary: fl beyond bs' fl' ps)
  case (Cons b bs)
  let ?post = "fl + sb_len b"
  have "?post < 2 ^ 64" and rest: "?post + length (blocks_data bs) < 2 ^ 64"
    "fl + length (blocks_data bs) < 2 ^ 64"
    using Cons.prems(2) by (simp_all add: sb_len_def)
  then have post: "word_of_nat ?post > cwnd \<longleftrightarrow> ?post > unat cwnd"
    by (simp add: word_less_nat_alt unsigned_of_nat take_bit_nat_eq_self del: of_nat_add)
  show ?case
  proof (cases "beyond \<or> ?post > unat cwnd")
    case True
    then have "fl' = fl \<or> (\<exists>x y. check_wnd_loop now timeout cwnd fl True bs = (x, fl', y))"
      using Cons.prems(1) post
      by (cases "check_wnd_loop now timeout cwnd fl True bs"; cases "sb_state b"; cases beyond)
        (simp_all add: Let_def del: of_nat_add)
    then show ?thesis
      using Cons.IH [OF _ rest(2) Cons.prems(3)] Cons.prems(3) by auto
  next
    case False
    then have "\<exists>x y. check_wnd_loop now timeout cwnd ?post False bs = (x, fl', y)"
      using Cons.prems(1) post
      by (cases "check_wnd_loop now timeout cwnd ?post False bs"; cases "sb_state b")
        (simp_all add: Let_def del: of_nat_add split: if_splits)
    then show ?thesis
      using Cons.IH [OF _ rest(1)] False by auto
  qed
qed simp

text \<open>A window that holds every block and time-outs that have all expired: everything is sent.\<close>

definition due :: "u64 \<Rightarrow> nat \<Rightarrow> send_block \<Rightarrow> bool" where
  "due now timeout b =
     (case sb_state b of
        OnAir sent \<Rightarrow> now > sent \<and> from_micros (now - sent) > timeout
      | Wait \<Rightarrow> True)"

lemma check_wnd_loop_all:
  assumes "fl + length (blocks_data bs) \<le> unat cwnd" "\<forall>b\<in>set bs. due now timeout b"
  shows "check_wnd_loop now timeout cwnd fl False bs =
    (map (\<lambda>b. b\<lparr>sb_state := OnAir now\<rparr>) bs, fl + length (blocks_data bs), map (to_session_data now) bs)"
  using assms
proof (induction bs arbitrary: fl)
  case (Cons b bs)
  let ?post = "fl + sb_len b"
  have le: "?post \<le> unat cwnd"
    using Cons.prems(1) by (simp add: sb_len_def)
  have "unat cwnd < 2 ^ 64"
    using unsigned_less [of cwnd] by simp
  then have "?post < 2 ^ 64"
    using le by (rule le_less_trans [rotated])
  then have "unat (word_of_nat ?post :: u64) = ?post"
    by (simp add: unsigned_of_nat take_bit_nat_eq_self del: of_nat_add)
  then have "\<not> word_of_nat ?post > cwnd"
    using le by (simp add: word_less_nat_alt del: of_nat_add)
  moreover have "check_wnd_loop now timeout cwnd ?post False bs =
      (map (\<lambda>b. b\<lparr>sb_state := OnAir now\<rparr>) bs, ?post + length (blocks_data bs), map (to_session_data now) bs)"
    using Cons.prems by (intro Cons.IH) (simp_all add: sb_len_def)
  ultimately show ?case
    using Cons.prems(2)
    by (cases "sb_state b") (simp_all add: due_def sb_len_def del: of_nat_add)
qed simp

text \<open>What a package may say: its payload is the part of the stream at its position, and only a
  package that ends the closed stream carries FIN.\<close>

definition slice_ok :: "bytes \<Rightarrow> nat \<Rightarrow> bytes \<Rightarrow> bool" where
  "slice_ok S pos d \<longleftrightarrow> pos + length d \<le> length S \<and> d = take (length d) (drop pos S)"

definition package_ok :: "bytes \<Rightarrow> bool \<Rightarrow> session_data \<Rightarrow> bool" where
  "package_ok S closed p \<longleftrightarrow>
     slice_ok S (unat (stream_pos p)) (payload p) \<and>
     (is_flags_contain p SESSIONDATA_FLAG_FIN \<longrightarrow>
        closed \<and> unat (stream_pos p) + length (payload p) = length S)"

lemma slice_ok_iff: "slice_ok S pos d \<longleftrightarrow> (\<exists>u v. S = u @ d @ v \<and> length u = pos)"
proof
  assume "slice_ok S pos d"
  then have "S = take pos S @ d @ drop (length d) (drop pos S)" "length (take pos S) = pos"
    unfolding slice_ok_def by (metis append_take_drop_id, simp)
  then show "\<exists>u v. S = u @ d @ v \<and> length u = pos" by blast
qed (auto simp: slice_ok_def)

lemma slice_ok_append:
  assumes "slice_ok S pos d" "slice_ok S (pos + length d) e"
  shows "slice_ok S pos (d @ e)"
  using assms by (simp add: slice_ok_def take_add add.commute add.left_commute)

lemma slice_ok_take: "slice_ok S pos d \<Longrightarrow> slice_ok S pos (take n d)"
  unfolding slice_ok_iff by (metis append.assoc append_take_drop_id)

lemma slice_ok_drop:
  assumes "slice_ok S pos d" "n \<le> length d"
  shows "slice_ok S (pos + n) (drop n d)"
proof -
  obtain u v where "S = u @ d @ v" "length u = pos"
    using assms(1) unfolding slice_ok_iff by blast
  then have "S = (u @ take n d) @ drop n d @ v" "length (u @ take n d) = pos + n"
    using assms(2) by simp_all
  then show ?thesis
    unfolding slice_ok_iff by blast
qed

lemma slice_ok_extend:
  assumes "slice_ok S pos d"
  shows "slice_ok (S @ T) pos d"
proof -
  obtain u v where "S = u @ d @ v" "length u = pos"
    using assms unfolding slice_ok_iff by blast
  then have "S @ T = u @ d @ (v @ T)"
    by simp
  then show ?thesis
    using \<open>length u = pos\<close> unfolding slice_ok_iff by blast
qed

lemma slice_ok_Nil [simp]: "slice_ok S pos [] \<longleftrightarrow> pos \<le> length S"
  by (simp add: slice_ok_def)

lemma to_session_data_sel [simp]:
  "payload (to_session_data when b) = sb_data b"
  "stream_pos (to_session_data when b) = sb_start b"
  "send_time (to_session_data when b) = when"
  by (simp_all add: to_session_data_def flags_add_def Let_def)

lemma flag_bits [simp]:
  "is_flags_contain (to_session_data when b) SESSIONDATA_FLAG_FIN \<longleftrightarrow> sb_fin b"
  "\<not> is_flags_contain (to_session_data when b) SESSIONDATA_FLAG_ACK"
  "\<not> is_flags_contain (to_session_data when b) SESSIONDATA_FLAG_RESET"
  "\<not> is_flags_contain (to_session_data when b) SESSIONDATA_FLAG_FINACK"
  "\<not> is_flags_contain (to_session_data when b) SESSIONDATA_FLAG_ACK_PACKAGEID"
  by (cases "sb_fin b"; simp add: to_session_data_def is_flags_contain_def flags_add_def Let_def
      session_data_new_def sessiondata_flag_defs)+

lemma block_slice:
  assumes inv: "sq_inv A q" and b: "sq_blocks q = us @ b # vs"
  shows "unat (sb_start b) + sb_len b \<le> length A"
    "sb_data b = take (sb_len b) (drop (unat (sb_start b)) A)"
    "unat (sb_start b) + sb_len b + length (blocks_data vs @ nagle_data q) = length A"
proof -
  have start: "unat (sb_start b) = unat (sq_start q) + length (blocks_data us)"
    using sq_invD(6) [OF inv] b by simp
  have data: "drop (unat (sq_start q)) A = blocks_data us @ sb_data b @ blocks_data vs @ nagle_data q"
    using sq_invD(4) [OF inv] b by (simp add: queue_data_def)
  have "drop (unat (sb_start b)) A = drop (length (blocks_data us)) (drop (unat (sq_start q)) A)"
    using start by (simp add: add.commute)
  then have "drop (unat (sb_start b)) A = sb_data b @ blocks_data vs @ nagle_data q"
    using data by simp
  then show "sb_data b = take (sb_len b) (drop (unat (sb_start b)) A)"
    by (simp add: sb_len_def)
  show "unat (sb_start b) + sb_len b + length (blocks_data vs @ nagle_data q) = length A"
    using start data sq_invD(9) [OF inv] b by (simp add: queue_data_def sb_len_def)
  then show "unat (sb_start b) + sb_len b \<le> length A"
    by simp
qed

lemma block_package_ok:
  assumes inv: "sq_inv A q" and fin: "fin_last q" and b: "b \<in> set (sq_blocks q)"
  shows "package_ok A (is_closed q) (to_session_data when b)"
proof -
  obtain us vs where s: "sq_blocks q = us @ b # vs"
    using b by (meson split_list)
  have last: "vs = [] \<and> sq_nagle q = NagleNone" if "sb_fin b"
    using fin s that by (cases vs rule: rev_cases) (auto simp: fin_last_def butlast_append)
  have "is_closed q \<and> unat (sb_start b) + sb_len b = length A" if "sb_fin b"
    using last [OF that] block_slice(3) [OF inv s] s that by (simp add: is_closed_def nagle_data_def)
  then show ?thesis
    unfolding package_ok_def slice_ok_def to_session_data_sel flag_bits sb_len_def [symmetric]
    using block_slice(1,2) [OF inv s] by blast
qed

subsection \<open>Properties\<close>

text \<open>Writing to the send queue never panics and takes exactly as many bytes as there is room
  for. The queue then stands for the stream extended by those bytes: the blocks and the Nagle buffer
  hold, in order and without a gap, everything written and not yet acknowledged.\<close>

theorem alloc_blocks_appends:
  assumes "sq_inv A q" and "length A + length buf < 2 ^ 64"
  shows "\<exists>n q'. alloc_blocks now buf q = Inr (n, q') \<and>
     n = min (length buf) (sq_capacity q - length (queue_data q)) \<and> sq_inv (A @ take n buf) q'"
  using alloc_blocks_ok [OF assms refl] by blast

theorem alloc_blocks_appends_witness:
  "\<exists>n q'. alloc_blocks 7 [1, 2, 3] (send_queue_new 2) = Inr (n, q') \<and>
     n = min (length [1, 2, 3 :: u8]) (sq_capacity (send_queue_new 2) - length (queue_data (send_queue_new 2))) \<and>
     sq_inv ([] @ take n [1, 2, 3]) q'"
  by (rule alloc_blocks_appends) simp_all

text \<open>An acknowledgement never panics, whatever position it names: the subtraction from the bytes
  in flight cannot underflow. It removes a prefix of the blocks, each one wholly below the
  acknowledged position, advances \<open>start\<close> by their size, and keeps the rest of the stream.\<close>

theorem confirm_removes_acked:
  assumes "sq_inv A q"
  shows "\<exists>n fin q' k. confirm ack_pos fin_ack q = Inr ((n, fin), q') \<and> sq_inv A q' \<and>
     unat (sq_start q') = unat (sq_start q) + n \<and> sq_blocks q' = drop k (sq_blocks q) \<and>
     (\<forall>b\<in>set (take k (sq_blocks q)). sb_end b \<le> ack_pos) \<and>
     (fin \<longleftrightarrow> (\<exists>b\<in>set (take k (sq_blocks q)). sb_fin b))"
  using confirm_ok [OF assms, of ack_pos fin_ack] by blast

definition sample_queue :: send_queue where
  "sample_queue =
     \<lparr>sq_capacity = 10, sq_start = 0, nagle_buffer = replicate mss 0, sq_nagle = NagleNone,
      sq_blocks = [\<lparr>sb_data = [1, 2], sb_start = 0, sb_state = OnAir 5, sb_fin = False\<rparr>,
        \<lparr>sb_data = [3], sb_start = 2, sb_state = Wait, sb_fin = True\<rparr>],
      sq_flight = 2\<rparr>"

lemma sample_queue_inv: "sq_inv [1, 2, 3] sample_queue" "fin_last sample_queue"
  by (simp_all add: sq_inv_def fin_last_def sample_queue_def queue_data_def nagle_data_def
      sb_len_def air_len_def)

theorem confirm_removes_acked_witness:
  "\<exists>n fin q' k. confirm 2 False sample_queue = Inr ((n, fin), q') \<and> sq_inv [1, 2, 3] q' \<and>
     unat (sq_start q') = unat (sq_start sample_queue) + n \<and>
     sq_blocks q' = drop k (sq_blocks sample_queue) \<and>
     (\<forall>b\<in>set (take k (sq_blocks sample_queue)). sb_end b \<le> 2) \<and>
     (fin \<longleftrightarrow> (\<exists>b\<in>set (take k (sq_blocks sample_queue)). sb_fin b))"
  by (rule confirm_removes_acked [OF sample_queue_inv(1)])

text \<open>C17: Every package the window check emits carries exactly the bytes of the written stream at its
  position, FIN only on the package that ends a closed stream. The bytes in flight afterwards are
  those of the blocks on the air and never exceed the congestion window, and the queue still stands
  for the same stream.\<close>

theorem check_wnd_sound:
  assumes "sq_inv A q" and "fin_last q" and "sq_check_wnd now timeout cwnd q = (ps, q')"
  shows "sq_inv A q' \<and> fin_last q' \<and> sq_flight q' = flying (sq_blocks q') \<and> sq_flight q' \<le> unat cwnd \<and>
     (\<forall>p\<in>set ps. package_ok A (is_closed q) p \<and> send_time p = now)"
proof -
  obtain bs' fl where loop: "check_wnd_loop now timeout cwnd 0 False (sq_blocks q) = (bs', fl, ps)"
    and q': "q' = q\<lparr>sq_blocks := bs', sq_flight := fl\<rparr>"
    using assms(3) by (auto simp: sq_check_wnd_def split: prod.splits)
  have "length (blocks_data (sq_blocks q)) < 2 ^ 64"
    using sq_invD(2,9) [OF assms(1)] by (simp add: queue_data_def)
  then have "sq_flight q' \<le> unat cwnd"
    using check_wnd_loop_bound [OF loop] q' by simp
  moreover have "\<forall>p\<in>set ps. package_ok A (is_closed q) p \<and> send_time p = now"
    using sq_check_wnd_ok(7) [OF assms(1,3)] block_package_ok [OF assms(1,2)]
    by (metis to_session_data_sel(3))
  ultimately show ?thesis
    using sq_check_wnd_ok(1,6) [OF assms(1,3)] assms(2) sq_invD(8) by blast
qed

theorem check_wnd_sound_witness:
  "\<exists>ps q'. sq_check_wnd 9 0 100 sample_queue = (ps, q') \<and> length ps = 2 \<and>
     sq_inv [1, 2, 3] q' \<and> fin_last q' \<and> sq_flight q' = flying (sq_blocks q') \<and>
     sq_flight q' \<le> unat (100 :: u64) \<and>
     (\<forall>p\<in>set ps. package_ok [1, 2, 3] (is_closed sample_queue) p \<and> send_time p = 9)"
proof -
  obtain ps q' where eq: "sq_check_wnd 9 0 100 sample_queue = (ps, q')"
    by fastforce
  moreover have "length ps = 2"
    using eq by (auto simp: sq_check_wnd_def sample_queue_def from_micros_def sb_len_def)
  ultimately show ?thesis
    using check_wnd_sound [OF sample_queue_inv eq] by blast
qed

text \<open>C21: Nothing that was written is forgotten: once every transmission has timed out and the
  congestion window holds the queued blocks, one window check sends every block again, in order, and
  marks it as sent now.\<close>

theorem check_wnd_resends_all:
  assumes "sq_inv A q" and "length (blocks_data (sq_blocks q)) \<le> unat cwnd"
    and "\<forall>b\<in>set (sq_blocks q). due now timeout b"
  shows "\<exists>q'. sq_check_wnd now timeout cwnd q = (map (to_session_data now) (sq_blocks q), q') \<and>
     sq_blocks q' = map (\<lambda>b. b\<lparr>sb_state := OnAir now\<rparr>) (sq_blocks q) \<and>
     sq_flight q' = length (blocks_data (sq_blocks q)) \<and> sq_inv A q'"
proof -
  let ?q = "q\<lparr>sq_blocks := map (\<lambda>b. b\<lparr>sb_state := OnAir now\<rparr>) (sq_blocks q),
    sq_flight := length (blocks_data (sq_blocks q))\<rparr>"
  have "sq_check_wnd now timeout cwnd q = (map (to_session_data now) (sq_blocks q), ?q)"
    using check_wnd_loop_all [of 0 "sq_blocks q" cwnd now timeout] assms(2,3)
    by (simp add: sq_check_wnd_def)
  then show ?thesis
    using sq_check_wnd_ok(1) [OF assms(1)] by fastforce
qed

theorem check_wnd_resends_all_witness:
  "\<exists>q'. sq_check_wnd 9 0 100 sample_queue = (map (to_session_data 9) (sq_blocks sample_queue), q') \<and>
     sq_blocks q' = map (\<lambda>b. b\<lparr>sb_state := OnAir 9\<rparr>) (sq_blocks sample_queue) \<and>
     sq_flight q' = length (blocks_data (sq_blocks sample_queue)) \<and> sq_inv [1, 2, 3] q'"
  by (rule check_wnd_resends_all [OF sample_queue_inv(1)])
    (simp_all add: sample_queue_def due_def from_micros_def)

end
