(* ===== verification/RecvQueue.thy ===== *)
theory RecvQueue
  imports SendQueue
begin

text \<open>
  The receive queue of a package stream, from \<^verbatim>\<open>component/cyfs-bdt/src/stream/package/recv_queue.rs\<close>: the bytes
  received in order and not yet read, in a ring buffer, and the list of blocks received ahead of
  them. The ring buffer is the crate \<open>ringbuf\<close>; its operations are the fields of the record
  \<open>ringbuf\<close>, and what the queue relies on is the locale \<open>ring_buffer\<close>.
\<close>

subsection \<open>The ring buffer\<close>

text \<open>
  The two halves \<open>Producer\<close> and \<open>Consumer\<close> share one buffer. \<open>push_slice\<close> returns the number of
  elements stored; \<open>pop_slice\<close> gets the length of the target slice and returns the elements written
  to its front.
\<close>

record 'r ringbuf =
  rb_new :: "nat \<Rightarrow> 'r"
  rb_len :: "'r \<Rightarrow> nat"
  rb_push_slice :: "bytes \<Rightarrow> 'r \<Rightarrow> nat \<times> 'r"
  rb_pop_slice :: "nat \<Rightarrow> 'r \<Rightarrow> bytes \<times> 'r"

subsection \<open>Data\<close>

record recv_block =
  rbk_data :: bytes
  rbk_start :: u64
  rbk_fin :: bool

record 'r recv_queue =
  rq_capability :: u64
  rq_start :: u64
  rq_stream :: 'r
  rq_blocks :: "recv_block list"

definition rbk_end :: "recv_block \<Rightarrow> u64" where
  "rbk_end b = rbk_start b + word_of_nat (length (rbk_data b))"

subsection \<open>Operations\<close>

definition recv_queue_new :: "'r ringbuf \<Rightarrow> nat \<Rightarrow> 'r recv_queue" where
  "recv_queue_new rb capability =
     \<lparr>rq_capability = word_of_nat capability, rq_start = 0, rq_stream = rb_new rb capability,
      rq_blocks = []\<rparr>"

definition stream_end :: "'r ringbuf \<Rightarrow> 'r recv_queue \<Rightarrow> u64" where
  "stream_end rb q = rq_start q + word_of_nat (rb_len rb (rq_stream q))"

definition alloc_block :: "session_data \<Rightarrow> recv_block" where
  "alloc_block pkg =
     \<lparr>rbk_data = payload pkg, rbk_start = stream_pos pkg,
      rbk_fin = is_flags_contain pkg SESSIONDATA_FLAG_FIN\<rparr>"

definition stream_len :: "'r ringbuf \<Rightarrow> 'r recv_queue \<Rightarrow> nat" where
  "stream_len rb q = rb_len rb (rq_stream q)"

definition push_stream :: "'r ringbuf \<Rightarrow> bytes \<Rightarrow> 'r recv_queue \<Rightarrow> 'r recv_queue" where
  "push_stream rb d q = q\<lparr>rq_stream := snd (rb_push_slice rb d (rq_stream q))\<rparr>"

text \<open>The loop over the blocks that continue the stream: how many there are, and whether the last of
  them carries FIN.\<close>

fun drain_scan :: "u64 \<Rightarrow> recv_block list \<Rightarrow> nat \<times> bool" where
  "drain_scan stream_start [] = (0, False)"
| "drain_scan stream_start (b # bs) =
     (if rbk_start b = stream_start
      then (case drain_scan (rbk_end b) bs of (k, fin) \<Rightarrow> (Suc k, if k = 0 then rbk_fin b else fin))
      else (0, False))"

definition drain :: "'r ringbuf \<Rightarrow> 'r recv_queue \<Rightarrow> bool \<times> 'r recv_queue" where
  "drain rb q =
     (case drain_scan (stream_end rb q) (rq_blocks q) of (k, fin) \<Rightarrow>
        (fin, (fold (\<lambda>b. push_stream rb (rbk_data b)) (take k (rq_blocks q)) q)
           \<lparr>rq_blocks := drop k (rq_blocks q)\<rparr>))"

text \<open>The loop that looks for the block to insert before.\<close>

fun find_insert_before :: "session_data \<Rightarrow> recv_block list \<Rightarrow> nat option" where
  "find_insert_before pkg [] = None"
| "find_insert_before pkg (b # bs) =
     (if stream_pos pkg = rbk_start b then None
      else if stream_pos_end pkg \<le> rbk_start b then Some 0
      else map_option Suc (find_insert_before pkg bs))"

definition insert_block :: "session_data \<Rightarrow> recv_block list \<Rightarrow> recv_block list" where
  "insert_block pkg blocks =
     (let block = alloc_block pkg in
      if length blocks = 0 then blocks @ [block]
      else if \<not> rbk_fin (last blocks) then
        (if stream_pos pkg \<ge> rbk_end (last blocks) then blocks @ [block]
         else case find_insert_before pkg blocks of
             Some i \<Rightarrow> take i blocks @ [block] @ drop i blocks
           | None \<Rightarrow> blocks)
      else blocks)"

definition rq_push :: "'r ringbuf \<Rightarrow> session_data \<Rightarrow> 'r recv_queue \<Rightarrow>
    ((nat \<times> bool) \<times> 'r recv_queue) result" where
  "rq_push rb pkg q =
     (let fin_pkg = is_flags_contain pkg SESSIONDATA_FLAG_FIN in
      if \<not> fin_pkg \<and> length (payload pkg) = 0 then Inr ((0, False), q)
      else if \<not> fin_pkg \<and> stream_pos_end pkg \<le> stream_end rb q then Inr ((0, False), q)
      else if \<not> fin_pkg \<and> stream_pos_end pkg > rq_start q + rq_capability q then Inr ((0, False), q)
      else if stream_pos pkg = stream_end rb q then
        rbind (let q = push_stream rb (payload pkg) q in
               if fin_pkg then rbind (rassert (length (rq_blocks q) = 0)) (\<lambda>_. Inr (True, q))
               else Inr (drain rb q)) (\<lambda>(fin, q).
          if stream_pos pkg \<le> stream_end rb q
          then Inr ((unat (stream_end rb q - stream_pos pkg), fin), q)
          else Inl Panic)
      else Inr ((0, False), q\<lparr>rq_blocks := insert_block pkg (rq_blocks q)\<rparr>))"

text \<open>\<open>read_stream\<close> with a target slice of length \<open>n\<close> returns the bytes it read.\<close>

definition read_stream :: "'r ringbuf \<Rightarrow> nat \<Rightarrow> 'r recv_queue \<Rightarrow> bytes \<times> 'r recv_queue" where
  "read_stream rb n q =
     (case rb_pop_slice rb n (rq_stream q) of (d, r) \<Rightarrow>
        (d, q\<lparr>rq_stream := r, rq_start := rq_start q + word_of_nat (length d)\<rparr>))"

subsection \<open>What the queue relies on\<close>

locale ring_buffer =
  fixes rb :: "'r ringbuf" and content :: "'r \<Rightarrow> bytes" and cap :: "'r \<Rightarrow> nat"
  assumes content_new: "content (rb_new rb n) = []" and cap_new: "cap (rb_new rb n) = n"
    and len_content: "rb_len rb r = length (content r)"
    and push_slice: "rb_push_slice rb d r = (k, r') \<Longrightarrow>
      k = min (length d) (cap r - length (content r)) \<and>
      content r' = content r @ take k d \<and> cap r' = cap r"
    and pop_slice: "rb_pop_slice rb n r = (d, r') \<Longrightarrow>
      d = take n (content r) \<and> content r' = drop n (content r) \<and> cap r' = cap r"

text \<open>A ring buffer as a capacity and the list of its elements.\<close>

definition list_ring :: "(nat \<times> bytes) ringbuf" where
  "list_ring =
     \<lparr>rb_new = \<lambda>n. (n, []), rb_len = \<lambda>(n, xs). length xs,
      rb_push_slice = \<lambda>d (n, xs). (min (length d) (n - length xs),
        (n, xs @ take (min (length d) (n - length xs)) d)),
      rb_pop_slice = \<lambda>k (n, xs). (take k xs, (n, drop k xs))\<rparr>"

interpretation list_ring: ring_buffer list_ring snd fst
  by unfold_locales (auto simp: list_ring_def)

subsection \<open>Invariant\<close>

text \<open>
  The queue is related to the stream \<open>S\<close> of the peer: the ring buffer holds the part of \<open>S\<close> at
  \<open>start\<close>, each block a part of \<open>S\<close>; only the last block may carry FIN, which then ends the closed
  stream, and every other one is not empty and lies below the end of the window.
\<close>

definition rbk_ok :: "bytes \<Rightarrow> bool \<Rightarrow> nat \<Rightarrow> recv_block \<Rightarrow> bool" where
  "rbk_ok S closed high b \<longleftrightarrow>
     slice_ok S (unat (rbk_start b)) (rbk_data b) \<and>
     (if rbk_fin b then closed \<and> unat (rbk_start b) + length (rbk_data b) = length S
      else rbk_data b \<noteq> [] \<and> unat (rbk_start b) + length (rbk_data b) \<le> high)"

definition rq_inv :: "('r \<Rightarrow> bytes) \<Rightarrow> ('r \<Rightarrow> nat) \<Rightarrow> bytes \<Rightarrow> bool \<Rightarrow> 'r recv_queue \<Rightarrow> bool" where
  "rq_inv content cap S closed q \<longleftrightarrow>
     cap (rq_stream q) = unat (rq_capability q) \<and> length (content (rq_stream q)) \<le> cap (rq_stream q) \<and>
     length S + cap (rq_stream q) < 2 ^ 64 \<and>
     slice_ok S (unat (rq_start q)) (content (rq_stream q)) \<and>
     (\<forall>b\<in>set (rq_blocks q). rbk_ok S closed (unat (rq_start q) + cap (rq_stream q)) b) \<and>
     (\<forall>b\<in>set (butlast (rq_blocks q)). \<not> rbk_fin b)"

lemma rq_invD:
  assumes "rq_inv content cap S closed q"
  shows "cap (rq_stream q) = unat (rq_capability q)" "length (content (rq_stream q)) \<le> cap (rq_stream q)"
    "length S + cap (rq_stream q) < 2 ^ 64" "slice_ok S (unat (rq_start q)) (content (rq_stream q))"
    "b \<in> set (rq_blocks q) \<Longrightarrow> rbk_ok S closed (unat (rq_start q) + cap (rq_stream q)) b"
    "unat (rq_start q) + length (content (rq_stream q)) \<le> length S"
    "\<forall>b\<in>set (butlast (rq_blocks q)). \<not> rbk_fin b"
  using assms by (auto simp: rq_inv_def slice_ok_def)

text \<open>The end of the stream after blocks that continue it.\<close>

definition drained_end :: "u64 \<Rightarrow> recv_block list \<Rightarrow> u64" where
  "drained_end e bs = (if bs = [] then e else rbk_end (last bs))"

context ring_buffer
begin

lemma stream_end_unat:
  assumes "rq_inv content cap S closed q"
  shows "unat (stream_end rb q) = unat (rq_start q) + length (content (rq_stream q))"
  using rq_invD(3,6) [OF assms] by (simp add: stream_end_def len_content unat_add_nat64)

lemma window_end_unat:
  assumes "rq_inv content cap S closed q"
  shows "unat (rq_start q + rq_capability q) = unat (rq_start q) + cap (rq_stream q)"
  using rq_invD(1,3,6) [OF assms] by (simp add: unat_word_ariths)

lemma push_stream_content:
  "content (rq_stream (push_stream rb d q)) =
     content (rq_stream q) @ take (cap (rq_stream q) - length (content (rq_stream q))) d"
  "cap (rq_stream (push_stream rb d q)) = cap (rq_stream q)"
  "rq_start (push_stream rb d q) = rq_start q"
  "rq_blocks (push_stream rb d q) = rq_blocks q"
  "rq_capability (push_stream rb d q) = rq_capability q"
  using push_slice [of d "rq_stream q"]
  by (cases "rb_push_slice rb d (rq_stream q)"; auto simp: push_stream_def min_def)+

lemma push_stream_inv:
  assumes inv: "rq_inv content cap S closed q"
    and d: "slice_ok S (unat (rq_start q) + length (content (rq_stream q))) d"
  shows "rq_inv content cap S closed (push_stream rb d q)"
  using rq_invD [OF inv] slice_ok_append [OF rq_invD(4) [OF inv] slice_ok_take [OF d]]
  by (simp add: rq_inv_def push_stream_content)

lemma read_stream_ok:
  assumes inv: "rq_inv content cap S closed q"
  shows "\<exists>d q'. read_stream rb n q = (d, q') \<and> d = take n (content (rq_stream q)) \<and>
     slice_ok S (unat (rq_start q)) d \<and> unat (rq_start q') = unat (rq_start q) + length d \<and>
     content (rq_stream q') = drop n (content (rq_stream q)) \<and>
     rq_inv content cap S closed q' \<and> rq_blocks q' = rq_blocks q"
proof -
  obtain d r' where pop: "rb_pop_slice rb n (rq_stream q) = (d, r')"
    by fastforce
  have r: "d = take n (content (rq_stream q))" "content r' = drop n (content (rq_stream q))"
    "cap r' = cap (rq_stream q)"
    using pop_slice [OF pop] by blast+
  let ?q = "q\<lparr>rq_stream := r', rq_start := rq_start q + word_of_nat (length d)\<rparr>"
  have start: "unat (rq_start ?q) = unat (rq_start q) + length d"
    using rq_invD(2,3,6) [OF inv] r(1) by (simp add: unat_add_nat64)
  have dr: "content r' = drop (length d) (content (rq_stream q))"
    using r by (simp add: min_def)
  have "rq_inv content cap S closed ?q"
    using rq_invD(1,2,3,7) [OF inv] rq_invD(5) [OF inv] start r(3) dr
      slice_ok_drop [OF rq_invD(4) [OF inv], of "length d"] r(1)
    unfolding rq_inv_def by (fastforce simp: rbk_ok_def split: if_splits)
  moreover have "slice_ok S (unat (rq_start q)) d"
    using slice_ok_take [OF rq_invD(4) [OF inv]] r(1) by simp
  ultimately show ?thesis
    using pop r start by (simp add: read_stream_def)
qed

lemma rbk_end_unat:
  "rbk_ok S closed high b \<Longrightarrow> length S < 2 ^ 64 \<Longrightarrow>
   unat (rbk_end b) = unat (rbk_start b) + length (rbk_data b)"
  by (simp add: rbk_ok_def slice_ok_def rbk_end_def unat_add_nat64)

text \<open>Draining: the blocks that continue the stream are appended whole; only one that carries FIN, the
  last one, can be cut short.\<close>

lemma fold_drain:
  assumes "rq_inv content cap S closed q" "drain_scan (stream_end rb q) bs = (k, fin)"
    "\<forall>b\<in>set bs. rbk_ok S closed (unat (rq_start q) + cap (rq_stream q)) b"
    "\<forall>b\<in>set (butlast bs). \<not> rbk_fin b"
  shows "\<exists>q'. fold (\<lambda>b. push_stream rb (rbk_data b)) (take k bs) q = q' \<and>
    rq_inv content cap S closed q' \<and> rq_start q' = rq_start q \<and> cap (rq_stream q') = cap (rq_stream q) \<and>
    rq_blocks q' = rq_blocks q \<and> stream_end rb q \<le> stream_end rb q' \<and>
    (fin \<longrightarrow> closed \<and> (length S \<le> unat (rq_start q) + cap (rq_stream q) \<longrightarrow>
       unat (stream_end rb q') = length S) \<and> (\<exists>b\<in>set bs. rbk_fin b \<and> rbk_start b \<le> stream_end rb q')) \<and>
    (\<not> fin \<longrightarrow> stream_end rb q' = drained_end (stream_end rb q) (take k bs) \<and>
       (\<forall>b\<in>set (take k bs). \<not> rbk_fin b))"
  using assms
proof (induction bs arbitrary: q k fin)
  case (Cons b bs)
  show ?case
  proof (cases "rbk_start b = stream_end rb q")
    case False
    then show ?thesis using Cons.prems(1,2) by (auto simp: drained_end_def)
  next
    case True
    let ?q = "push_stream rb (rbk_data b) q"
    have ok: "rbk_ok S closed (unat (rq_start q) + cap (rq_stream q)) b"
      using Cons.prems(3) by simp
    have start: "unat (rbk_start b) = unat (rq_start q) + length (content (rq_stream q))"
      using stream_end_unat [OF Cons.prems(1)] True by simp
    have inv: "rq_inv content cap S closed ?q"
      using push_stream_inv [OF Cons.prems(1)] ok start by (simp add: rbk_ok_def)
    have mono: "stream_end rb q \<le> stream_end rb ?q"
      using stream_end_unat [OF inv] stream_end_unat [OF Cons.prems(1)]
      by (simp add: word_le_nat_alt push_stream_content)
    have whole: "stream_end rb ?q = rbk_end b"
      if "unat (rbk_start b) + length (rbk_data b) \<le> unat (rq_start q) + cap (rq_stream q)"
    proof -
      have "unat (stream_end rb ?q) = unat (rbk_end b)"
        using stream_end_unat [OF inv] rbk_end_unat [OF ok] rq_invD(3) [OF inv] start that
        by (simp add: push_stream_content)
      then show ?thesis by (rule word_unat_eq_iff [THEN iffD2])
    qed
    obtain k' fin' where r: "drain_scan (rbk_end b) bs = (k', fin')"
      by fastforce
    show ?thesis
    proof (cases "rbk_fin b")
      case True
      then have "bs = []"
        using Cons.prems(4) by (auto split: if_splits)
      then have "k = 1" "fin"
        using Cons.prems(2) \<open>rbk_start b = stream_end rb q\<close> True by auto
      moreover have "unat (stream_end rb ?q) = length S"
        if "length S \<le> unat (rq_start q) + cap (rq_stream q)"
        using whole rbk_end_unat [OF ok] rq_invD(3) [OF inv] ok True that by (simp add: rbk_ok_def)
      moreover have closed
        using ok True by (simp add: rbk_ok_def)
      ultimately show ?thesis
        using inv mono True \<open>rbk_start b = stream_end rb q\<close> by (simp add: push_stream_content)
    next
      case False
      have fits: "stream_end rb ?q = rbk_end b"
        using whole ok False by (simp add: rbk_ok_def)
      have kf: "k = Suc k'" "fin = fin'"
        using Cons.prems(2) True r False by (auto split: if_splits) (cases bs; auto split: if_splits prod.splits)+
      have nf: "\<forall>b\<in>set (butlast bs). \<not> rbk_fin b"
        using Cons.prems(4) by (auto split: if_splits)
      have scan: "drain_scan (stream_end rb ?q) bs = (k', fin)"
        using r fits kf by simp
      have oks: "\<forall>b\<in>set bs. rbk_ok S closed (unat (rq_start ?q) + cap (rq_stream ?q)) b"
        using Cons.prems(3) by (simp add: push_stream_content)
      show ?thesis
        using Cons.IH [OF inv scan oks nf] mono fits False kf(1)
        by (auto simp: push_stream_content drained_end_def)
    qed
  qed
qed (simp add: drained_end_def)

lemma drain_ok:
  assumes inv: "rq_inv content cap S closed q"
  obtains fin q' k where "drain rb q = (fin, q')" "rq_inv content cap S closed q'"
    "rq_start q' = rq_start q" "cap (rq_stream q') = cap (rq_stream q)"
    "stream_end rb q \<le> stream_end rb q'" "drain_scan (stream_end rb q) (rq_blocks q) = (k, fin)"
    "rq_blocks q' = drop k (rq_blocks q)"
    "fin \<Longrightarrow> closed \<and> (length S \<le> unat (rq_start q) + cap (rq_stream q) \<longrightarrow>
       unat (stream_end rb q') = length S)"
    "fin \<Longrightarrow> \<exists>b\<in>set (rq_blocks q). rbk_fin b \<and> rbk_start b \<le> stream_end rb q'"
    "\<not> fin \<Longrightarrow> stream_end rb q' = drained_end (stream_end rb q) (take k (rq_blocks q))"
    "\<not> fin \<Longrightarrow> \<forall>b\<in>set (take k (rq_blocks q)). \<not> rbk_fin b"
proof -
  obtain k fin where scan: "drain_scan (stream_end rb q) (rq_blocks q) = (k, fin)"
    by fastforce
  let ?q = "fold (\<lambda>b. push_stream rb (rbk_data b)) (take k (rq_blocks q)) q"
  let ?q' = "?q\<lparr>rq_blocks := drop k (rq_blocks q)\<rparr>"
  have fold: "rq_inv content cap S closed ?q" "rq_start ?q = rq_start q"
    "cap (rq_stream ?q) = cap (rq_stream q)" "rq_blocks ?q = rq_blocks q"
    "stream_end rb q \<le> stream_end rb ?q"
    "fin \<longrightarrow> closed \<and> (length S \<le> unat (rq_start q) + cap (rq_stream q) \<longrightarrow>
       unat (stream_end rb ?q) = length S) \<and> (\<exists>b\<in>set (rq_blocks q). rbk_fin b \<and> rbk_start b \<le> stream_end rb ?q)"
    "\<not> fin \<longrightarrow> stream_end rb ?q = drained_end (stream_end rb q) (take k (rq_blocks q)) \<and>
       (\<forall>b\<in>set (take k (rq_blocks q)). \<not> rbk_fin b)"
    using fold_drain [OF inv scan] rq_invD(5,7) [OF inv] by blast+
  have "rq_inv content cap S closed ?q'"
    using fold(1,4) by (auto simp: rq_inv_def butlast_drop dest: in_set_dropD)
  moreover have "stream_end rb ?q' = stream_end rb ?q"
    by (simp add: stream_end_def)
  moreover have "drain rb q = (fin, ?q')"
    by (simp add: drain_def scan)
  ultimately show ?thesis
    using that [of fin ?q' k] fold scan by simp
qed

end

subsection \<open>Insertion\<close>

lemma find_insert_before_Some:
  "find_insert_before pkg bs = Some i \<Longrightarrow>
   i < length bs \<and> stream_pos_end pkg \<le> rbk_start (bs ! i) \<and>
   (\<forall>c\<in>set (take i bs). stream_pos pkg \<noteq> rbk_start c \<and> \<not> stream_pos_end pkg \<le> rbk_start c)"
  by (induction bs arbitrary: i) (fastforce split: if_splits)+

lemma insert_block_cases:
  obtains (append) "insert_block pkg bs = bs @ [alloc_block pkg]"
      "bs = [] \<or> \<not> rbk_fin (last bs) \<and> rbk_end (last bs) \<le> stream_pos pkg"
  | (insert) i where "insert_block pkg bs = take i bs @ alloc_block pkg # drop i bs"
      "find_insert_before pkg bs = Some i" "\<not> rbk_fin (last bs)"
  | (ignore) "insert_block pkg bs = bs"
  by (cases "bs = []"; cases "rbk_fin (last bs)"; cases "rbk_end (last bs) \<le> stream_pos pkg";
      cases "find_insert_before pkg bs") (simp_all add: insert_block_def Let_def)

lemma insert_block_set: "set (insert_block pkg bs) \<subseteq> insert (alloc_block pkg) (set bs)"
  by (rule insert_block_cases [of pkg bs]) (auto dest: in_set_takeD in_set_dropD)

lemma package_pos_end:
  "package_ok S closed pkg \<Longrightarrow> length S < 2 ^ 64 \<Longrightarrow>
   unat (stream_pos_end pkg) = unat (stream_pos pkg) + length (payload pkg)"
  by (simp add: package_ok_def slice_ok_def stream_pos_end_def unat_add_nat64)

lemma all_not_fin:
  "\<forall>b\<in>set (butlast bs). \<not> rbk_fin b \<Longrightarrow> \<not> rbk_fin (last bs) \<Longrightarrow> b \<in> set bs \<Longrightarrow> \<not> rbk_fin b"
  by (cases bs rule: rev_cases) auto

lemma insert_block_not_fin:
  assumes nf: "\<forall>b\<in>set (butlast bs). \<not> rbk_fin b" and ok: "\<forall>b\<in>set bs. rbk_ok S closed high b"
    and pkg: "package_ok S closed pkg" "length S < 2 ^ 64"
  shows "\<forall>b\<in>set (butlast (insert_block pkg bs)). \<not> rbk_fin b"
proof (cases rule: insert_block_cases [of pkg bs])
  case append
  then show ?thesis using all_not_fin [OF nf] by auto
next
  case (insert i)
  note found = find_insert_before_Some [OF insert(2)]
  have all: "\<forall>b\<in>set bs. \<not> rbk_fin b"
    using all_not_fin [OF nf insert(3)] by blast
  have "bs ! i \<in> set bs"
    using found by simp
  then have "rbk_ok S closed high (bs ! i)" "\<not> rbk_fin (bs ! i)"
    using ok all by blast+
  then have "unat (rbk_start (bs ! i)) < length S"
    by (cases "rbk_data (bs ! i)") (auto simp: rbk_ok_def slice_ok_def)
  then have "\<not> is_flags_contain pkg SESSIONDATA_FLAG_FIN"
    using found package_pos_end [OF pkg] pkg(1) by (auto simp: package_ok_def word_le_nat_alt)
  then have "\<forall>b\<in>set (insert_block pkg bs). \<not> rbk_fin b"
    using all insert_block_set [of pkg bs] by (auto simp: alloc_block_def)
  then show ?thesis
    using in_set_butlastD by metis
next
  case ignore
  then show ?thesis using nf by simp
qed

context ring_buffer
begin

lemma insert_block_inv:
  assumes inv: "rq_inv content cap S closed q" and pkg: "package_ok S closed pkg"
    and win: "\<not> is_flags_contain pkg SESSIONDATA_FLAG_FIN \<Longrightarrow>
      payload pkg \<noteq> [] \<and> stream_pos_end pkg \<le> rq_start q + rq_capability q"
  shows "rq_inv content cap S closed (q\<lparr>rq_blocks := insert_block pkg (rq_blocks q)\<rparr>)"
proof -
  have len: "length S < 2 ^ 64"
    using rq_invD(3) [OF inv] by simp
  have "rbk_ok S closed (unat (rq_start q) + cap (rq_stream q)) (alloc_block pkg)"
    using pkg win package_pos_end [OF pkg len] window_end_unat [OF inv]
    by (auto simp: rbk_ok_def alloc_block_def package_ok_def word_le_nat_alt)
  then have "\<forall>b\<in>set (insert_block pkg (rq_blocks q)). rbk_ok S closed (unat (rq_start q) + cap (rq_stream q)) b"
    using insert_block_set [of pkg "rq_blocks q"] rq_invD(5) [OF inv] by blast
  moreover have "\<forall>b\<in>set (butlast (insert_block pkg (rq_blocks q))). \<not> rbk_fin b"
    using insert_block_not_fin [OF rq_invD(7) [OF inv] _ pkg len] rq_invD(5) [OF inv] by blast
  ultimately show ?thesis
    using inv by (simp add: rq_inv_def)
qed

lemma in_order_end:
  assumes inv: "rq_inv content cap S closed q" and inv': "rq_inv content cap S closed q'"
    and le: "stream_end rb q \<le> stream_end rb q'"
  shows "unat (stream_end rb q') = unat (stream_end rb q) + unat (stream_end rb q' - stream_end rb q)"
  using le by (simp add: unat_sub word_le_nat_alt)

lemma push_stream_end_le:
  assumes "rq_inv content cap S closed q" "rq_inv content cap S closed (push_stream rb d q)"
  shows "stream_end rb q \<le> stream_end rb (push_stream rb d q)"
  using stream_end_unat [OF assms(1)] stream_end_unat [OF assms(2)]
  by (simp add: word_le_nat_alt push_stream_content)

lemma push_stream_end:
  assumes "rq_inv content cap S closed q" "rq_inv content cap S closed (push_stream rb d q)"
    "unat (stream_end rb q) + length d \<le> unat (rq_start q) + cap (rq_stream q)"
  shows "unat (stream_end rb (push_stream rb d q)) = unat (stream_end rb q) + length d"
  using assms(3) stream_end_unat [OF assms(1)] stream_end_unat [OF assms(2)]
  by (simp add: push_stream_content)

lemma rq_push_ok:
  assumes inv: "rq_inv content cap S closed q" and pkg: "package_ok S closed pkg"
  shows "rq_push rb pkg q = Inl Panic \<and> is_flags_contain pkg SESSIONDATA_FLAG_FIN \<and>
       stream_pos pkg = stream_end rb q \<and> rq_blocks q \<noteq> [] \<or>
     (\<exists>n fin q'. rq_push rb pkg q = Inr ((n, fin), q') \<and> rq_inv content cap S closed q' \<and>
       rq_start q' = rq_start q \<and> unat (stream_end rb q') = unat (stream_end rb q) + n \<and>
       (fin \<longrightarrow> closed \<and> (length S \<le> unat (rq_start q) + cap (rq_stream q) \<longrightarrow>
          unat (stream_end rb q') = length S)))"
proof -
  let ?fin = "is_flags_contain pkg SESSIONDATA_FLAG_FIN"
  have slice: "slice_ok S (unat (stream_pos pkg)) (payload pkg)"
    using pkg by (simp add: package_ok_def)
  consider (ignored) "\<not> ?fin" "payload pkg = [] \<or> stream_pos_end pkg \<le> stream_end rb q \<or>
      stream_pos_end pkg > rq_start q + rq_capability q"
    | (later) "stream_pos pkg \<noteq> stream_end rb q" "\<not> ?fin \<Longrightarrow> payload pkg \<noteq> [] \<and>
      \<not> stream_pos_end pkg \<le> stream_end rb q \<and> stream_pos_end pkg \<le> rq_start q + rq_capability q"
    | (fin) "stream_pos pkg = stream_end rb q" ?fin
    | (next_part) "stream_pos pkg = stream_end rb q" "\<not> ?fin" "payload pkg \<noteq> []"
      "\<not> stream_pos_end pkg \<le> stream_end rb q" "stream_pos_end pkg \<le> rq_start q + rq_capability q"
    by (meson leI)
  then show ?thesis
  proof cases
    case ignored
    then show ?thesis using inv by (auto simp: rq_push_def Let_def)
  next
    case later
    have "rq_push rb pkg q = Inr ((0, False), q\<lparr>rq_blocks := insert_block pkg (rq_blocks q)\<rparr>)"
      using later by (auto simp: rq_push_def Let_def)
    moreover have "rq_inv content cap S closed (q\<lparr>rq_blocks := insert_block pkg (rq_blocks q)\<rparr>)"
      using insert_block_inv [OF inv pkg] later(2) by blast
    ultimately show ?thesis
      by (auto simp: stream_end_def)
  next
    case fin
    let ?q = "push_stream rb (payload pkg) q"
    have inv': "rq_inv content cap S closed ?q"
      using push_stream_inv [OF inv, of "payload pkg"] slice fin(1) stream_end_unat [OF inv] by simp
    have all: "unat (stream_end rb ?q) = length S" if "length S \<le> unat (rq_start q) + cap (rq_stream q)"
      using push_stream_end [OF inv inv'] pkg fin that by (simp add: package_ok_def)
    show ?thesis
      using fin inv' push_stream_end_le [OF inv inv'] in_order_end [OF inv inv'] all pkg
      by (cases "rq_blocks q = []")
        (auto simp: rq_push_def Let_def push_stream_content package_ok_def)
  next
    case next_part
    let ?q = "push_stream rb (payload pkg) q"
    have inv': "rq_inv content cap S closed ?q"
      using push_stream_inv [OF inv, of "payload pkg"] slice next_part(1) stream_end_unat [OF inv] by simp
    obtain fin q' where d: "drain rb ?q = (fin, q')" "rq_inv content cap S closed q'" "rq_start q' = rq_start ?q"
      "stream_end rb ?q \<le> stream_end rb q'" "fin \<Longrightarrow> closed \<and> (length S \<le> unat (rq_start ?q) + cap (rq_stream ?q) \<longrightarrow>
       unat (stream_end rb q') = length S)"
      using drain_ok [OF inv'] by metis
    have le: "stream_end rb q \<le> stream_end rb q'"
      using push_stream_end_le [OF inv inv'] d(4) by (rule order_trans)
    then show ?thesis
      using next_part d in_order_end [OF inv d(2) le]
      by (auto simp: rq_push_def Let_def push_stream_content)
  qed
qed

end

subsection \<open>Packages cut at fixed positions\<close>

text \<open>
  A sender cuts its stream once: the blocks it sends, and sends again, begin and end at the positions
  \<open>B\<close> and have none of them inside; there is one final block, which begins at \<open>F\<close>. Against such a
  sender the blocks kept for later are in order, disjoint and strictly ahead of the stream.
\<close>

definition seg_ok :: "nat set \<Rightarrow> nat \<Rightarrow> nat \<Rightarrow> nat \<Rightarrow> bool \<Rightarrow> bool" where
  "seg_ok B F pos len fin \<longleftrightarrow>
     pos \<in> B \<and> pos + len \<in> B \<and> (\<forall>x\<in>B. \<not> (pos < x \<and> x < pos + len)) \<and>
     (if fin then pos = F else pos + len \<le> F)"

definition package_seg :: "nat set \<Rightarrow> nat \<Rightarrow> session_data \<Rightarrow> bool" where
  "package_seg B F pkg \<longleftrightarrow>
     seg_ok B F (unat (stream_pos pkg)) (length (payload pkg)) (is_flags_contain pkg SESSIONDATA_FLAG_FIN)"

abbreviation rbk_stop :: "recv_block \<Rightarrow> nat" where
  "rbk_stop b \<equiv> unat (rbk_start b) + length (rbk_data b)"

definition rq_seg :: "'r ringbuf \<Rightarrow> nat set \<Rightarrow> nat \<Rightarrow> 'r recv_queue \<Rightarrow> bool" where
  "rq_seg rb B F q \<longleftrightarrow>
     unat (stream_end rb q) \<in> B \<and> unat (stream_end rb q) \<le> F \<and>
     (\<forall>b\<in>set (rq_blocks q). seg_ok B F (unat (rbk_start b)) (length (rbk_data b)) (rbk_fin b) \<and>
        unat (stream_end rb q) < unat (rbk_start b)) \<and>
     sorted_wrt (\<lambda>a b. rbk_stop a \<le> unat (rbk_start b)) (rq_blocks q)"

lemma seg_ok_disjoint:
  assumes "seg_ok B F p n f" "seg_ok B F' p' n' f'" "p < p'"
  shows "p + n \<le> p'"
  using assms by (auto simp: seg_ok_def not_less)

lemma drained_ahead:
  assumes "drain_scan e bs = (k, fin)" "sorted_wrt (\<lambda>a b. rbk_stop a \<le> unat (rbk_start b)) bs"
    "\<forall>b\<in>set bs. unat e \<le> unat (rbk_start b)" "\<forall>b\<in>set bs. unat (rbk_end b) = rbk_stop b"
  shows "\<forall>c\<in>set (drop k bs). unat (drained_end e (take k bs)) < unat (rbk_start c)"
  using assms
proof (induction bs arbitrary: e k fin)
  case (Cons b bs)
  show ?case
  proof (cases "rbk_start b = e")
    case True
    obtain k' fin' where r: "drain_scan (rbk_end b) bs = (k', fin')"
      by fastforce
    then have k: "k = Suc k'"
      using Cons.prems(1) True by simp
    have "\<forall>c\<in>set (drop k' bs). unat (drained_end (rbk_end b) (take k' bs)) < unat (rbk_start c)"
      using Cons.IH [OF r] Cons.prems(2,4) by simp
    then show ?thesis
      using k by (auto simp: drained_end_def split: if_splits)
  next
    case False
    then have "unat e < unat (rbk_start b)"
      using Cons.prems(3) by (simp add: le_neq_implies_less word_unat_eq_iff)
    then show ?thesis
      using False Cons.prems(1,2) by (fastforce simp: drained_end_def)
  qed
qed simp

lemma insert_block_sorted:
  assumes seg: "\<forall>b\<in>set bs. seg_ok B F (unat (rbk_start b)) (length (rbk_data b)) (rbk_fin b)"
    and sorted: "sorted_wrt (\<lambda>a b. rbk_stop a \<le> unat (rbk_start b)) bs"
    and ends: "\<forall>b\<in>set bs. unat (rbk_end b) = rbk_stop b"
    and pkg: "package_seg B F pkg" "unat (stream_pos_end pkg) = unat (stream_pos pkg) + length (payload pkg)"
  shows "sorted_wrt (\<lambda>a b. rbk_stop a \<le> unat (rbk_start b)) (insert_block pkg bs)"
proof (cases rule: insert_block_cases [of pkg bs])
  case append
  have "rbk_stop c \<le> unat (stream_pos pkg)" if c: "c \<in> set bs" for c
  proof -
    obtain cs d where bs: "bs = cs @ [d]"
      using c by (cases bs rule: rev_cases) auto
    have "rbk_stop d \<le> unat (stream_pos pkg)"
      using append(2) bs ends by (auto simp: word_le_nat_alt)
    then show ?thesis
      using c sorted bs by (auto simp: sorted_wrt_append)
  qed
  then show ?thesis
    using append(1) sorted by (simp add: sorted_wrt_append alloc_block_def)
next
  case (insert i)
  note found = find_insert_before_Some [OF insert(2)]
  have before: "rbk_stop c \<le> unat (stream_pos pkg)" if "c \<in> set (take i bs)" for c
  proof -
    have c: "c \<in> set bs" "stream_pos pkg \<noteq> rbk_start c" "unat (rbk_start c) < unat (stream_pos_end pkg)"
      using that found by (auto simp: word_le_nat_alt dest: in_set_takeD)
    have "unat (rbk_start c) \<noteq> unat (stream_pos pkg)"
      using c(2) by (metis word_unat_eq_iff)
    moreover have segc: "seg_ok B F (unat (rbk_start c)) (length (rbk_data c)) (rbk_fin c)"
      using seg c(1) by blast
    then have "\<not> (unat (stream_pos pkg) < unat (rbk_start c) \<and>
        unat (rbk_start c) < unat (stream_pos pkg) + length (payload pkg))"
      using pkg(1) unfolding package_seg_def seg_ok_def by blast
    ultimately have "unat (rbk_start c) < unat (stream_pos pkg)"
      using c(3) pkg(2) by linarith
    then show ?thesis
      by (rule seg_ok_disjoint [OF segc pkg(1) [unfolded package_seg_def]])
  qed
  have after: "unat (stream_pos_end pkg) \<le> unat (rbk_start c)" if "c \<in> set (drop i bs)" for c
  proof -
    have "drop i bs = bs ! i # drop (Suc i) bs"
      using found by (simp add: Cons_nth_drop_Suc)
    moreover have "sorted_wrt (\<lambda>a b. rbk_stop a \<le> unat (rbk_start b)) (drop i bs)"
      using sorted by (rule sorted_wrt_drop)
    ultimately show ?thesis
      using that found by (auto simp: word_le_nat_alt)
  qed
  have "sorted_wrt (\<lambda>a b. rbk_stop a \<le> unat (rbk_start b)) (take i bs @ drop i bs)"
    using sorted by simp
  then show ?thesis
    using before after pkg(2) unfolding insert(1)
    by (auto simp: sorted_wrt_append alloc_block_def simp del: append_take_drop_id)
qed (use sorted in simp)

context ring_buffer
begin

lemma rq_block_ends:
  assumes "rq_inv content cap S closed q" "b \<in> set (rq_blocks q)"
  shows "unat (rbk_end b) = rbk_stop b"
  using rbk_end_unat [OF rq_invD(5) [OF assms]] rq_invD(3) [OF assms(1)] by simp

lemma insert_block_seg:
  assumes inv: "rq_inv content cap S closed q" and pkg: "package_ok S closed pkg"
    and seg: "rq_seg rb B F q" "package_seg B F pkg" and ne: "stream_pos pkg \<noteq> stream_end rb q"
    and new: "\<not> is_flags_contain pkg SESSIONDATA_FLAG_FIN \<Longrightarrow> \<not> stream_pos_end pkg \<le> stream_end rb q"
  shows "rq_seg rb B F (q\<lparr>rq_blocks := insert_block pkg (rq_blocks q)\<rparr>)"
proof -
  let ?e = "unat (stream_end rb q)" and ?p = "unat (stream_pos pkg)"
  have pe: "unat (stream_pos_end pkg) = ?p + length (payload pkg)"
    using package_pos_end [OF pkg] rq_invD(3) [OF inv] by simp
  have "?p \<noteq> ?e"
    using ne by (metis word_unat_eq_iff)
  moreover have "\<not> ?p < ?e"
  proof (cases "is_flags_contain pkg SESSIONDATA_FLAG_FIN")
    case True
    then show ?thesis
      using seg by (simp add: rq_seg_def package_seg_def seg_ok_def)
  next
    case False
    then have "?e < ?p + length (payload pkg)" "?e \<in> B"
      using new pe seg(1) by (simp_all add: word_le_nat_alt rq_seg_def)
    then show ?thesis
      using seg(2) by (auto simp: package_seg_def seg_ok_def)
  qed
  ultimately have ahead: "?e < ?p"
    by simp
  have same: "stream_end rb (q\<lparr>rq_blocks := insert_block pkg (rq_blocks q)\<rparr>) = stream_end rb q"
    by (simp add: stream_end_def)
  have "sorted_wrt (\<lambda>a b. rbk_stop a \<le> unat (rbk_start b)) (insert_block pkg (rq_blocks q))"
    using seg(1) rq_block_ends [OF inv]
    by (intro insert_block_sorted [OF _ _ _ seg(2) pe]) (simp_all add: rq_seg_def)
  moreover have "seg_ok B F (unat (rbk_start b)) (length (rbk_data b)) (rbk_fin b) \<and> ?e < unat (rbk_start b)"
    if "b \<in> set (insert_block pkg (rq_blocks q))" for b
  proof -
    from that consider "b = alloc_block pkg" | "b \<in> set (rq_blocks q)"
      using insert_block_set [of pkg "rq_blocks q"] by blast
    then show ?thesis
      using ahead seg by cases (simp_all add: alloc_block_def package_seg_def rq_seg_def)
  qed
  ultimately show ?thesis
    using seg(1) by (simp add: rq_seg_def same)
qed

lemma drain_seg:
  assumes inv: "rq_inv content cap S closed q" and d: "drain rb q = (False, q')"
    and e: "unat (stream_end rb q) \<in> B" "unat (stream_end rb q) \<le> F"
    and blocks: "\<forall>b\<in>set (rq_blocks q). seg_ok B F (unat (rbk_start b)) (length (rbk_data b)) (rbk_fin b) \<and>
        unat (stream_end rb q) \<le> unat (rbk_start b)"
    and sorted: "sorted_wrt (\<lambda>a b. rbk_stop a \<le> unat (rbk_start b)) (rq_blocks q)"
  shows "rq_seg rb B F q'"
proof -
  obtain k where k: "drain_scan (stream_end rb q) (rq_blocks q) = (k, False)"
    "rq_blocks q' = drop k (rq_blocks q)"
    "stream_end rb q' = drained_end (stream_end rb q) (take k (rq_blocks q))"
    "\<forall>b\<in>set (take k (rq_blocks q)). \<not> rbk_fin b"
    using drain_ok [OF inv] d by (metis prod.inject)
  have "\<forall>c\<in>set (drop k (rq_blocks q)). unat (stream_end rb q') < unat (rbk_start c)"
    unfolding k(3) using drained_ahead [OF k(1) sorted] blocks rq_block_ends [OF inv] by blast
  moreover have "unat (stream_end rb q') \<in> B \<and> unat (stream_end rb q') \<le> F"
  proof (cases "take k (rq_blocks q) = []")
    case True
    then show ?thesis using e k(3) by (simp add: drained_end_def)
  next
    case False
    let ?b = "last (take k (rq_blocks q))"
    have b: "?b \<in> set (rq_blocks q)" "\<not> rbk_fin ?b"
      using last_in_set [OF False] k(4) in_set_takeD by metis+
    then have "seg_ok B F (unat (rbk_start ?b)) (length (rbk_data ?b)) False"
      using blocks by metis
    then show ?thesis
      using k(3) False rq_block_ends [OF inv b(1)] by (simp add: drained_end_def seg_ok_def)
  qed
  moreover have "sorted_wrt (\<lambda>a b. rbk_stop a \<le> unat (rbk_start b)) (drop k (rq_blocks q))"
    using sorted by (rule sorted_wrt_drop)
  ultimately show ?thesis
    using blocks unfolding rq_seg_def k(2) by (meson in_set_dropD)
qed

lemma fin_in_order_no_blocks:
  assumes "rq_seg rb B F q" "package_seg B F pkg" "is_flags_contain pkg SESSIONDATA_FLAG_FIN"
    "stream_pos pkg = stream_end rb q"
  shows "rq_blocks q = []"
proof (cases "rq_blocks q")
  case (Cons b bs)
  then show ?thesis
    using assms by (auto simp: rq_seg_def package_seg_def seg_ok_def split: if_splits)
qed

lemma rq_push_seg:
  assumes inv: "rq_inv content cap S closed q" and pkg: "package_ok S closed pkg"
    and seg: "rq_seg rb B F q" "package_seg B F pkg"
  shows "\<exists>n fin q'. rq_push rb pkg q = Inr ((n, fin), q') \<and> (\<not> fin \<longrightarrow> rq_seg rb B F q')"
proof -
  let ?fin = "is_flags_contain pkg SESSIONDATA_FLAG_FIN"
  obtain n fin q' where r: "rq_push rb pkg q = Inr ((n, fin), q')"
    using rq_push_ok [OF inv pkg] fin_in_order_no_blocks [OF seg] by blast
  have "rq_seg rb B F q'" if "\<not> fin"
  proof (cases "\<not> ?fin \<and> (payload pkg = [] \<or> stream_pos_end pkg \<le> stream_end rb q \<or>
      stream_pos_end pkg > rq_start q + rq_capability q)")
    case True
    then show ?thesis using r seg(1) by (auto simp: rq_push_def Let_def split: if_splits)
  next
    case fits: False
    show ?thesis
    proof (cases "stream_pos pkg = stream_end rb q")
      case False
      then have "q' = q\<lparr>rq_blocks := insert_block pkg (rq_blocks q)\<rparr>"
        using r fits by (auto simp: rq_push_def Let_def split: if_splits)
      then show ?thesis
        using insert_block_seg [OF inv pkg seg False] fits by blast
    next
      case pos: True
      let ?q = "push_stream rb (payload pkg) q"
      have inv': "rq_inv content cap S closed ?q"
        using push_stream_inv [OF inv, of "payload pkg"] pkg pos stream_end_unat [OF inv]
        by (simp add: package_ok_def)
      have nf: "\<not> ?fin" and d: "drain rb ?q = (False, q')"
        using r that fits pos by (auto simp: rq_push_def Let_def rbind_eq_Inr split: if_splits)
      have "unat (stream_pos_end pkg) \<le> unat (rq_start q) + cap (rq_stream q)"
        using fits nf window_end_unat [OF inv] by (simp add: word_le_nat_alt word_less_nat_alt)
      then have e: "unat (stream_end rb ?q) = unat (stream_pos pkg) + length (payload pkg)"
        using push_stream_end [OF inv inv'] package_pos_end [OF pkg] rq_invD(3) [OF inv] pos by simp
      have "unat (stream_end rb ?q) \<in> B" "unat (stream_end rb ?q) \<le> F"
        using e seg(2) nf by (simp_all add: package_seg_def seg_ok_def)
      moreover have "\<forall>b\<in>set (rq_blocks q). unat (stream_end rb ?q) \<le> unat (rbk_start b)"
        using seg(1) seg_ok_disjoint [OF seg(2) [unfolded package_seg_def]]
        unfolding e rq_seg_def pos by blast
      ultimately show ?thesis
        using drain_seg [OF inv' d] seg(1) by (simp add: rq_seg_def push_stream_content)
    qed
  qed
  then show ?thesis using r by blast
qed

text \<open>The end is reported no earlier than at the start of the final block.\<close>

lemma rq_push_fin:
  assumes inv: "rq_inv content cap S closed q" and pkg: "package_ok S closed pkg"
    and seg: "rq_seg rb B F q" "package_seg B F pkg" and push: "rq_push rb pkg q = Inr ((n, True), q')"
  shows "F \<le> unat (stream_end rb q')"
proof -
  let ?q = "push_stream rb (payload pkg) q"
  have pos: "stream_pos pkg = stream_end rb q"
    using push by (auto simp: rq_push_def Let_def split: if_splits)
  then have inv': "rq_inv content cap S closed ?q"
    using push_stream_inv [OF inv, of "payload pkg"] pkg stream_end_unat [OF inv] by (simp add: package_ok_def)
  show ?thesis
  proof (cases "is_flags_contain pkg SESSIONDATA_FLAG_FIN")
    case True
    then have "q' = ?q"
      using push pos by (auto simp: rq_push_def Let_def rbind_eq_Inr split: if_splits)
    then show ?thesis
      using push_stream_end_le [OF inv inv'] seg(2) True pos
      by (simp add: package_seg_def seg_ok_def word_le_nat_alt)
  next
    case False
    then have "drain rb ?q = (True, q')"
      using push pos by (auto simp: rq_push_def Let_def split: if_splits prod.splits)
    then obtain b where "b \<in> set (rq_blocks ?q)" "rbk_fin b" "rbk_start b \<le> stream_end rb q'"
      using drain_ok [OF inv'] by (metis prod.inject)
    then show ?thesis
      using seg(1) by (auto simp: rq_seg_def seg_ok_def word_le_nat_alt push_stream_content)
  qed
qed

end

subsection \<open>Properties\<close>

text \<open>C18: Whatever the network delivers, in whatever order and however often, as long as each package
  carries a part of the peer's stream: the receive queue either panics, and only on a final package
  that arrives in order while later blocks are kept, or the stream it holds grows by the reported
  number of bytes and is still a part of the peer's stream. The end is reported only for a closed
  stream and, if that fits the window, only once every byte of it is there.\<close>

theorem rq_push_in_stream:
  assumes "ring_buffer rb content cap" and "rq_inv content cap S closed q" and "package_ok S closed pkg"
  shows "rq_push rb pkg q = Inl Panic \<and> is_flags_contain pkg SESSIONDATA_FLAG_FIN \<and>
       stream_pos pkg = stream_end rb q \<and> rq_blocks q \<noteq> [] \<or>
     (\<exists>n fin q'. rq_push rb pkg q = Inr ((n, fin), q') \<and> rq_inv content cap S closed q' \<and>
       rq_start q' = rq_start q \<and> unat (stream_end rb q') = unat (stream_end rb q) + n \<and>
       (fin \<longrightarrow> closed \<and> (length S \<le> unat (rq_start q) + cap (rq_stream q) \<longrightarrow>
          unat (stream_end rb q') = length S)))"
  by (rule ring_buffer.rq_push_ok [OF assms])

definition sample_package :: "u64 \<Rightarrow> bytes \<Rightarrow> bool \<Rightarrow> session_data" where
  "sample_package pos d fin =
     to_session_data 0 \<lparr>sb_data = d, sb_start = pos, sb_state = Wait, sb_fin = fin\<rparr>"

lemma sample_package_simps [simp]:
  "stream_pos (sample_package pos d fin) = pos" "payload (sample_package pos d fin) = d"
  "is_flags_contain (sample_package pos d fin) SESSIONDATA_FLAG_FIN = fin"
  by (simp_all add: sample_package_def)

lemma sample_recv_inv:
  "rq_inv snd fst [1, 2, 3] True (recv_queue_new list_ring 10)"
  by (simp add: rq_inv_def recv_queue_new_def list_ring_def slice_ok_def)

theorem rq_push_in_stream_witness:
  "\<exists>n fin q'. rq_push list_ring (sample_package 0 [1, 2] False) (recv_queue_new list_ring 10) =
       Inr ((n, fin), q') \<and> rq_inv snd fst [1, 2, 3] True q'"
proof -
  have "package_ok [1, 2, 3] True (sample_package 0 [1, 2] False)"
    by (simp add: package_ok_def slice_ok_def)
  from rq_push_in_stream [OF list_ring.ring_buffer_axioms sample_recv_inv this] show ?thesis
    by auto
qed

text \<open>C19: Against a sender that cuts its stream once, as the send queue does, the receive queue never
  panics: a final package that arrives in order finds no block kept for later. Until the end is
  reported the kept blocks stay in order, disjoint and ahead of the stream.\<close>

theorem rq_push_never_panics:
  assumes "ring_buffer rb content cap" and "rq_inv content cap S closed q" and "package_ok S closed pkg"
    and "rq_seg rb B F q" and "package_seg B F pkg"
  shows "\<exists>n fin q'. rq_push rb pkg q = Inr ((n, fin), q') \<and> (\<not> fin \<longrightarrow> rq_seg rb B F q')"
  by (rule ring_buffer.rq_push_seg [OF assms])

theorem rq_push_never_panics_witness:
  "\<exists>n fin q'. rq_push list_ring (sample_package 2 [3] True) (recv_queue_new list_ring 10) =
     Inr ((n, fin), q') \<and> (\<not> fin \<longrightarrow> rq_seg list_ring {0, 2, 3} 2 q')"
  by (rule rq_push_never_panics [OF list_ring.ring_buffer_axioms sample_recv_inv])
    (simp_all add: package_ok_def slice_ok_def rq_seg_def package_seg_def seg_ok_def stream_end_def
      recv_queue_new_def list_ring_def)

text \<open>C22: Reading returns exactly the next bytes of the peer's stream, as many as are there and fit the
  buffer, and moves the start of the queue past them.\<close>

theorem read_stream_in_order:
  assumes "ring_buffer rb content cap" and "rq_inv content cap S closed q"
  shows "\<exists>d q'. read_stream rb n q = (d, q') \<and> length d = min n (stream_len rb q) \<and>
     slice_ok S (unat (rq_start q)) d \<and> unat (rq_start q') = unat (rq_start q) + length d \<and>
     stream_end rb q' = stream_end rb q \<and> rq_inv content cap S closed q'"
proof -
  obtain d q' where r: "read_stream rb n q = (d, q')" "d = take n (content (rq_stream q))"
    "slice_ok S (unat (rq_start q)) d" "unat (rq_start q') = unat (rq_start q) + length d"
    "content (rq_stream q') = drop n (content (rq_stream q))" "rq_inv content cap S closed q'"
    using ring_buffer.read_stream_ok [OF assms] by blast
  have "unat (stream_end rb q') = unat (stream_end rb q)"
    using ring_buffer.stream_end_unat [OF assms(1) r(6)] ring_buffer.stream_end_unat [OF assms] r(2,4,5)
    by simp
  then have "stream_end rb q' = stream_end rb q"
    by (rule word_unat_eq_iff [THEN iffD2])
  moreover have "length d = min n (stream_len rb q)"
    using r(2) by (simp add: stream_len_def ring_buffer.len_content [OF assms(1)])
  ultimately show ?thesis
    using r by blast
qed

theorem read_stream_in_order_witness:
  "\<exists>d q'. read_stream list_ring 5 (recv_queue_new list_ring 10) = (d, q') \<and>
     length d = min 5 (stream_len list_ring (recv_queue_new list_ring 10)) \<and>
     slice_ok [1, 2, 3] (unat (rq_start (recv_queue_new list_ring 10))) d \<and>
     unat (rq_start q') = unat (rq_start (recv_queue_new list_ring 10)) + length d \<and>
     stream_end list_ring q' = stream_end list_ring (recv_queue_new list_ring 10) \<and>
     rq_inv snd fst [1, 2, 3] True q'"
  by (rule read_stream_in_order [OF list_ring.ring_buffer_axioms sample_recv_inv])

text \<open>A package with FIN skips the window check. If it overruns the ring buffer its payload is cut
  short and the end of the stream is reported all the same; and if it arrives in order while a block
  is kept for later, which two packages of a peer are enough for, the assertion on the kept blocks
  fails and the receiver panics.\<close>

theorem rq_push_fin_unchecked:
  "(\<exists>q'. rq_push list_ring (sample_package 0 [1, 2, 3] True) (recv_queue_new list_ring 2) =
      Inr ((2, True), q') \<and> snd (rq_stream q') = [1, 2]) \<and>
   (\<exists>q'. rq_push list_ring (sample_package 1 [9] False) (recv_queue_new list_ring 10) =
      Inr ((0, False), q') \<and> rq_push list_ring (sample_package 0 [] True) q' = Inl Panic)"
  by (simp_all add: rq_push_def Let_def recv_queue_new_def list_ring_def stream_end_def push_stream_def
      stream_pos_end_def insert_block_def alloc_block_def)

end
