(* ===== verification/CongestionControl.thy ===== *)
theory CongestionControl
  imports SendQueue "HOL-Library.Signed_Division"
begin

text \<open>
  The congestion control of a stream, from \<^verbatim>\<open>component/cyfs-bdt/src/cc/cc.rs\<close>: the estimator of the round-trip
  time and the wrapper around an implementation of the trait \<open>CcImpl\<close>. A trait object is a state
  \<open>'c\<close> with the record \<open>cc_impl\<close> of its methods, so that what is proved of a stream holds for every
  implementation. The estimator computes on \<open>i64\<close>; the model computes on integers and the bounds below
  show that the values stay far within that range.
\<close>

subsection \<open>Data\<close>

record 'c cc_impl =
  cci_on_sent :: "u64 \<Rightarrow> u64 \<Rightarrow> u64 \<Rightarrow> 'c \<Rightarrow> 'c"
  cci_rate :: "'c \<Rightarrow> u64"
  cci_cwnd :: "'c \<Rightarrow> u64"
  cci_on_estimate :: "nat \<Rightarrow> nat \<Rightarrow> nat \<Rightarrow> bool \<Rightarrow> 'c \<Rightarrow> 'c"
  cci_on_ack :: "u64 \<Rightarrow> u64 \<Rightarrow> u64 option \<Rightarrow> u64 \<Rightarrow> bool \<Rightarrow> 'c \<Rightarrow> 'c"
  cci_on_loss :: "u64 \<Rightarrow> 'c \<Rightarrow> 'c"
  cci_on_no_resp :: "nat \<Rightarrow> u64 \<Rightarrow> 'c \<Rightarrow> nat \<times> 'c"
  cci_on_time_escape :: "u64 \<Rightarrow> 'c \<Rightarrow> 'c"

record cc_config =
  init_rto :: nat
  min_rto :: nat

record estimate_rtt =
  srtt :: int
  mdev :: int
  mdev_max :: int
  rttvar :: int
  min_rtt :: int

definition as_micros :: "nat \<Rightarrow> nat" where
  "as_micros d = d div 1000"

definition as_i64 :: "nat \<Rightarrow> int" where
  "as_i64 n = sint (word_of_nat n :: u64)"

subsection \<open>Estimator\<close>

definition estimate_rtt_new :: estimate_rtt where
  "estimate_rtt_new =
     \<lparr>srtt = 0, mdev = 1000000, mdev_max = 0, rttvar = 0, min_rtt = 0\<rparr>"

text \<open>The deviation of a sample from the mean, corrected by a quarter of the mean deviation.\<close>

definition deviation :: "int \<Rightarrow> int \<Rightarrow> int" where
  "deviation rtt md =
     (if rtt < 0 then
        let r = (0 - rtt) - md sdiv 4 in if r > 0 then drop_bit 3 r else r
      else rtt - md sdiv 4)"

definition est_min :: "int \<Rightarrow> estimate_rtt \<Rightarrow> estimate_rtt" where
  "est_min rtt e = (if min_rtt e = 0 \<or> min_rtt e > rtt then e\<lparr>min_rtt := rtt\<rparr> else e)"

definition est_var :: "estimate_rtt \<Rightarrow> estimate_rtt" where
  "est_var e =
     (let e = (if mdev e > mdev_max e then
                 let e = e\<lparr>mdev_max := mdev e\<rparr> in
                 if mdev_max e > rttvar e then e\<lparr>rttvar := mdev_max e\<rparr> else e
               else e)
      in if mdev e < mdev_max e
         then e\<lparr>rttvar := rttvar e - (rttvar e - mdev_max e) sdiv 4\<rparr> else e)"

definition est_next :: "cc_config \<Rightarrow> int \<Rightarrow> estimate_rtt \<Rightarrow> estimate_rtt" where
  "est_next config rtt e =
     (let rtt = rtt - srtt e sdiv 8;
          e = e\<lparr>srtt := srtt e + rtt\<rparr>;
          e = e\<lparr>mdev := mdev e + deviation rtt (mdev e)\<rparr>
      in (est_var e)\<lparr>mdev_max := as_i64 (as_micros (min_rto config))\<rparr>)"

definition est_first :: "cc_config \<Rightarrow> int \<Rightarrow> estimate_rtt \<Rightarrow> estimate_rtt" where
  "est_first config rtt e =
     (let e = e\<lparr>srtt := rtt * 8, mdev := rtt * 2\<rparr>;
          e = e\<lparr>rttvar := max (mdev e) (as_i64 (as_micros (min_rto config)))\<rparr>
      in e\<lparr>mdev_max := rttvar e\<rparr>)"

definition est_update :: "cc_config \<Rightarrow> nat \<Rightarrow> estimate_rtt \<Rightarrow> (nat \<times> nat) \<times> estimate_rtt" where
  "est_update config rtt e =
     (let rtt = as_i64 (as_micros rtt);
          rtt = (if rtt = 0 then 1 else rtt);
          e = est_min rtt e;
          e = (if srtt e \<noteq> 0 then est_next config rtt e else est_first config rtt e)
      in ((from_micros (word_of_int (srtt e sdiv 8)),
           from_micros (word_of_int (srtt e sdiv 8 + rttvar e))), e))"

subsection \<open>The wrapper\<close>

record 'c congestion_control =
  cc_rtt :: nat
  cc_rto :: nat
  cc_conf :: cc_config
  est_rtt :: estimate_rtt
  cc_state :: 'c

definition cc_new :: "'c \<Rightarrow> cc_config \<Rightarrow> 'c congestion_control" where
  "cc_new impl config =
     \<lparr>cc_rtt = 0, cc_rto = init_rto config, cc_conf = config, est_rtt = estimate_rtt_new,
      cc_state = impl\<rparr>"

definition cc_on_sent :: "'c cc_impl \<Rightarrow> u64 \<Rightarrow> u64 \<Rightarrow> u64 \<Rightarrow> 'c congestion_control \<Rightarrow> 'c congestion_control" where
  "cc_on_sent I now bytes last_packet_number c =
     c\<lparr>cc_state := cci_on_sent I now bytes last_packet_number (cc_state c)\<rparr>"

definition cc_cwnd :: "'c cc_impl \<Rightarrow> 'c congestion_control \<Rightarrow> u64" where
  "cc_cwnd I c = cci_cwnd I (cc_state c)"

definition cc_on_estimate ::
    "'c cc_impl \<Rightarrow> nat \<Rightarrow> nat \<Rightarrow> bool \<Rightarrow> 'c congestion_control \<Rightarrow> 'c congestion_control" where
  "cc_on_estimate I rtt delay app_limited c =
     (case est_update (cc_conf c) rtt (est_rtt c) of ((rtt, rto), e) \<Rightarrow>
        c\<lparr>est_rtt := e, cc_rto := rto, cc_rtt := rtt,
          cc_state := cci_on_estimate I (from_micros (word_of_int (min_rtt e))) rto delay app_limited
            (cc_state c)\<rparr>)"

definition cc_on_ack :: "'c cc_impl \<Rightarrow> u64 \<Rightarrow> u64 \<Rightarrow> u64 option \<Rightarrow> u64 \<Rightarrow> bool \<Rightarrow>
    'c congestion_control \<Rightarrow> 'c congestion_control" where
  "cc_on_ack I flight ack largest sent_time app_limited c =
     c\<lparr>cc_state := cci_on_ack I flight ack largest sent_time app_limited (cc_state c)\<rparr>"

definition cc_on_loss :: "'c cc_impl \<Rightarrow> u64 \<Rightarrow> 'c congestion_control \<Rightarrow> 'c congestion_control" where
  "cc_on_loss I lost c = c\<lparr>cc_state := cci_on_loss I lost (cc_state c)\<rparr>"

definition cc_on_no_resp :: "'c cc_impl \<Rightarrow> u64 \<Rightarrow> 'c congestion_control \<Rightarrow> 'c congestion_control" where
  "cc_on_no_resp I lost c =
     (case cci_on_no_resp I (cc_rto c) lost (cc_state c) of (rto, s) \<Rightarrow>
        c\<lparr>cc_state := s, cc_rto := rto\<rparr>)"

definition cc_on_time_escape :: "'c cc_impl \<Rightarrow> u64 \<Rightarrow> 'c congestion_control \<Rightarrow> 'c congestion_control" where
  "cc_on_time_escape I now c = c\<lparr>cc_state := cci_on_time_escape I now (cc_state c)\<rparr>"

definition cc_rate :: "'c cc_impl \<Rightarrow> 'c congestion_control \<Rightarrow> u64" where
  "cc_rate I c = cci_rate I (cc_state c)"

subsection \<open>Bounds of the estimator\<close>

text \<open>What holds after samples between \<open>lo\<close> and \<open>hi\<close> microseconds, with \<open>m\<close> the minimal timeout.\<close>

definition est_ok :: "int \<Rightarrow> int \<Rightarrow> int \<Rightarrow> estimate_rtt \<Rightarrow> bool" where
  "est_ok m lo hi e \<longleftrightarrow>
     8 * lo \<le> srtt e \<and> srtt e \<le> 8 * hi + 7 \<and> 0 \<le> mdev e \<and> mdev e \<le> 4 * hi + 3 \<and>
     m \<le> rttvar e \<and> rttvar e \<le> max (4 * hi + 3) m \<and> m \<le> mdev_max e \<and> mdev_max e \<le> rttvar e"

lemma sdiv_nonneg: "0 \<le> a \<Longrightarrow> (a :: int) sdiv numeral k = a div numeral k"
  by (cases "a = 0") (simp_all add: signed_divide_int_def sgn_if)

lemma as_i64_small: "n < 2 ^ 63 \<Longrightarrow> as_i64 n = int n"
  by (simp add: as_i64_def signed_of_nat signed_take_bit_int_eq_self)

lemma deviation_bounds:
  assumes "0 \<le> md" "md \<le> 4 * hi + 3" "\<bar>r\<bar> \<le> hi"
  shows "0 \<le> md + deviation r md" "md + deviation r md \<le> 4 * hi + 3"
  using assms by (auto simp: deviation_def Let_def sdiv_nonneg drop_bit_eq_div)

lemma from_micros_int: "0 \<le> x \<Longrightarrow> x < 2 ^ 64 \<Longrightarrow> from_micros (word_of_int x) = nat x * 1000"
  by (simp add: from_micros_def unsigned_of_int take_bit_int_eq_self)

lemma est_min_sel [simp]:
  "srtt (est_min x e) = srtt e" "mdev (est_min x e) = mdev e" "mdev_max (est_min x e) = mdev_max e"
  "rttvar (est_min x e) = rttvar e"
  by (simp_all add: est_min_def)

lemma est_update_cases:
  assumes "est_update config rtt e = (r, e')" "int (as_micros rtt) = x" "1 \<le> x" "x < 2 ^ 59"
  shows "e' = (if srtt e \<noteq> 0 then est_next config x (est_min x e) else est_first config x (est_min x e))"
    "r = (from_micros (word_of_int (srtt e' sdiv 8)), from_micros (word_of_int (srtt e' sdiv 8 + rttvar e')))"
proof -
  have "as_i64 (as_micros rtt) = x" "x \<noteq> 0"
    using assms(2-4) as_i64_small [of "as_micros rtt"] by auto
  then show "e' = (if srtt e \<noteq> 0 then est_next config x (est_min x e) else est_first config x (est_min x e))"
    "r = (from_micros (word_of_int (srtt e' sdiv 8)), from_micros (word_of_int (srtt e' sdiv 8 + rttvar e')))"
    using assms(1) unfolding est_update_def by (auto simp: Let_def)
qed

lemma est_var_ok:
  assumes "mdev_max e \<le> rttvar e"
  shows "srtt (est_var e) = srtt e" "mdev (est_var e) = mdev e" "mdev_max e \<le> rttvar (est_var e)"
    "rttvar (est_var e) \<le> max (rttvar e) (mdev e)"
proof -
  have "0 \<le> (rttvar e - mdev_max e) div 4" "(rttvar e - mdev_max e) div 4 \<le> rttvar e - mdev_max e"
    using assms by linarith+
  then show "srtt (est_var e) = srtt e" "mdev (est_var e) = mdev e" "mdev_max e \<le> rttvar (est_var e)"
    "rttvar (est_var e) \<le> max (rttvar e) (mdev e)"
    using assms by (auto simp: est_var_def Let_def sdiv_nonneg)
qed

lemma est_next_ok:
  assumes "mdev_max e \<le> rttvar e" "0 \<le> srtt e"
    "int (as_micros (min_rto config)) = m" "m < 2 ^ 59" "m \<le> mdev_max e"
  shows "srtt (est_next config x e) = srtt e + (x - srtt e div 8)"
    "mdev (est_next config x e) = mdev e + deviation (x - srtt e div 8) (mdev e)"
    "mdev_max (est_next config x e) = m" "m \<le> rttvar (est_next config x e)"
    "rttvar (est_next config x e) \<le> max (rttvar e) (mdev (est_next config x e))"
proof -
  let ?d = "x - srtt e div 8"
  let ?e = "e\<lparr>srtt := srtt e + ?d, mdev := mdev e + deviation ?d (mdev e)\<rparr>"
  have e: "est_next config x e = (est_var ?e)\<lparr>mdev_max := m\<rparr>"
    using assms(2-4) as_i64_small [of "as_micros (min_rto config)"]
    by (simp add: est_next_def Let_def sdiv_nonneg)
  show "srtt (est_next config x e) = srtt e + (x - srtt e div 8)"
    "mdev (est_next config x e) = mdev e + deviation (x - srtt e div 8) (mdev e)"
    "mdev_max (est_next config x e) = m" "m \<le> rttvar (est_next config x e)"
    "rttvar (est_next config x e) \<le> max (rttvar e) (mdev (est_next config x e))"
    using est_var_ok [of ?e] assms(1,5) unfolding e by simp_all
qed

lemma est_first_ok:
  assumes "int (as_micros (min_rto config)) = m" "m < 2 ^ 59"
  shows "srtt (est_first config x e) = 8 * x" "mdev (est_first config x e) = 2 * x"
    "rttvar (est_first config x e) = max (2 * x) m" "mdev_max (est_first config x e) = max (2 * x) m"
  using assms as_i64_small [of "as_micros (min_rto config)"] by (simp_all add: est_first_def)

lemma est_update_ok:
  assumes "srtt e = 0 \<or> est_ok m lo hi e" "est_update config rtt e = (r, e')" "1 \<le> lo"
    "lo \<le> int (as_micros rtt)" "int (as_micros rtt) \<le> hi" "hi < 2 ^ 59"
    "int (as_micros (min_rto config)) = m" "m < 2 ^ 59"
  shows "est_ok m lo hi e'"
    "r = (nat (srtt e' div 8) * 1000, nat (srtt e' div 8 + rttvar e') * 1000)"
proof -
  let ?x = "int (as_micros rtt)"
  have m0: "0 \<le> m" and x: "1 \<le> ?x" "?x < 2 ^ 59"
    using assms(3-7) by simp_all
  note e' = est_update_cases [OF assms(2) refl x]
  show ok: "est_ok m lo hi e'"
  proof (cases "srtt e = 0")
    case True
    then show ?thesis
      using e'(1) est_first_ok [OF assms(7,8), of ?x "est_min ?x e"] assms(3-5) m0
      by (auto simp: est_ok_def)
  next
    case False
    then have e: "est_ok m lo hi e"
      using assms(1) by simp
    have eq: "e' = est_next config ?x (est_min ?x e)"
      using e'(1) False by simp
    have dev: "\<bar>?x - srtt e div 8\<bar> \<le> hi"
      using e assms(3-5) unfolding est_ok_def by linarith
    have s: "srtt e' = srtt e + (?x - srtt e div 8)" "mdev e' = mdev e + deviation (?x - srtt e div 8) (mdev e)"
      "mdev_max e' = m" "m \<le> rttvar e'" "rttvar e' \<le> max (rttvar e) (mdev e')"
      using est_next_ok [OF _ _ assms(7,8), of "est_min ?x e" ?x] e assms(3) unfolding eq est_ok_def
      by simp_all
    have md: "0 \<le> mdev e'" "mdev e' \<le> 4 * hi + 3"
      unfolding s(2) using deviation_bounds [OF _ _ dev, of "mdev e"] e by (simp_all add: est_ok_def)
    have "8 * lo \<le> srtt e'" "srtt e' \<le> 8 * hi + 7"
      using e assms(4,5) unfolding s(1) est_ok_def by linarith+
    moreover have "rttvar e' \<le> max (4 * hi + 3) m"
      using s(5) md(2) e unfolding est_ok_def by linarith
    ultimately show ?thesis
      using md s(3,4) by (simp add: est_ok_def)
  qed
  have "0 \<le> srtt e'" "0 \<le> srtt e' div 8" "srtt e' div 8 \<le> hi" "0 \<le> rttvar e'"
    using ok assms(3-5) m0 unfolding est_ok_def by linarith+
  moreover have "max (4 * hi + 3) m < 2 ^ 62"
    using assms(6,8) by simp
  then have "rttvar e' < 2 ^ 62"
    using ok unfolding est_ok_def by linarith
  ultimately show "r = (nat (srtt e' div 8) * 1000, nat (srtt e' div 8 + rttvar e') * 1000)"
    using e'(2) assms(6) by (simp add: sdiv_nonneg from_micros_int del: of_int_add)
qed

fun est_run :: "cc_config \<Rightarrow> nat list \<Rightarrow> (nat \<times> nat) \<times> estimate_rtt \<Rightarrow> (nat \<times> nat) \<times> estimate_rtt" where
  "est_run config [] r = r"
| "est_run config (rtt # rtts) r = est_run config rtts (est_update config rtt (snd r))"

lemma est_run_ok:
  assumes "\<forall>x\<in>set rtts. lo \<le> int (as_micros x) \<and> int (as_micros x) \<le> hi" "1 \<le> lo" "hi < 2 ^ 59"
    "int (as_micros (min_rto config)) = m" "m < 2 ^ 59"
    "srtt (snd r) = 0 \<and> rtts \<noteq> [] \<or> est_ok m lo hi (snd r) \<and>
      fst r = (nat (srtt (snd r) div 8) * 1000, nat (srtt (snd r) div 8 + rttvar (snd r)) * 1000)"
  shows "\<exists>e. est_run config rtts r =
    ((nat (srtt e div 8) * 1000, nat (srtt e div 8 + rttvar e) * 1000), e) \<and> est_ok m lo hi e"
  using assms(1,6)
proof (induction rtts arbitrary: r)
  case Nil
  then show ?case by (cases r) auto
next
  case (Cons x xs)
  obtain r' e' where u: "est_update config x (snd r) = (r', e')"
    by fastforce
  have "est_ok m lo hi e'" "r' = (nat (srtt e' div 8) * 1000, nat (srtt e' div 8 + rttvar e') * 1000)"
    using est_update_ok [OF _ u assms(2) _ _ assms(3-5)] Cons.prems by auto
  then show ?case
    using Cons.IH [of "(r', e')"] Cons.prems(1) u by simp
qed

subsection \<open>Properties\<close>

text \<open>C11: The estimator of the round-trip time stays within its samples: after any non-empty sequence
  of samples between \<open>lo\<close> and \<open>hi\<close> microseconds the smoothed time lies between them, and the
  retransmission timeout exceeds it by at least the configured minimum and by at most that minimum or
  a little over four times the largest sample. The state stays well within the range of \<open>i64\<close>.\<close>

theorem estimate_rtt_bounds:
  assumes "rtts \<noteq> []" and "\<forall>x\<in>set rtts. lo \<le> as_micros x \<and> as_micros x \<le> hi"
    and "1 \<le> lo" and "hi < 2 ^ 59" and "as_micros (min_rto config) < 2 ^ 59"
    and "est_run config rtts (r, estimate_rtt_new) = ((rtt, rto), e)"
  shows "lo * 1000 \<le> rtt \<and> rtt \<le> hi * 1000 \<and>
    rtt + as_micros (min_rto config) * 1000 \<le> rto \<and>
    rto \<le> rtt + max (4 * hi + 3) (as_micros (min_rto config)) * 1000 \<and>
    (\<forall>v\<in>{srtt e, mdev e, mdev_max e, rttvar e, srtt e + rttvar e}. 0 \<le> v \<and> v < 2 ^ 63)"
proof -
  let ?m = "as_micros (min_rto config)"
  have lt: "int hi < 2 ^ 59" "int ?m < 2 ^ 59"
    using assms(4,5) by simp_all
  obtain e' where run: "est_run config rtts (r, estimate_rtt_new) =
      ((nat (srtt e' div 8) * 1000, nat (srtt e' div 8 + rttvar e') * 1000), e')"
    and ok: "est_ok (int ?m) (int lo) (int hi) e'"
    using est_run_ok [of rtts "int lo" "int hi" config "int ?m" "(r, estimate_rtt_new)"] assms(1-3) lt
    by (auto simp: estimate_rtt_new_def)
  have r: "rtt = nat (srtt e div 8) * 1000" "rto = nat (srtt e div 8 + rttvar e) * 1000" and "e' = e"
    using run assms(6) by simp_all
  then have b: "8 * int lo \<le> srtt e" "srtt e \<le> 8 * int hi + 7" "0 \<le> mdev e" "mdev e \<le> 4 * int hi + 3"
    "int ?m \<le> rttvar e" "rttvar e \<le> max (4 * int hi + 3) (int ?m)" "int ?m \<le> mdev_max e"
    "mdev_max e \<le> rttvar e"
    using ok by (simp_all add: est_ok_def)
  have "max (4 * int hi + 3) (int ?m) < 2 ^ 62"
    using lt by simp
  then have "rttvar e < 2 ^ 62"
    using b(6) by linarith
  then have range: "\<forall>v\<in>{srtt e, mdev e, mdev_max e, rttvar e, srtt e + rttvar e}. 0 \<le> v \<and> v < 2 ^ 63"
    using b lt(1) by simp
  have s: "lo \<le> nat (srtt e div 8)" "nat (srtt e div 8) \<le> hi"
    using b(1,2) by linarith+
  have "nat (srtt e div 8) + ?m \<le> nat (srtt e div 8 + rttvar e)"
    "nat (srtt e div 8 + rttvar e) \<le> nat (srtt e div 8) + max (4 * hi + 3) ?m"
    using b(1,5,6) by linarith+
  then have "(nat (srtt e div 8) + ?m) * 1000 \<le> rto" "rto \<le> (nat (srtt e div 8) + max (4 * hi + 3) ?m) * 1000"
    unfolding r by (simp_all only: mult_le_mono1)
  then show ?thesis
    using s range unfolding r(1) add_mult_distrib by simp
qed

theorem estimate_rtt_bounds_witness:
  "\<exists>rtt rto e. est_run \<lparr>init_rto = 0, min_rto = 200000000\<rparr> [5000000, 7000000] ((0, 0), estimate_rtt_new) = ((rtt, rto), e) \<and>
    5000 * 1000 \<le> rtt \<and> rtt \<le> 7000 * 1000 \<and> rtt + 200000 * 1000 \<le> rto"
proof -
  let ?c = "\<lparr>init_rto = 0, min_rto = 200000000\<rparr>"
  obtain rtt rto e where eq: "est_run ?c [5000000, 7000000] ((0, 0), estimate_rtt_new) = ((rtt, rto), e)"
    by (metis prod.exhaust)
  show ?thesis
    using estimate_rtt_bounds [OF _ _ _ _ _ eq, of 5000 7000] eq by (simp add: as_micros_def)
qed

end
