(* ===== verification/WriteProvider.thy ===== *)
theory WriteProvider
  imports CongestionControl "HOL-Library.Sublist"
begin

text \<open>
  The sending half of a package stream, from \<^verbatim>\<open>component/cyfs-bdt/src/stream/package/write.rs\<close>: the send queue
  with its congestion control, the tasks that wait for it, and the samples of the round-trip time. A
  waker is a number, and an operation returns the list of the wakers it wakes. The clock of an
  operation is a function \<open>t\<close> whose value at \<open>i\<close> is the reading of its \<open>i\<close>th call of
  \<open>bucky_time_now\<close>. The packages an operation appends to its argument are part of its result.
\<close>

subsection \<open>Data\<close>

datatype 'a poll = Pending | Ready 'a

datatype io_error = BrokenPipe

datatype on_package_result = Continue | Handled | Break

text \<open>The configuration of streams; the two drain levels are the products of a buffer size with the
  drain factor.\<close>

record stream_config =
  cfg_nagle :: nat
  cfg_recv_timeout :: nat
  cfg_recv_buffer :: nat
  cfg_send_buffer :: nat
  recv_drain :: nat
  send_drain :: nat
  break_overtime :: nat
  cfg_cc :: cc_config

record estimate_stub =
  stub_id :: increase_id
  stub_send_time :: u64
  stub_end_pos :: u64

record 'c write_impl =
  write_waiter :: "nat option"
  flush_waiters :: "nat list"
  close_waiter :: "nat option"
  wq :: send_queue
  est_stubs :: "estimate_stub list"
  est_id :: increase_id_generator
  last_recv :: u64
  wcc :: "'c congestion_control"
  app_limited :: bool

datatype 'c write_state = WOpen "'c write_impl" | WClosed

definition wp_new :: "u32 \<Rightarrow> 'c \<Rightarrow> u64 \<Rightarrow> stream_config \<Rightarrow> 'c write_state" where
  "wp_new first_id impl now config =
     WOpen \<lparr>write_waiter = None, flush_waiters = [], close_waiter = None,
       wq = send_queue_new (cfg_send_buffer config), est_stubs = [],
       est_id = increase_id_generator_new first_id, last_recv = now,
       wcc = cc_new impl (cfg_cc config), app_limited = False\<rparr>"

subsection \<open>Choosing a package to sample\<close>

definition is_sample :: "estimate_stub option \<Rightarrow> nat \<Rightarrow> session_data \<Rightarrow> bool" where
  "is_sample last_sample rtt p =
     (case last_sample of
        None \<Rightarrow> True
      | Some s \<Rightarrow> stream_pos_end p \<ge> stub_end_pos s \<and> send_time p \<ge> stub_send_time s \<and>
          from_micros (send_time p - stub_send_time s) > rtt)"

definition list_back :: "'a list \<Rightarrow> 'a option" where
  "list_back xs = (if xs = [] then None else Some (last xs))"

fun pre_send_loop :: "estimate_stub option \<Rightarrow> nat \<Rightarrow> increase_id_generator \<Rightarrow> session_data list \<Rightarrow>
    session_data list \<times> (estimate_stub \<times> increase_id_generator) option" where
  "pre_send_loop last_sample rtt g [] = ([], None)"
| "pre_send_loop last_sample rtt g (p # ps) =
     (if is_sample last_sample rtt p then
        (case increase_id_generate g of (pid, g) \<Rightarrow>
           let p = (flags_add SESSIONDATA_FLAG_PACKAGEID p)
                 \<lparr>id_part := Some \<lparr>package_id = pid, total_recv = 0\<rparr>\<rparr>
           in (p # ps, Some (\<lparr>stub_id = pid, stub_send_time = send_time p,
                stub_end_pos = stream_pos_end p\<rparr>, g)))
      else (case pre_send_loop last_sample rtt g ps of (ps, r) \<Rightarrow> (p # ps, r)))"

definition on_pre_send_package ::
    "session_data list \<Rightarrow> 'c write_impl \<Rightarrow> session_data list \<times> 'c write_impl" where
  "on_pre_send_package packages w =
     (case pre_send_loop (list_back (est_stubs w)) (cc_rtt (wcc w)) (est_id w) packages of
        (packages, None) \<Rightarrow> (packages, w)
      | (packages, Some (stub, g)) \<Rightarrow> (packages, w\<lparr>est_id := g, est_stubs := est_stubs w @ [stub]\<rparr>))"

definition wp_check_wnd :: "'c cc_impl \<Rightarrow> u64 \<Rightarrow> nat \<Rightarrow> session_data list \<Rightarrow> 'c write_impl \<Rightarrow>
    session_data list \<times> 'c write_impl" where
  "wp_check_wnd I now timeout packages w =
     (case sq_check_wnd now timeout (cc_cwnd I (wcc w)) (wq w) of (ps, q) \<Rightarrow>
      case on_pre_send_package (packages @ ps) (w\<lparr>wq := q\<rparr>) of (packages, w) \<Rightarrow>
        (packages, w\<lparr>app_limited := (length packages = 0)\<rparr>))"

subsection \<open>Timer\<close>

definition checked_sub_u64 :: "u64 \<Rightarrow> u64 \<Rightarrow> u64 result" where
  "checked_sub_u64 a b = (if b \<le> a then Inr (a - b) else Inl Panic)"

text \<open>Whether bytes were lost, and whether to give the connection up.\<close>

definition wp_check_lost :: "'c cc_impl \<Rightarrow> stream_config \<Rightarrow> u64 \<Rightarrow> 'c write_impl \<Rightarrow>
    ((bool \<times> bool) \<times> 'c write_impl) result" where
  "wp_check_lost I config now w =
     (if sq_flight (wq w) > 0 then
        let lost = check_timeout now (cc_rto (wcc w)) (wq w) in
        if lost > 0 then
          (if lost \<ge> sq_flight (wq w) then
             rbind (checked_sub_u64 now (last_recv w)) (\<lambda>d.
               if from_micros d > break_overtime config then Inr ((True, True), w)
               else Inr ((True, False), w\<lparr>wcc := cc_on_no_resp I (word_of_nat lost) (wcc w)\<rparr>))
           else Inr ((True, False), w\<lparr>wcc := cc_on_loss I (word_of_nat lost) (wcc w)\<rparr>))
        else Inr ((False, False), w)
      else Inr ((False, False), w))"

definition wp_impl_on_time_escape :: "'c cc_impl \<Rightarrow> stream_config \<Rightarrow> u64 \<Rightarrow> session_data list \<Rightarrow>
    'c write_impl \<Rightarrow> ((bucky_error_code option \<times> session_data list) \<times> 'c write_impl) result" where
  "wp_impl_on_time_escape I config now packages w =
     (let timeout = cc_rto (wcc w) in
      rbind (check_nagle now (cfg_nagle config) (wq w)) (\<lambda>(nagle, q).
        rbind (wp_check_lost I config now (w\<lparr>wq := q\<rparr>)) (\<lambda>((lost, broken), w).
          if broken then Inr ((Some bucky_error_code.ErrorState, packages), w)
          else if nagle \<or> lost then
            (case wp_check_wnd I now timeout packages w of (packages, w) \<Rightarrow> Inr ((None, packages), w))
          else Inr ((None, packages), w))))"

definition opt_list :: "'a option \<Rightarrow> 'a list" where
  "opt_list x = (case x of None \<Rightarrow> [] | Some a \<Rightarrow> [a])"

text \<open>The outcome of the timer: \<open>Inl e\<close> when the connection is given up now, \<open>Inr (Some e)\<close> when the
  sending half is closed already.\<close>

definition wp_on_time_escape :: "'c cc_impl \<Rightarrow> stream_config \<Rightarrow> u64 \<Rightarrow> session_data list \<Rightarrow> 'c write_state \<Rightarrow>
    (((bucky_error_code + bucky_error_code option) \<times> session_data list \<times> nat list) \<times> 'c write_state) result" where
  "wp_on_time_escape I config now packages st =
     (case st of
        WOpen w \<Rightarrow>
          rbind (wp_impl_on_time_escape I config now packages w) (\<lambda>((ret, packages), w).
            (case ret of
               Some e \<Rightarrow> Inr ((Inl e, packages,
                  opt_list (write_waiter w) @ opt_list (close_waiter w) @ flush_waiters w), WClosed)
             | None \<Rightarrow> Inr ((Inr None, packages, []), WOpen w)))
      | WClosed \<Rightarrow> Inr ((Inr (Some bucky_error_code.ErrorState), packages, []), WClosed))"

subsection \<open>Calls of the application\<close>

definition wp_write :: "'c cc_impl \<Rightarrow> (nat \<Rightarrow> u64) \<Rightarrow> nat \<Rightarrow> bytes \<Rightarrow> 'c write_state \<Rightarrow>
    (((io_error + nat) poll \<times> session_data list) \<times> 'c write_state) result" where
  "wp_write I t waker buf st =
     (case st of
        WOpen w \<Rightarrow>
          if write_waiter w \<noteq> None then Inr ((Pending, []), st)
          else
            rbind (used (wq w)) (\<lambda>used.
              rbind (alloc_blocks (t 0) buf (wq w)) (\<lambda>(writen, q).
                let w = w\<lparr>wq := q\<rparr> in
                if writen = 0 then Inr ((Pending, []), WOpen (w\<lparr>write_waiter := Some waker\<rparr>))
                else
                  let w = (if used > 0 then w\<lparr>last_recv := t 1\<rparr> else w) in
                  case wp_check_wnd I (t 2) (cc_rto (wcc w)) [] w of (packages, w) \<Rightarrow>
                    Inr ((Ready (Inr writen), packages), WOpen w)))
      | WClosed \<Rightarrow> Inr ((Ready (Inl BrokenPipe), []), WClosed))"

definition wp_flush :: "nat \<Rightarrow> 'c write_state \<Rightarrow> ((io_error + unit) poll \<times> 'c write_state) result" where
  "wp_flush waker st =
     (case st of
        WOpen w \<Rightarrow>
          rbind (used (wq w)) (\<lambda>used.
            if used = 0 then Inr (Ready (Inr ()), st)
            else Inr (Pending, WOpen (w\<lparr>flush_waiters := flush_waiters w @ [waker]\<rparr>)))
      | WClosed \<Rightarrow> Inr (Ready (Inl BrokenPipe), WClosed))"

definition wp_close :: "'c cc_impl \<Rightarrow> (nat \<Rightarrow> u64) \<Rightarrow> nat option \<Rightarrow> 'c write_state \<Rightarrow>
    (((io_error + unit) poll \<times> session_data list) \<times> 'c write_state) result" where
  "wp_close I t waker st =
     (case st of
        WOpen w \<Rightarrow>
          rbind (sq_close (wq w)) (\<lambda>q.
            let w = w\<lparr>wq := q, close_waiter := waker\<rparr> in
            case wp_check_wnd I (t 0) (cc_rto (wcc w)) [] w of (packages, w) \<Rightarrow>
              Inr ((Pending, packages), WOpen w))
      | WClosed \<Rightarrow> Inr ((Ready (Inr ()), []), WClosed))"

definition wp_on_sent :: "'c cc_impl \<Rightarrow> (nat \<Rightarrow> u64) \<Rightarrow> u64 \<Rightarrow> u64 \<Rightarrow> 'c write_state \<Rightarrow> 'c write_state" where
  "wp_on_sent I t sent_bytes last_packet_number st =
     (case st of
        WOpen w \<Rightarrow> WOpen (w\<lparr>wcc := cc_on_sent I (t 0) sent_bytes last_packet_number (wcc w)\<rparr>)
      | WClosed \<Rightarrow> WClosed)"

definition wp_rate :: "'c cc_impl \<Rightarrow> 'c write_state \<Rightarrow> u64" where
  "wp_rate I st = (case st of WOpen w \<Rightarrow> cc_rate I (wcc w) | WClosed \<Rightarrow> 0)"

definition wp_reset :: "'c write_state \<Rightarrow> nat list \<times> 'c write_state" where
  "wp_reset st =
     (case st of
        WOpen w \<Rightarrow>
          (opt_list (write_waiter w) @ flush_waiters w @ opt_list (close_waiter w), WClosed)
      | WClosed \<Rightarrow> ([], WClosed))"

subsection \<open>Packages of the peer\<close>

text \<open>An acknowledged sample: the first one with the identifier, which is dropped with all before it.\<close>

fun find_stub :: "increase_id \<Rightarrow> estimate_stub list \<Rightarrow> (estimate_stub \<times> estimate_stub list) option" where
  "find_stub pid [] = None"
| "find_stub pid (s # ss) = (if stub_id s = pid then Some (s, ss) else find_stub pid ss)"

definition wp_on_estimate_ack :: "'c cc_impl \<Rightarrow> (nat \<Rightarrow> u64) \<Rightarrow> session_data \<Rightarrow> 'c write_impl \<Rightarrow>
    'c write_impl result" where
  "wp_on_estimate_ack I t p w =
     (case id_part p of
        None \<Rightarrow> Inl Panic
      | Some part \<Rightarrow>
          (case find_stub (package_id part) (est_stubs w) of
             None \<Rightarrow> Inr w
           | Some (s, ss) \<Rightarrow>
               rbind (checked_sub_u64 (t 1) (stub_send_time s)) (\<lambda>d.
                 let rtt = from_micros d; delay = rtt div 2 in
                 Inr (w\<lparr>wcc := cc_on_estimate I rtt delay (app_limited w) (wcc w), est_stubs := ss\<rparr>))))"

text \<open>The answer to a package that is a sample of the peer.\<close>

definition ack_est_package :: "u64 \<Rightarrow> session_data \<Rightarrow> session_data result" where
  "ack_est_package now p =
     (case id_part p of
        None \<Rightarrow> Inl Panic
      | Some part \<Rightarrow>
          Inr ((flags_add SESSIONDATA_FLAG_ACK_PACKAGEID session_data_new)
            \<lparr>id_part := Some \<lparr>package_id = package_id part, total_recv = 0\<rparr>, send_time := now\<rparr>))"

definition wp_reply_sample :: "u64 \<Rightarrow> session_data \<Rightarrow> session_data list \<Rightarrow> session_data list result" where
  "wp_reply_sample now p packages =
     (if is_flags_contain p SESSIONDATA_FLAG_PACKAGEID
      then rbind (ack_est_package now p) (\<lambda>a. Inr (packages @ [a])) else Inr packages)"

text \<open>What follows bytes that are newly acknowledged: the packages and the wakers to wake.\<close>

definition wp_on_acked :: "'c cc_impl \<Rightarrow> stream_config \<Rightarrow> (nat \<Rightarrow> u64) \<Rightarrow> session_data \<Rightarrow> nat \<Rightarrow>
    session_data list \<Rightarrow> 'c write_impl \<Rightarrow> ((session_data list \<times> nat list) \<times> 'c write_impl) result" where
  "wp_on_acked I config t p newly_acked packages w =
     (if newly_acked > 0 then
        let w = w\<lparr>wcc := cc_on_ack I (word_of_nat (sq_flight (wq w))) (word_of_nat newly_acked)
                  (Some (send_time p)) (t 2) (app_limited w) (wcc w)\<rparr>
        in
        case wp_check_wnd I (t 0) (cc_rto (wcc w)) packages w of (packages, w) \<Rightarrow>
          rbind (used (wq w)) (\<lambda>used.
            let (waiters, w) =
                  (if used < send_drain config \<and> write_waiter w \<noteq> None
                   then (opt_list (write_waiter w), w\<lparr>write_waiter := None\<rparr>) else ([], w));
                (waiters, w) =
                  (if used = 0 then (waiters @ flush_waiters w, w\<lparr>flush_waiters := []\<rparr>) else (waiters, w))
            in Inr ((packages, waiters), w))
      else Inr ((packages, []), w))"

definition wp_on_package :: "'c cc_impl \<Rightarrow> stream_config \<Rightarrow> (nat \<Rightarrow> u64) \<Rightarrow> session_data \<Rightarrow> session_data list \<Rightarrow>
    'c write_state \<Rightarrow> ((on_package_result \<times> session_data list \<times> nat list) \<times> 'c write_state) result" where
  "wp_on_package I config t p packages st =
     (case st of
        WOpen w \<Rightarrow>
          if is_flags_contain p SESSIONDATA_FLAG_ACK_PACKAGEID then
            rbind (wp_on_estimate_ack I t p w) (\<lambda>w. Inr ((Handled, packages, []), WOpen w))
          else
            rbind (wp_reply_sample (t 0) p packages) (\<lambda>packages.
            rbind (confirm (ack_stream_pos p) (is_flags_contain p SESSIONDATA_FLAG_FINACK) (wq w))
              (\<lambda>((newly_acked, fin), q).
            rbind (wp_on_acked I config t p newly_acked packages (w\<lparr>wq := q, last_recv := t 0\<rparr>))
              (\<lambda>((packages, waiters), w).
                if fin then Inr ((Continue, packages, waiters @ opt_list (close_waiter w)), WClosed)
                else Inr ((Continue, packages, waiters), WOpen w))))
      | WClosed \<Rightarrow> Inr ((Continue, packages, []), WClosed))"

subsection \<open>The history of a stream\<close>

text \<open>
  The blocks a stream was ever cut into, \<open>H\<close>, against the bytes written, \<open>S\<close>, and whether the
  application has closed the stream, \<open>c\<close>. The blocks of the send queue are the end of \<open>H\<close>.
\<close>

definition ended :: "send_block list \<Rightarrow> bool" where
  "ended H \<longleftrightarrow> H \<noteq> [] \<and> sb_fin (last H)"

definition hist_ok :: "bytes \<Rightarrow> bool \<Rightarrow> send_block list \<Rightarrow> bool" where
  "hist_ok S c H \<longleftrightarrow>
     chained 0 H \<and> prefix (blocks_data H) S \<and> length S < 2 ^ 64 \<and>
     (\<forall>b\<in>set (butlast H). \<not> sb_fin b) \<and> (ended H \<longrightarrow> c \<and> blocks_data H = S \<and> sb_len (last H) \<le> mss)"

definition tail_of :: "send_block list \<Rightarrow> send_block list \<Rightarrow> bool" where
  "tail_of bs H \<longleftrightarrow> (\<exists>k. map sb_content bs = drop k (map sb_content H))"

definition queue_ok :: "send_block list \<Rightarrow> bytes \<Rightarrow> send_queue \<Rightarrow> bool" where
  "queue_ok H S q \<longleftrightarrow> sq_inv S q \<and> tail_of (sq_blocks q) H \<and> S = blocks_data H @ nagle_data q"

definition sender_ok :: "send_block list \<Rightarrow> bytes \<Rightarrow> bool \<Rightarrow> 'c write_impl \<Rightarrow> bool" where
  "sender_ok H S c w \<longleftrightarrow>
     queue_ok H S (wq w) \<and> (c \<longrightarrow> ended H) \<and>
     (ended H \<longrightarrow> sq_nagle (wq w) = NagleNone \<and> sq_blocks (wq w) \<noteq> [])"

definition sender_st :: "send_block list \<Rightarrow> bytes \<Rightarrow> bool \<Rightarrow> 'c write_state \<Rightarrow> bool" where
  "sender_st H S c st = (case st of WOpen w \<Rightarrow> sender_ok H S c w | WClosed \<Rightarrow> True)"

lemma tail_of_split:
  assumes "tail_of bs H"
  obtains k where "map sb_content bs = map sb_content (drop k H)" "H = take k H @ drop k H"
  using assms by (auto simp: tail_of_def drop_map)

lemma tail_of_drop: "tail_of bs H \<Longrightarrow> tail_of (drop n bs) H"
  by (auto simp: tail_of_def drop_map [symmetric] drop_drop)

lemma tail_of_content: "map sb_content bs' = map sb_content bs \<Longrightarrow> tail_of bs' H \<longleftrightarrow> tail_of bs H"
  by (simp add: tail_of_def)

lemma tail_of_member:
  assumes "tail_of bs H" "b \<in> set bs"
  shows "\<exists>h\<in>set H. sb_content h = sb_content b"
proof -
  obtain k where "map sb_content bs = map sb_content (drop k H)"
    using assms(1) by (rule tail_of_split)
  then have "sb_content b \<in> sb_content ` set (drop k H)"
    using assms(2) by (metis image_eqI list.set_map)
  then show ?thesis
    by (metis imageE in_set_dropD)
qed

lemma queue_ok_start:
  assumes ok: "queue_ok H S q"
  shows "blocks_data H = take (unat (sq_start q)) S @ blocks_data (sq_blocks q)"
    "length (blocks_data H) = unat (sq_start q) + length (blocks_data (sq_blocks q))"
    "tail_of (sq_blocks q @ bs) (H @ bs)"
proof -
  have inv: "sq_inv S q" and S: "S = blocks_data H @ nagle_data q"
    using ok unfolding queue_ok_def by blast+
  obtain k where k: "map sb_content (sq_blocks q) = map sb_content (drop k H)" "H = take k H @ drop k H"
    using ok unfolding queue_ok_def by (meson tail_of_split)
  have H: "blocks_data H = blocks_data (take k H) @ blocks_data (sq_blocks q)"
    using content_data [OF k(1)] k(2) by (metis blocks_data_simps(3))
  have "S = take (unat (sq_start q)) S @ blocks_data (sq_blocks q) @ nagle_data q"
    using sq_invD(4) [OF inv] by (metis append_take_drop_id queue_data_def)
  then show "blocks_data H = take (unat (sq_start q)) S @ blocks_data (sq_blocks q)"
    using S by (metis append.assoc append_same_eq)
  then show "length (blocks_data H) = unat (sq_start q) + length (blocks_data (sq_blocks q))"
    using sq_invD(3) [OF inv] by simp
  have "map sb_content (sq_blocks q @ bs) = drop (min k (length H)) (map sb_content (H @ bs))"
    using k(1) by (simp add: drop_map min_def)
  then show "tail_of (sq_blocks q @ bs) (H @ bs)"
    unfolding tail_of_def by blast
qed

lemma queue_ok_extend:
  assumes ok: "queue_ok H S q" and inv: "sq_inv (S @ d) q'" and start: "sq_start q' = sq_start q"
    and blocks: "sq_blocks q' = sq_blocks q @ bs"
  shows "queue_ok (H @ bs) (S @ d) q'" "chained 0 H \<Longrightarrow> chained 0 (H @ bs)"
proof -
  have "sq_inv S q"
    using ok unfolding queue_ok_def by blast
  then have "unat (sq_start q) \<le> length S"
    by (rule sq_invD(3))
  then have "S @ d = take (unat (sq_start q)) S @ drop (unat (sq_start q')) (S @ d)"
    using start by simp
  then have "S @ d = take (unat (sq_start q)) S @ blocks_data (sq_blocks q @ bs) @ nagle_data q'"
    unfolding sq_invD(4) [OF inv] queue_data_def blocks .
  then have "S @ d = blocks_data (H @ bs) @ nagle_data q'"
    unfolding blocks_data_simps(3) queue_ok_start(1) [OF ok] by simp
  then show "queue_ok (H @ bs) (S @ d) q'"
    using inv queue_ok_start(3) [OF ok] blocks by (simp add: queue_ok_def)
  show "chained 0 H \<Longrightarrow> chained 0 (H @ bs)"
    using sq_invD(6) [OF inv] blocks start queue_ok_start(2) [OF ok] by simp
qed

subsection \<open>Packages of a stream\<close>

text \<open>A package of the sending half, before its acknowledgement is filled in: a block of the history, or
  no data at all.\<close>

definition pkg_hist :: "send_block list \<Rightarrow> session_data \<Rightarrow> bool" where
  "pkg_hist H p \<longleftrightarrow>
     payload p = [] \<and> \<not> is_flags_contain p SESSIONDATA_FLAG_FIN \<or>
     (\<exists>b\<in>set H. stream_pos p = sb_start b \<and> payload p = sb_data b \<and>
        is_flags_contain p SESSIONDATA_FLAG_FIN = sb_fin b)"

definition ids_ok :: "session_data \<Rightarrow> bool" where
  "ids_ok p \<longleftrightarrow>
     (is_flags_contain p SESSIONDATA_FLAG_PACKAGEID \<or> is_flags_contain p SESSIONDATA_FLAG_ACK_PACKAGEID \<longrightarrow>
        id_part p \<noteq> None)"

definition raw_out :: "send_block list \<Rightarrow> session_data \<Rightarrow> bool" where
  "raw_out H p \<longleftrightarrow> pkg_hist H p \<and> ack_stream_pos p = 0 \<and> ids_ok p"

lemma is_flags_contain_add [simp]:
  "is_flags_contain (flags_add f p) g \<longleftrightarrow> is_flags_contain p g \<or> f AND g \<noteq> 0"
  by (auto simp: is_flags_contain_def flags_add_def word_ao_dist or_eq_0_iff)

lemma is_flags_contain_update [simp]:
  "is_flags_contain (p\<lparr>stream_pos := a\<rparr>) g = is_flags_contain p g"
  "is_flags_contain (p\<lparr>send_time := a\<rparr>) g = is_flags_contain p g"
  "is_flags_contain (p\<lparr>payload := d\<rparr>) g = is_flags_contain p g"
  "is_flags_contain (p\<lparr>id_part := i\<rparr>) g = is_flags_contain p g"
  "is_flags_contain (p\<lparr>session_id := x\<rparr>) g = is_flags_contain p g"
  "is_flags_contain (p\<lparr>ack_stream_pos := a\<rparr>) g = is_flags_contain p g"
  by (simp_all add: is_flags_contain_def)

lemma flags_add_sel [simp]:
  "stream_pos (flags_add f p) = stream_pos p" "payload (flags_add f p) = payload p"
  "ack_stream_pos (flags_add f p) = ack_stream_pos p" "id_part (flags_add f p) = id_part p"
  "send_time (flags_add f p) = send_time p"
  by (simp_all add: flags_add_def)

lemma session_data_new_sel [simp]:
  "payload session_data_new = []" "ack_stream_pos session_data_new = 0" "id_part session_data_new = None"
  "\<not> is_flags_contain session_data_new g"
  by (simp_all add: session_data_new_def is_flags_contain_def)

lemma raw_out_mono: "raw_out H p \<Longrightarrow> raw_out (H @ bs) p"
  by (auto simp: raw_out_def pkg_hist_def)

lemma raw_out_mark:
  "raw_out H p \<Longrightarrow> raw_out H ((flags_add SESSIONDATA_FLAG_PACKAGEID p)\<lparr>id_part := Some i\<rparr>)"
  by (auto simp: raw_out_def pkg_hist_def ids_ok_def sessiondata_flag_defs)

lemma raw_out_block:
  assumes "\<exists>h\<in>set H. sb_content h = sb_content b"
  shows "raw_out H (to_session_data now b)"
proof -
  have "ack_stream_pos (to_session_data now b) = 0 \<and> ids_ok (to_session_data now b)"
    by (cases "sb_fin b") (simp_all add: to_session_data_def ids_ok_def Let_def sessiondata_flag_defs)
  then show ?thesis
    using assms unfolding raw_out_def pkg_hist_def to_session_data_sel flag_bits
    by (metis sb_content_parts)
qed

lemma pre_send_loop_out:
  "pre_send_loop ls rtt g ps = (ps', r) \<Longrightarrow> \<forall>p\<in>set ps. raw_out H p \<Longrightarrow> \<forall>p\<in>set ps'. raw_out H p"
  by (induction ps arbitrary: ps' r)
    (auto simp: Let_def split: if_splits prod.splits intro: raw_out_mark)

lemma on_pre_send_package_ok:
  assumes "on_pre_send_package ps w = (ps', w')" "\<forall>p\<in>set ps. raw_out H p"
  shows "\<forall>p\<in>set ps'. raw_out H p" "wq w' = wq w" "write_waiter w' = write_waiter w"
    "flush_waiters w' = flush_waiters w" "close_waiter w' = close_waiter w" "last_recv w' = last_recv w"
  using assms pre_send_loop_out [of "list_back (est_stubs w)" "cc_rtt (wcc w)" "est_id w" ps ps' _ H]
  by (auto simp: on_pre_send_package_def split: prod.splits option.splits)

lemma wp_check_wnd_queue:
  assumes ok: "queue_ok H S (wq w)" and eq: "wp_check_wnd I now timeout ps w = (ps', w')"
    and ps: "\<forall>p\<in>set ps. raw_out H p"
  shows "queue_ok H S (wq w')" "\<forall>p\<in>set ps'. raw_out H p" "sq_start (wq w') = sq_start (wq w)"
    "sq_nagle (wq w') = sq_nagle (wq w)" "sq_blocks (wq w') = [] \<longleftrightarrow> sq_blocks (wq w) = []"
proof -
  have inv: "sq_inv S (wq w)" and tail: "tail_of (sq_blocks (wq w)) H" and S: "S = blocks_data H @ nagle_data (wq w)"
    using ok unfolding queue_ok_def by blast+
  obtain ps1 q where q: "sq_check_wnd now timeout (cc_cwnd I (wcc w)) (wq w) = (ps1, q)"
    by fastforce
  note wnd = sq_check_wnd_ok [OF inv q]
  obtain w1 where w1: "on_pre_send_package (ps @ ps1) (w\<lparr>wq := q\<rparr>) = (ps', w1)"
    "w' = w1\<lparr>app_limited := (length ps' = 0)\<rparr>"
    using eq q by (auto simp: wp_check_wnd_def split: prod.splits)
  have "\<forall>p\<in>set (ps @ ps1). raw_out H p"
    using ps wnd(7) tail_of_member [OF tail] by (auto intro!: raw_out_block)
  note pre = on_pre_send_package_ok [OF w1(1) this]
  have wq': "wq w' = q"
    using pre(2) w1(2) by simp
  show "\<forall>p\<in>set ps'. raw_out H p" "sq_start (wq w') = sq_start (wq w)" "sq_nagle (wq w') = sq_nagle (wq w)"
    using pre(1) wnd(3,4) wq' by simp_all
  show "sq_blocks (wq w') = [] \<longleftrightarrow> sq_blocks (wq w) = []"
    using wnd(2) unfolding wq' by (metis map_is_Nil_conv)
  have "nagle_data q = nagle_data (wq w)"
    using q by (auto simp: sq_check_wnd_def split: prod.splits)
  then show "queue_ok H S (wq w')"
    using S wnd(1) tail_of_content [OF wnd(2)] tail unfolding queue_ok_def wq' by simp
qed

lemma wp_check_wnd_ok:
  assumes ok: "sender_ok H S c w" and eq: "wp_check_wnd I now timeout ps w = (ps', w')"
    and ps: "\<forall>p\<in>set ps. raw_out H p"
  shows "sender_ok H S c w'" "\<forall>p\<in>set ps'. raw_out H p" "sq_start (wq w') = sq_start (wq w)"
proof -
  have "queue_ok H S (wq w)"
    using ok by (simp add: sender_ok_def)
  note r = wp_check_wnd_queue [OF this eq ps]
  show "\<forall>p\<in>set ps'. raw_out H p" "sq_start (wq w') = sq_start (wq w)"
    by (rule r(2), rule r(3))
  show "sender_ok H S c w'"
    using ok r(1,4,5) unfolding sender_ok_def by simp
qed

subsection \<open>What the operations keep\<close>

definition accepted :: "(io_error + nat) poll \<Rightarrow> nat" where
  "accepted ret = (case ret of Ready (Inr n) \<Rightarrow> n | _ \<Rightarrow> 0)"

text \<open>Where the unacknowledged part of the stream begins.\<close>

definition wstart :: "'c write_state \<Rightarrow> nat option" where
  "wstart st = (case st of WOpen w \<Rightarrow> Some (unat (sq_start (wq w))) | WClosed \<Rightarrow> None)"

lemma not_ended_nonfin:
  assumes "hist_ok S c H" "\<not> ended H" "b \<in> set H"
  shows "\<not> sb_fin b"
  using assms by (cases H rule: rev_cases) (auto simp: hist_ok_def ended_def)

lemma hist_ok_extend:
  assumes hist: "hist_ok S c H" "\<not> ended H" and ok: "queue_ok (H @ bs) (S @ d) q'" "chained 0 (H @ bs)"
    and nf: "\<forall>b\<in>set bs. \<not> sb_fin b"
  shows "hist_ok (S @ d) c (H @ bs)" "\<not> ended (H @ bs)"
proof -
  have all: "\<forall>b\<in>set (H @ bs). \<not> sb_fin b"
    using not_ended_nonfin [OF hist] nf by auto
  show ne: "\<not> ended (H @ bs)"
    unfolding ended_def using all last_in_set by blast
  have "length (S @ d) < 2 ^ 64" "S @ d = blocks_data (H @ bs) @ nagle_data q'"
    using ok(1) sq_invD(2) unfolding queue_ok_def by blast+
  moreover have "prefix (blocks_data (H @ bs)) (S @ d)"
    unfolding calculation(2) by simp
  ultimately show "hist_ok (S @ d) c (H @ bs)"
    using ok(2) all ne unfolding hist_ok_def by (meson in_set_butlastD)
qed

lemma sender_okD:
  assumes "sender_ok H S c w"
  shows "queue_ok H S (wq w)" "sq_inv S (wq w)" "c \<Longrightarrow> ended H" "ended H \<Longrightarrow> sq_nagle (wq w) = NagleNone"
    "ended H \<Longrightarrow> sq_blocks (wq w) \<noteq> []"
  using assms unfolding sender_ok_def queue_ok_def by blast+

lemma sender_ok_cong:
  assumes "sender_ok H S c w" "wq w' = wq w"
  shows "sender_ok H S c w'"
  using assms by (simp add: sender_ok_def)

lemma wp_write_ok:
  assumes hist: "hist_ok S c H" and st: "sender_st H S c st" and open_: "\<not> c"
    and len: "length S + length buf < 2 ^ 64"
  shows "\<exists>ret ps st' bs. wp_write I t waker buf st = Inr ((ret, ps), st') \<and>
    hist_ok (S @ take (accepted ret) buf) c (H @ bs) \<and>
    sender_st (H @ bs) (S @ take (accepted ret) buf) c st' \<and>
    (\<forall>p\<in>set ps. raw_out (H @ bs) p) \<and> wstart st' = wstart st"
proof (cases st)
  case WClosed
  then show ?thesis
    using hist by (auto simp: wp_write_def sender_st_def accepted_def intro: exI [of _ "[]"])
next
  case (WOpen w)
  have ok: "sender_ok H S c w"
    using st WOpen by (simp add: sender_st_def)
  have inv: "sq_inv S (wq w)"
    using sender_okD(2) [OF ok] .
  have ne: "\<not> ended H"
    using hist open_ by (auto simp: hist_ok_def)
  show ?thesis
  proof (cases "write_waiter w")
    case (Some x)
    then show ?thesis
      using hist ok WOpen by (auto simp: wp_write_def sender_st_def accepted_def intro: exI [of _ "[]"])
  next
    case None
    obtain n q' bs where al: "alloc_blocks (t 0) buf (wq w) = Inr (n, q')" "sq_inv (S @ take n buf) q'"
      "sq_blocks q' = sq_blocks (wq w) @ bs" "\<forall>b\<in>set bs. \<not> sb_fin b"
      using alloc_blocks_ok [OF inv len refl] by blast
    have start: "sq_start q' = sq_start (wq w)"
      by (rule alloc_blocks_start [OF al(1)])
    note q' = queue_ok_extend [OF sender_okD(1) [OF ok] al(2) start al(3)]
    have ch: "chained 0 (H @ bs)"
      using q'(2) hist by (simp add: hist_ok_def)
    note h' = hist_ok_extend [OF hist ne q'(1) ch al(4)]
    have snd: "sender_ok (H @ bs) (S @ take n buf) c w'" if "wq w' = q'" for w' :: "'a write_impl"
      using q'(1) h'(2) open_ that by (simp add: sender_ok_def)
    show ?thesis
    proof (cases "n = 0")
      case True
      have "wp_write I t waker buf st = Inr ((Pending, []), WOpen (w\<lparr>wq := q', write_waiter := Some waker\<rparr>))"
        using None al(1) True by (simp add: wp_write_def WOpen used_eq [OF inv])
      then show ?thesis
        using h'(1) snd [of "w\<lparr>wq := q', write_waiter := Some waker\<rparr>"] start True
        by (auto simp: sender_st_def accepted_def wstart_def WOpen)
    next
      case False
      let ?w = "if length (queue_data (wq w)) > 0 then w\<lparr>wq := q', last_recv := t 1\<rparr> else w\<lparr>wq := q'\<rparr>"
      obtain ps w' where wnd: "wp_check_wnd I (t 2) (cc_rto (wcc ?w)) [] ?w = (ps, w')"
        by fastforce
      have eq: "wp_write I t waker buf st = Inr ((Ready (Inr n), ps), WOpen w')"
        using None al(1) False wnd by (simp add: wp_write_def WOpen used_eq [OF inv] Let_def split: if_splits)
      have "sender_ok (H @ bs) (S @ take n buf) c ?w"
        by (rule snd) simp
      note r = wp_check_wnd_ok [OF this wnd]
      have "sq_start (wq w') = sq_start (wq w)"
        using r(3) start by (simp split: if_splits)
      then show ?thesis
        using eq h'(1) r(1,2) by (auto simp: sender_st_def accepted_def wstart_def WOpen)
    qed
  qed
qed

lemma wp_flush_ok:
  assumes "sender_st H S c st"
  shows "\<exists>ret st'. wp_flush waker st = Inr (ret, st') \<and> sender_st H S c st' \<and> wstart st' = wstart st"
proof (cases st)
  case (WOpen w)
  then have ok: "sender_ok H S c w"
    using assms by (simp add: sender_st_def)
  then have "sender_ok H S c (w\<lparr>flush_waiters := flush_waiters w @ [waker]\<rparr>)"
    by (rule sender_ok_cong) simp
  then show ?thesis
    using ok WOpen used_eq [OF sender_okD(2) [OF ok]]
    by (auto simp: wp_flush_def sender_st_def wstart_def)
qed (simp add: wp_flush_def sender_st_def)

lemma tail_of_last:
  assumes "tail_of bs H" "bs \<noteq> []"
  shows "H \<noteq> []" "sb_content (last bs) = sb_content (last H)"
proof -
  obtain k where k: "map sb_content bs = map sb_content (drop k H)"
    using assms(1) by (rule tail_of_split)
  then have ne: "drop k H \<noteq> []"
    using assms(2) by (metis map_is_Nil_conv)
  then show "H \<noteq> []"
    by auto
  have "sb_content (last bs) = sb_content (last (drop k H))"
    using k assms(2) ne by (metis last_map)
  then show "sb_content (last bs) = sb_content (last H)"
    using ne by simp
qed

lemma sq_close_hist:
  assumes hist: "hist_ok S c H" and ok: "sender_ok H S c w" and cl: "sq_close (wq w) = Inr q'" "sq_inv S q'"
  shows "\<exists>bs. hist_ok S True (H @ bs) \<and> queue_ok (H @ bs) S q' \<and> ended (H @ bs) \<and>
    sq_nagle q' = NagleNone \<and> sq_blocks q' \<noteq> []"
proof -
  have tail: "tail_of (sq_blocks (wq w)) H"
    using sender_okD(1) [OF ok] unfolding queue_ok_def by blast
  note cb = sq_close_blocks [OF cl(1)]
  show ?thesis
  proof (cases "sq_blocks (wq w) \<noteq> [] \<and> sb_fin (last (sq_blocks (wq w)))")
    case True
    then have "sb_fin (last H)" "H \<noteq> []"
      using tail_of_last [OF tail] sb_content_parts by blast+
    then have "ended (H @ [])"
      by (simp add: ended_def)
    moreover have "q' = wq w"
      using cb True by simp
    moreover have "hist_ok S True (H @ [])"
      using hist by (simp add: hist_ok_def)
    moreover have "queue_ok (H @ []) S q'" "sq_nagle q' = NagleNone"
      using calculation(1,2) sender_okD(1,4) [OF ok] by simp_all
    ultimately show ?thesis
      using True by blast
  next
    case False
    then obtain b where b: "sq_blocks q' = sq_blocks (wq w) @ [b]" "sb_fin b" "sq_nagle q' = NagleNone"
      "sb_len b \<le> mss"
      using cb sq_invD(1) [OF sender_okD(2) [OF ok]] by auto
    have "\<not> ended H"
    proof
      assume "ended H"
      then have "sq_blocks (wq w) \<noteq> []" "sb_fin (last H)"
        using sender_okD(5) [OF ok] by (simp_all add: ended_def)
      then show False
        using False tail_of_last(2) [OF tail] sb_content_parts by blast
    qed
    then have nf: "\<forall>b\<in>set H. \<not> sb_fin b"
      using not_ended_nonfin [OF hist] by blast
    have "sq_inv (S @ []) q'" "sq_start q' = sq_start (wq w)"
      using cl(2) cb by simp_all
    note ext = queue_ok_extend [OF sender_okD(1) [OF ok] this b(1)]
    have q': "queue_ok (H @ [b]) S q'" "chained 0 (H @ [b])"
      using ext hist unfolding hist_ok_def by simp_all
    then have "S = blocks_data (H @ [b])"
      using b(3) unfolding queue_ok_def by (simp add: nagle_data_def)
    moreover have "length S < 2 ^ 64"
      using hist by (simp add: hist_ok_def)
    ultimately have "hist_ok S True (H @ [b])"
      using q'(2) nf b(4) unfolding hist_ok_def by (simp del: chained_append blocks_data_simps)
    moreover have "ended (H @ [b])" "sq_blocks q' \<noteq> []"
      using b(1,2) by (simp_all add: ended_def)
    ultimately show ?thesis
      using q'(1) b(3) by blast
  qed
qed

lemma wp_close_ok:
  assumes hist: "hist_ok S c H" and st: "sender_st H S c st"
  shows "\<exists>ret ps st' bs. wp_close I t waker st = Inr ((ret, ps), st') \<and>
    hist_ok S True (H @ bs) \<and> sender_st (H @ bs) S True st' \<and>
    (\<forall>p\<in>set ps. raw_out (H @ bs) p) \<and> wstart st' = wstart st"
proof (cases st)
  case WClosed
  have "hist_ok S True (H @ [])"
    using hist by (simp add: hist_ok_def)
  moreover have "wp_close I t waker st = Inr ((Ready (Inr ()), []), WClosed)"
    by (simp add: wp_close_def WClosed)
  moreover have "sender_st (H @ []) S True (WClosed :: 'a write_state)"
    by (simp add: sender_st_def)
  ultimately show ?thesis
    using WClosed by (metis empty_iff empty_set)
next
  case (WOpen w)
  have ok: "sender_ok H S c w"
    using st WOpen by (simp add: sender_st_def)
  obtain q' where cl: "sq_close (wq w) = Inr q'" "sq_inv S q'"
    using sq_close_ok [OF sender_okD(2) [OF ok]] by blast
  obtain bs where bs: "hist_ok S True (H @ bs)" "queue_ok (H @ bs) S q'" "ended (H @ bs)"
    "sq_nagle q' = NagleNone" "sq_blocks q' \<noteq> []"
    using sq_close_hist [OF hist ok cl] by blast
  let ?w = "w\<lparr>wq := q', close_waiter := waker\<rparr>"
  have snd: "sender_ok (H @ bs) S True ?w"
    using bs(2-5) by (simp add: sender_ok_def)
  obtain ps w' where wnd: "wp_check_wnd I (t 0) (cc_rto (wcc ?w)) [] ?w = (ps, w')"
    by fastforce
  note r = wp_check_wnd_ok [OF snd wnd]
  have "wp_close I t waker st = Inr ((Pending, ps), WOpen w')"
    using cl(1) wnd by (simp add: wp_close_def WOpen Let_def)
  moreover have "sender_st (H @ bs) S True (WOpen w')" "wstart (WOpen w') = wstart st"
    using r(1,3) sq_close_blocks [OF cl(1)] by (simp_all add: sender_st_def wstart_def WOpen)
  ultimately show ?thesis
    using bs(1) r(2) by (metis empty_iff empty_set)
qed

lemma wp_check_lost_ok:
  assumes "sender_ok H S c w" "wp_check_lost I config now w = Inr (r, w')"
  shows "sender_ok H S c w'" "wq w' = wq w"
  using assms
  by (auto simp: wp_check_lost_def Let_def rbind_eq_Inr split: if_splits intro: sender_ok_cong)

lemma check_nagle_hist:
  assumes hist: "hist_ok S c H" and ok: "sender_ok H S c w" and eq: "check_nagle now nagle (wq w) = Inr (sent, q')"
  shows "\<exists>bs. hist_ok S c (H @ bs) \<and> sender_ok (H @ bs) S c (w\<lparr>wq := q'\<rparr>) \<and> sq_start q' = sq_start (wq w)"
proof -
  have inv: "sq_inv (S @ []) q'"
    using check_nagle_ok [OF sender_okD(2) [OF ok], of now nagle] eq by auto
  obtain bs where bs: "sq_start q' = sq_start (wq w)" "sq_blocks q' = sq_blocks (wq w) @ bs"
    "\<forall>b\<in>set bs. \<not> sb_fin b" "sq_nagle (wq w) = NagleNone \<longrightarrow> bs = [] \<and> sq_nagle q' = NagleNone"
    using check_nagle_blocks [OF eq] by blast
  note ext = queue_ok_extend [OF sender_okD(1) [OF ok] inv bs(1,2)]
  have ch: "chained 0 (H @ bs)"
    using ext(2) hist by (simp add: hist_ok_def)
  show ?thesis
  proof (cases "ended H")
    case True
    then have "bs = []" "sq_nagle q' = NagleNone" "sq_blocks (wq w) \<noteq> []"
      using bs(4) sender_okD(4,5) [OF ok] by blast+
    then have "sender_ok (H @ bs) S c (w\<lparr>wq := q'\<rparr>)"
      using ext(1) bs(2) True by (simp add: sender_ok_def)
    then show ?thesis
      using \<open>bs = []\<close> hist bs(1) by (intro exI [of _ bs]) simp
  next
    case False
    note h' = hist_ok_extend [OF hist False ext(1) ch bs(3)]
    then have "sender_ok (H @ bs) S c (w\<lparr>wq := q'\<rparr>)"
      using ext(1) sender_okD(3) [OF ok] False by (auto simp: sender_ok_def)
    then show ?thesis
      using h'(1) bs(1) by auto
  qed
qed

lemma wp_on_time_escape_ok:
  assumes hist: "hist_ok S c H" and st: "sender_st H S c st" and ps: "\<forall>p\<in>set ps. raw_out H p"
    and eq: "wp_on_time_escape I config now ps st = Inr ((ret, ps', woken), st')"
  shows "\<exists>bs. hist_ok S c (H @ bs) \<and> sender_st (H @ bs) S c st' \<and> (\<forall>p\<in>set ps'. raw_out (H @ bs) p) \<and>
    (st' = WClosed \<or> wstart st' = wstart st)"
proof (cases st)
  case WClosed
  then have "ps' = ps" "st' = WClosed"
    using eq by (simp_all add: wp_on_time_escape_def)
  then show ?thesis
    using hist ps by (auto simp: sender_st_def intro!: exI [of _ "[]"])
next
  case (WOpen w)
  have ok: "sender_ok H S c w"
    using st WOpen by (simp add: sender_st_def)
  obtain e w' where impl: "wp_impl_on_time_escape I config now ps w = Inr ((e, ps'), w')"
    "st' = (case e of Some _ \<Rightarrow> WClosed | None \<Rightarrow> WOpen w')"
    using eq by (auto simp: wp_on_time_escape_def WOpen rbind_eq_Inr split: option.splits)
  obtain sent q w1 lost broken where s: "check_nagle now (cfg_nagle config) (wq w) = Inr (sent, q)"
    "wp_check_lost I config now (w\<lparr>wq := q\<rparr>) = Inr ((lost, broken), w1)"
    "(if broken then Inr ((Some bucky_error_code.ErrorState, ps), w1)
      else if sent \<or> lost then
        (case wp_check_wnd I now (cc_rto (wcc w)) ps w1 of (packages, w) \<Rightarrow> Inr ((None, packages), w))
      else Inr ((None, ps), w1)) = (Inr ((e, ps'), w') :: _ result)"
    using impl(1) by (auto simp: wp_impl_on_time_escape_def Let_def rbind_eq_Inr)
  obtain bs where bs: "hist_ok S c (H @ bs)" "sender_ok (H @ bs) S c (w\<lparr>wq := q\<rparr>)" "sq_start q = sq_start (wq w)"
    using check_nagle_hist [OF hist ok s(1)] by blast
  note l = wp_check_lost_ok [OF bs(2) s(2)]
  have ps1: "\<forall>p\<in>set ps. raw_out (H @ bs) p"
    using ps raw_out_mono by blast
  have "(\<forall>p\<in>set ps'. raw_out (H @ bs) p) \<and> sender_ok (H @ bs) S c w' \<and> sq_start (wq w') = sq_start (wq w)"
  proof (cases "\<not> broken \<and> (sent \<or> lost)")
    case True
    then have "wp_check_wnd I now (cc_rto (wcc w)) ps w1 = (ps', w')"
      using s(3) by (auto split: prod.splits)
    from wp_check_wnd_ok [OF l(1) this ps1] show ?thesis
      using l(2) bs(3) by simp
  next
    case False
    then show ?thesis
      using s(3) ps1 l bs(3) by (auto split: if_splits)
  qed
  then show ?thesis
    using bs(1) impl(2) by (auto simp: sender_st_def wstart_def WOpen split: option.splits)
qed

lemma wp_on_time_escape_safe:
  assumes "sender_st H S c st" "\<And>w. st = WOpen w \<Longrightarrow> last_recv w \<le> now"
  shows "\<exists>r st'. wp_on_time_escape I config now ps st = Inr (r, st')"
proof (cases st)
  case (WOpen w)
  have ok: "sender_ok H S c w"
    using assms(1) WOpen by (simp add: sender_st_def)
  obtain sent q where n: "check_nagle now (cfg_nagle config) (wq w) = Inr (sent, q)"
    using check_nagle_ok [OF sender_okD(2) [OF ok]] by blast
  have "\<exists>r w1. wp_check_lost I config now (w\<lparr>wq := q\<rparr>) = Inr (r, w1)"
    using assms(2) [OF WOpen] by (auto simp: wp_check_lost_def checked_sub_u64_def Let_def)
  then obtain lost broken w1 where "wp_check_lost I config now (w\<lparr>wq := q\<rparr>) = Inr ((lost, broken), w1)"
    by auto
  then show ?thesis
    using n by (auto simp: wp_on_time_escape_def WOpen wp_impl_on_time_escape_def Let_def split: prod.splits)
qed (simp add: wp_on_time_escape_def)

lemma sender_fin_last:
  assumes hist: "hist_ok S c H" and ok: "sender_ok H S c w"
  shows "fin_last (wq w)"
proof -
  obtain k where k: "map sb_content (sq_blocks (wq w)) = map sb_content (drop k H)"
    using sender_okD(1) [OF ok] unfolding queue_ok_def by (meson tail_of_split)
  have fins: "map sb_fin (sq_blocks (wq w)) = drop k (map sb_fin H)"
    unfolding content_fin [OF k] by (simp add: drop_map)
  have "\<forall>f\<in>set (butlast (map sb_fin H)). \<not> f"
    using hist by (auto simp: hist_ok_def map_butlast [symmetric])
  then have nf: "\<forall>f\<in>set (butlast (map sb_fin (sq_blocks (wq w)))). \<not> f"
    unfolding fins butlast_drop by (blast dest: in_set_dropD)
  have "sq_nagle (wq w) = NagleNone"
    if "map sb_fin (sq_blocks (wq w)) \<noteq> []" "last (map sb_fin (sq_blocks (wq w)))"
  proof -
    have "drop k (map sb_fin H) \<noteq> []"
      using that(1) fins by simp
    then have "H \<noteq> []" "last (map sb_fin H)"
      using that(2) unfolding fins by auto
    then have "ended H"
      by (simp add: ended_def last_map)
    then show ?thesis
      by (rule sender_okD(4) [OF ok])
  qed
  then show ?thesis
    using nf by (simp add: fin_last_map)
qed

lemma confirm_hist:
  assumes hist: "hist_ok S c H" and ok: "sender_ok H S c w"
  shows "\<exists>n fin q'. confirm ack_pos fin_ack (wq w) = Inr ((n, fin), q') \<and>
    (\<not> fin \<longrightarrow> sender_ok H S c (w\<lparr>wq := q'\<rparr>)) \<and> queue_ok H S q' \<and>
    (sq_start q' = sq_start (wq w) \<or> unat (sq_start q') \<le> unat ack_pos) \<and>
    (fin \<longrightarrow> c \<and> length S \<le> unat ack_pos)"
proof -
  let ?q = "wq w"
  have inv: "sq_inv S ?q" and tail: "tail_of (sq_blocks ?q) H" and S: "S = blocks_data H @ nagle_data ?q"
    using sender_okD(1) [OF ok] unfolding queue_ok_def by blast+
  obtain n fin q' k where r: "confirm ack_pos fin_ack ?q = Inr ((n, fin), q')" "sq_inv S q'"
    "unat (sq_start q') = unat (sq_start ?q) + n" "sq_blocks q' = drop k (sq_blocks ?q)"
    "sq_nagle q' = sq_nagle ?q" "n = length (blocks_data (take k (sq_blocks ?q)))"
    "fin \<longleftrightarrow> (\<exists>b\<in>set (take k (sq_blocks ?q)). sb_fin b)"
    "\<forall>b\<in>set (take k (sq_blocks ?q)). sb_end b \<le> ack_pos"
    using confirm_ok [OF inv, of ack_pos fin_ack] by blast
  have "nagle_buffer q' = nagle_buffer ?q"
    using r(1) by (auto simp: confirm_def Let_def rbind_eq_Inr split: prod.splits)
  then have nd: "nagle_data q' = nagle_data ?q"
    using r(5) by (simp add: nagle_data_def split: nagle_state.split)
  have q': "queue_ok H S q'"
    using r(2) tail_of_drop [OF tail] S nd r(4) unfolding queue_ok_def by simp
  have keep: "sender_ok H S c (w\<lparr>wq := q'\<rparr>)" if "\<not> fin"
  proof -
    have "sq_blocks q' \<noteq> []" if e: "ended H"
    proof
      assume "sq_blocks q' = []"
      then have "take k (sq_blocks ?q) = sq_blocks ?q"
        using r(4) by simp
      moreover have "sq_blocks ?q \<noteq> []"
        by (rule sender_okD(5) [OF ok e])
      ultimately have "\<not> sb_fin (last (sq_blocks ?q))"
        using r(7) \<open>\<not> fin\<close> by (metis last_in_set)
      then show False
        using e tail_of_last(2) [OF tail \<open>sq_blocks ?q \<noteq> []\<close>] sb_content_parts unfolding ended_def by blast
    qed
    then show ?thesis
      using q' sender_okD(3,4) [OF ok] r(5) by (simp add: sender_ok_def)
  qed
  have start: "sq_start q' = sq_start ?q \<or> unat (sq_start q') \<le> unat ack_pos"
  proof (cases "take k (sq_blocks ?q) = []")
    case True
    then have "unat (sq_start q') = unat (sq_start ?q)"
      using r(3,6) by auto
    then show ?thesis
      by (metis word_unat_eq_iff)
  next
    case False
    have "chained (unat (sq_start ?q)) (take k (sq_blocks ?q))"
      using sq_invD(6) [OF inv] chained_append [of _ "take k (sq_blocks ?q)" "drop k (sq_blocks ?q)"] by simp
    moreover have "unat (sq_start ?q) + length (blocks_data (take k (sq_blocks ?q))) < 2 ^ 64"
      using r(3,6) sq_invD(2,3) [OF r(2)] by simp
    ultimately have "unat (sb_end (last (take k (sq_blocks ?q)))) = unat (sq_start q')"
      using chained_last_end [OF _ False] r(3,6) by simp
    moreover have "sb_end (last (take k (sq_blocks ?q))) \<le> ack_pos"
      using r(8) last_in_set [OF False] by blast
    ultimately show ?thesis
      by (simp add: word_le_nat_alt)
  qed
  have "c \<and> length S \<le> unat ack_pos" if f: fin
  proof -
    obtain b where b: "b \<in> set (sq_blocks ?q)" "sb_fin b" "sb_end b \<le> ack_pos"
      using r(7,8) f by (meson in_set_takeD)
    have "package_ok S (is_closed ?q) (to_session_data 0 b)"
      by (rule block_package_ok [OF inv sender_fin_last [OF hist ok] b(1)])
    then have e: "unat (sb_start b) + length (sb_data b) = length S"
      using b(2) by (simp add: package_ok_def)
    moreover have "length S < 2 ^ 64"
      by (rule sq_invD(2) [OF inv])
    ultimately have "unat (sb_end b) = length S"
      by (simp add: sb_end_def sb_len_def unat_add_nat64)
    moreover obtain h where "h \<in> set H" "sb_fin h"
      using tail_of_member [OF tail b(1)] b(2) sb_content_parts by blast
    then have "ended H"
      using not_ended_nonfin [OF hist] by blast
    ultimately show ?thesis
      using b(3) hist by (simp add: hist_ok_def word_le_nat_alt)
  qed
  then show ?thesis
    using r(1) keep q' start by blast
qed

lemma wp_on_acked_ok:
  assumes ok: "queue_ok H S (wq w)" and ps: "\<forall>p\<in>set ps. raw_out H p"
  shows "\<exists>ps' woken w'. wp_on_acked I config t p n ps w = Inr ((ps', woken), w') \<and>
    queue_ok H S (wq w') \<and> (sender_ok H S c w \<longrightarrow> sender_ok H S c w') \<and>
    sq_start (wq w') = sq_start (wq w) \<and> (\<forall>p\<in>set ps'. raw_out H p)"
proof (cases "n > 0")
  case False
  then show ?thesis using assms by (simp add: wp_on_acked_def)
next
  case True
  let ?w = "w\<lparr>wcc := cc_on_ack I (word_of_nat (sq_flight (wq w))) (word_of_nat n)
    (Some (send_time p)) (t 2) (app_limited w) (wcc w)\<rparr>"
  obtain ps' w1 where wnd: "wp_check_wnd I (t 0) (cc_rto (wcc ?w)) ps ?w = (ps', w1)"
    by fastforce
  have "queue_ok H S (wq ?w)"
    using ok by simp
  note r = wp_check_wnd_queue [OF this wnd ps]
  have "sq_inv S (wq w1)"
    using r(1) unfolding queue_ok_def by blast
  then have "used (wq w1) = Inr (length (queue_data (wq w1)))"
    by (rule used_eq)
  then have "\<exists>woken w'. wp_on_acked I config t p n ps w = Inr ((ps', woken), w') \<and> wq w' = wq w1"
    using True wnd by (simp add: wp_on_acked_def Let_def split: if_splits)
  then obtain woken w' where w': "wp_on_acked I config t p n ps w = Inr ((ps', woken), w')" "wq w' = wq w1"
    by blast
  have "sender_ok H S c w'" if "sender_ok H S c w"
    using that r(1,4,5) unfolding sender_ok_def w'(2) by simp
  then show ?thesis
    using r(1-3) w' by simp
qed

lemma ack_est_package_out: "ack_est_package now p = Inr a \<Longrightarrow> raw_out H a"
  by (auto simp: ack_est_package_def raw_out_def pkg_hist_def ids_ok_def sessiondata_flag_defs
      split: option.splits)

lemma wp_reply_sample_out:
  "wp_reply_sample now p ps = Inr ps' \<Longrightarrow> \<forall>p\<in>set ps. raw_out H p \<Longrightarrow> \<forall>p\<in>set ps'. raw_out H p"
  by (auto simp: wp_reply_sample_def rbind_eq_Inr split: if_splits intro: ack_est_package_out)

lemma wp_on_estimate_ack_ok:
  "sender_ok H S c w \<Longrightarrow> wp_on_estimate_ack I t p w = Inr w' \<Longrightarrow>
   sender_ok H S c w' \<and> sq_start (wq w') = sq_start (wq w)"
  by (auto simp: wp_on_estimate_ack_def rbind_eq_Inr Let_def split: option.splits simp: sender_ok_def)

text \<open>A package of the peer: only acknowledged bytes leave the queue, and the sending half closes only
  when the whole closed stream is acknowledged.\<close>

lemma wp_on_package_ok:
  assumes hist: "hist_ok S c H" and st: "sender_st H S c st" and ps: "\<forall>p\<in>set ps. raw_out H p"
    and eq: "wp_on_package I config t p ps st = Inr ((r, ps', woken), st')"
  shows "sender_st H S c st'" "\<forall>p\<in>set ps'. raw_out H p"
    "wstart st' = wstart st \<or> (\<exists>s. wstart st' = Some s \<and> s \<le> unat (ack_stream_pos p)) \<or>
     st' = WClosed \<and> c \<and> length S \<le> unat (ack_stream_pos p)"
    "r \<noteq> Break"
proof -
  have "sender_st H S c st' \<and> (\<forall>p\<in>set ps'. raw_out H p) \<and> r \<noteq> Break \<and>
    (wstart st' = wstart st \<or> (\<exists>s. wstart st' = Some s \<and> s \<le> unat (ack_stream_pos p)) \<or>
     st' = WClosed \<and> c \<and> length S \<le> unat (ack_stream_pos p))"
  proof (cases st)
    case WClosed
    then show ?thesis
      using eq ps by (auto simp: wp_on_package_def sender_st_def)
  next
    case (WOpen w)
    have ok: "sender_ok H S c w"
      using st WOpen by (simp add: sender_st_def)
    show ?thesis
    proof (cases "is_flags_contain p SESSIONDATA_FLAG_ACK_PACKAGEID")
      case True
      then obtain w' where "wp_on_estimate_ack I t p w = Inr w'" "st' = WOpen w'" "ps' = ps" "r = Handled"
        using eq by (auto simp: wp_on_package_def WOpen rbind_eq_Inr)
      then show ?thesis
        using wp_on_estimate_ack_ok [OF ok] ps by (auto simp: sender_st_def wstart_def WOpen)
    next
      case False
      obtain n fin q' where cf: "confirm (ack_stream_pos p) (is_flags_contain p SESSIONDATA_FLAG_FINACK) (wq w) =
          Inr ((n, fin), q')" "\<not> fin \<longrightarrow> sender_ok H S c (w\<lparr>wq := q'\<rparr>)" "queue_ok H S q'"
        "sq_start q' = sq_start (wq w) \<or> unat (sq_start q') \<le> unat (ack_stream_pos p)"
        "fin \<longrightarrow> c \<and> length S \<le> unat (ack_stream_pos p)"
        using confirm_hist [OF hist ok] by blast
      obtain ps1 where ps1: "wp_reply_sample (t 0) p ps = Inr ps1"
        using eq False by (auto simp: wp_on_package_def WOpen rbind_eq_Inr)
      note out = wp_reply_sample_out [OF ps1 ps]
      let ?w = "w\<lparr>wq := q', last_recv := t 0\<rparr>"
      have q': "queue_ok H S (wq ?w)"
        using cf(3) by simp
      obtain ps2 waiters w1 where w1: "wp_on_acked I config t p n ps1 ?w = Inr ((ps2, waiters), w1)"
        "sender_ok H S c ?w \<longrightarrow> sender_ok H S c w1" "sq_start (wq w1) = sq_start (wq ?w)" "\<forall>p\<in>set ps2. raw_out H p"
        using wp_on_acked_ok [OF q' out] by blast
      have "wp_on_package I config t p ps st = Inr ((Continue, ps2, waiters @ (if fin then opt_list (close_waiter w1) else [])),
          if fin then WClosed else WOpen w1)"
        by (simp add: wp_on_package_def WOpen False cf(1) ps1 w1(1))
      then have r: "r = Continue" "ps' = ps2" "st' = (if fin then WClosed else WOpen w1)"
        using eq by simp_all
      show ?thesis
      proof (cases fin)
        case True
        then show ?thesis
          using r cf(5) w1(4) by (simp add: sender_st_def)
      next
        case False
        then have "sender_ok H S c ?w"
          using cf(2) by (simp add: sender_ok_def)
        then show ?thesis
          using r False cf(4) w1(2-4) by (auto simp: sender_st_def wstart_def WOpen)
      qed
    qed
  qed
  then show "sender_st H S c st'" "\<forall>p\<in>set ps'. raw_out H p"
    "wstart st' = wstart st \<or> (\<exists>s. wstart st' = Some s \<and> s \<le> unat (ack_stream_pos p)) \<or>
     st' = WClosed \<and> c \<and> length S \<le> unat (ack_stream_pos p)"
    "r \<noteq> Break"
    by blast+
qed

lemma wp_on_package_safe:
  assumes hist: "hist_ok S c H" and st: "sender_st H S c st" and p: "ids_ok p"
    and clock: "\<And>w s. st = WOpen w \<Longrightarrow> s \<in> set (est_stubs w) \<Longrightarrow> stub_send_time s \<le> t 1"
  shows "\<exists>r st'. wp_on_package I config t p [] st = Inr (r, st')"
proof (cases st)
  case (WOpen w)
  have ok: "sender_ok H S c w"
    using st WOpen by (simp add: sender_st_def)
  show ?thesis
  proof (cases "is_flags_contain p SESSIONDATA_FLAG_ACK_PACKAGEID")
    case True
    then obtain part where part: "id_part p = Some part"
      using p by (auto simp: ids_ok_def)
    have "s \<in> set ss" if "find_stub i ss = Some (s, ss')" for i s ss ss'
      using that by (induction ss) (auto split: if_splits)
    then have "\<exists>w'. wp_on_estimate_ack I t p w = Inr w'"
      using clock [OF WOpen] part
      by (auto simp: wp_on_estimate_ack_def checked_sub_u64_def Let_def split: option.splits)
    then show ?thesis
      using True by (auto simp: wp_on_package_def WOpen)
  next
    case False
    have "\<exists>ps1. wp_reply_sample (t 0) p [] = Inr ps1"
      using p by (auto simp: wp_reply_sample_def ack_est_package_def ids_ok_def)
    then obtain ps1 where ps1: "wp_reply_sample (t 0) p [] = Inr ps1"
      by blast
    obtain n fin q' where cf: "confirm (ack_stream_pos p) (is_flags_contain p SESSIONDATA_FLAG_FINACK) (wq w) =
        Inr ((n, fin), q')" "queue_ok H S q'"
      using confirm_hist [OF hist ok] by blast
    have out: "\<forall>p\<in>set ps1. raw_out H p"
      using wp_reply_sample_out [OF ps1] by simp
    have "queue_ok H S (wq (w\<lparr>wq := q', last_recv := t 0\<rparr>))"
      using cf(2) by simp
    from wp_on_acked_ok [OF this out, of I config t p n] obtain x where
      "wp_on_acked I config t p n ps1 (w\<lparr>wq := q', last_recv := t 0\<rparr>) = Inr x"
      by blast
    then show ?thesis
      using ps1 cf(1) False by (auto simp: wp_on_package_def WOpen split: prod.splits)
  qed
qed (simp add: wp_on_package_def)

end
