(* ===== verification/ReadProvider.thy ===== *)
theory ReadProvider
  imports RecvQueue WriteProvider
begin

text \<open>
  The receiving half of a package stream, from \<^verbatim>\<open>component/cyfs-bdt/src/stream/package/read.rs\<close>: the receive
  queue, the task that waits for data, and the delayed acknowledgement. Wakers, clock readings and
  packages are as in the sending half. A read returns, with its length, the bytes it wrote to the
  buffer; the timer it starts is the reading of the clock that names it.
\<close>

subsection \<open>Data\<close>

record read_stub =
  stub_waker :: nat
  stub_len :: nat
  stub_time :: u64

datatype read_nagle = RNagleNone | RNagle u64

record 'r read_impl =
  remote_closed :: "u64 option"
  timeout_flag :: bool
  read_waiter :: "read_stub option"
  readable_waiter :: "nat option"
  rqueue :: "'r recv_queue"
  rnagle :: read_nagle

datatype 'r read_state = ROpen "'r read_impl" | RClosed u64 "io_error + nat"

definition rp_new :: "'r ringbuf \<Rightarrow> u64 \<Rightarrow> stream_config \<Rightarrow> 'r read_state" where
  "rp_new rb now config =
     ROpen \<lparr>remote_closed = None, timeout_flag = False, read_waiter = None, readable_waiter = None,
       rqueue = recv_queue_new rb (cfg_recv_buffer config), rnagle = RNagle now\<rparr>"

subsection \<open>Operations of the open half\<close>

definition check_close_waiting :: "'r ringbuf \<Rightarrow> 'r read_impl \<Rightarrow> bool" where
  "check_close_waiting rb r \<longleftrightarrow> remote_closed r \<noteq> None \<and> stream_len rb (rqueue r) = 0"

definition rp_check_timeout :: "'r ringbuf \<Rightarrow> u64 \<Rightarrow> 'r read_impl \<Rightarrow> nat option \<times> 'r read_impl" where
  "rp_check_timeout rb time r =
     (if timeout_flag r then (None, r)
      else if remote_closed r \<noteq> None then (None, r)
      else case read_waiter r of
          None \<Rightarrow> (None, r)
        | Some stub \<Rightarrow>
            if stream_len rb (rqueue r) = 0 then (None, r)
            else if stub_time stub \<noteq> time then (None, r)
            else (Some (stub_waker stub), r\<lparr>timeout_flag := True, read_waiter := None\<rparr>))"

definition rp_impl_readable :: "'r ringbuf \<Rightarrow> nat \<Rightarrow> 'r read_impl \<Rightarrow>
    ((io_error + nat) poll \<times> 'r read_impl) result" where
  "rp_impl_readable rb waker r =
     (if stream_len rb (rqueue r) > 0 then Inr (Ready (Inr (stream_len rb (rqueue r))), r)
      else rbind (rassert (read_waiter r = None)) (\<lambda>_.
        Inr (Pending, r\<lparr>readable_waiter := Some waker\<rparr>)))"

definition rp_impl_read :: "'r ringbuf \<Rightarrow> stream_config \<Rightarrow> (nat \<Rightarrow> u64) \<Rightarrow> nat \<Rightarrow> nat \<Rightarrow> 'r read_impl \<Rightarrow>
    ((io_error + nat) poll \<times> bytes \<times> u64 option) \<times> 'r read_impl" where
  "rp_impl_read rb config t waker buf_len r =
     (if read_waiter r \<noteq> None then ((Pending, [], None), r)
      else
        let former_len = stream_len rb (rqueue r) in
        if former_len \<ge> buf_len \<or> former_len > recv_drain config \<or> remote_closed r \<noteq> None \<or> timeout_flag r
        then (case read_stream rb buf_len (rqueue r) of (d, q) \<Rightarrow>
          ((Ready (Inr (length d)), d, None), r\<lparr>timeout_flag := False, rqueue := q\<rparr>))
        else ((Pending, [], Some (t 0)),
          r\<lparr>read_waiter := Some \<lparr>stub_waker = waker, stub_len = buf_len, stub_time = t 0\<rparr>\<rparr>))"

definition rp_wake :: "stream_config \<Rightarrow> u64 \<Rightarrow> nat \<Rightarrow> 'r read_impl \<Rightarrow> nat option \<times> 'r read_impl" where
  "rp_wake config now total_len r =
     (if remote_closed r \<noteq> None
      then (map_option stub_waker (read_waiter r), r\<lparr>read_waiter := None\<rparr>)
      else case read_waiter r of
          None \<Rightarrow> (None, r)
        | Some stub \<Rightarrow>
            if total_len \<ge> stub_len stub then (Some (stub_waker stub), r\<lparr>read_waiter := None\<rparr>)
            else if now \<ge> stub_time stub \<and> from_micros (now - stub_time stub) > cfg_recv_timeout config
            then (Some (stub_waker stub), r\<lparr>timeout_flag := True, read_waiter := None\<rparr>)
            else if total_len > recv_drain config then (Some (stub_waker stub), r\<lparr>read_waiter := None\<rparr>)
            else (None, r))"

subsection \<open>Operations\<close>

definition touch_ack :: "'r ringbuf \<Rightarrow> 'r read_state \<Rightarrow> (u64 \<times> bool) \<times> 'r read_state" where
  "touch_ack rb st =
     (case st of
        ROpen r \<Rightarrow>
          ((stream_end rb (rqueue r), remote_closed r \<noteq> None), ROpen (r\<lparr>rnagle := RNagleNone\<rparr>))
      | RClosed last_ack _ \<Rightarrow> ((last_ack, True), st))"

definition ack_package :: "u64 \<Rightarrow> session_data" where
  "ack_package now = (flags_add SESSIONDATA_FLAG_ACK session_data_new)\<lparr>send_time := now\<rparr>"

definition reset_package :: "u64 \<Rightarrow> session_data" where
  "reset_package now = (flags_add SESSIONDATA_FLAG_RESET session_data_new)\<lparr>send_time := now\<rparr>"

text \<open>An acknowledgement is appended unless the last package is one.\<close>

definition push_ack :: "u64 \<Rightarrow> session_data list \<Rightarrow> session_data list" where
  "push_ack now packages =
     (if length packages = 0 \<or> \<not> is_flags_contain (last packages) SESSIONDATA_FLAG_ACK
      then packages @ [ack_package now] else packages)"

definition rp_on_time_escape :: "'r ringbuf \<Rightarrow> stream_config \<Rightarrow> u64 \<Rightarrow> session_data list \<Rightarrow> 'r read_state \<Rightarrow>
    (bucky_error_code option \<times> session_data list) \<times> 'r read_state" where
  "rp_on_time_escape rb config now packages st =
     (case st of
        ROpen r \<Rightarrow>
          let packages =
                (case rnagle r of
                   RNagle when \<Rightarrow>
                     if now > when \<and> from_micros (now - when) > cfg_nagle config
                     then packages @ [ack_package now] else packages
                 | RNagleNone \<Rightarrow> packages)
          in ((None, packages),
            if check_close_waiting rb r then RClosed (stream_end rb (rqueue r)) (Inr 0) else ROpen r)
      | RClosed _ _ \<Rightarrow> ((Some bucky_error_code.ErrorState, packages), st))"

definition rp_break_with_error :: "'r ringbuf \<Rightarrow> 'r read_state \<Rightarrow> nat list \<times> 'r read_state" where
  "rp_break_with_error rb st =
     (case st of
        ROpen r \<Rightarrow>
          (opt_list (map_option stub_waker (read_waiter r)) @ opt_list (readable_waiter r),
           RClosed (stream_end rb (rqueue r)) (Inl BrokenPipe))
      | RClosed _ _ \<Rightarrow> ([], st))"

definition rp_readable :: "'r ringbuf \<Rightarrow> nat \<Rightarrow> 'r read_state \<Rightarrow> ((io_error + nat) poll \<times> 'r read_state) result" where
  "rp_readable rb waker st =
     (case st of
        ROpen r \<Rightarrow> rbind (rp_impl_readable rb waker r) (\<lambda>(ret, r). Inr (ret, ROpen r))
      | RClosed _ res \<Rightarrow> Inr (Ready res, st))"

definition rp_read :: "'r ringbuf \<Rightarrow> stream_config \<Rightarrow> (nat \<Rightarrow> u64) \<Rightarrow> nat \<Rightarrow> nat \<Rightarrow> 'r read_state \<Rightarrow>
    ((io_error + nat) poll \<times> bytes \<times> u64 option) \<times> 'r read_state" where
  "rp_read rb config t waker buf_len st =
     (case st of
        ROpen r \<Rightarrow>
          (case rp_impl_read rb config t waker buf_len r of ((ret, d, timer), r) \<Rightarrow>
             ((ret, d, timer),
              if ret = Ready (Inr 0) \<and> check_close_waiting rb r
              then RClosed (stream_end rb (rqueue r)) (Inr 0) else ROpen r))
      | RClosed _ res \<Rightarrow> ((Ready res, [], None), st))"

text \<open>The timer that a pending read started.\<close>

definition rp_read_timeout :: "'r ringbuf \<Rightarrow> u64 \<Rightarrow> 'r read_state \<Rightarrow> nat option \<times> 'r read_state" where
  "rp_read_timeout rb time st =
     (case st of
        ROpen r \<Rightarrow> (case rp_check_timeout rb time r of (w, r) \<Rightarrow> (w, ROpen r))
      | RClosed _ _ \<Rightarrow> (None, st))"

definition rp_close :: "'r ringbuf \<Rightarrow> 'r read_state \<Rightarrow> 'r read_state" where
  "rp_close rb st =
     (case st of
        ROpen r \<Rightarrow> RClosed (stream_end rb (rqueue r)) (Inr 0)
      | RClosed _ _ \<Rightarrow> st)"

text \<open>What follows a package that was not refused as late: acknowledgement and wake-ups.\<close>

definition rp_pushed :: "'r ringbuf \<Rightarrow> stream_config \<Rightarrow> (nat \<Rightarrow> u64) \<Rightarrow> session_data \<Rightarrow> session_data list \<Rightarrow> nat \<Rightarrow> bool \<Rightarrow>
    'r read_impl \<Rightarrow> (session_data list \<times> nat list) \<times> 'r read_impl" where
  "rp_pushed rb config t p packages confirmed fin r =
     (let r = (if fin then r\<lparr>remote_closed := Some (t 1)\<rparr> else r);
          packages = (if (confirmed > 0 \<and> length (payload p) < mss) \<or> fin
                      then push_ack (t 1) packages else packages)
      in if confirmed > 0 \<or> fin then
           (case rp_wake config (t 2) (stream_len rb (rqueue r)) (r\<lparr>readable_waiter := None\<rparr>) of (w, r') \<Rightarrow>
              ((packages, opt_list (readable_waiter r) @ opt_list w), r'))
         else ((packages, []), r))"

definition rp_on_package :: "'r ringbuf \<Rightarrow> stream_config \<Rightarrow> (nat \<Rightarrow> u64) \<Rightarrow> session_data \<Rightarrow> session_data list \<Rightarrow>
    'r read_state \<Rightarrow> ((session_data list \<times> nat list) \<times> 'r read_state) result" where
  "rp_on_package rb config t p packages st =
     (case st of
        ROpen r \<Rightarrow>
          let r = (if (length (payload p) > 0 \<or> is_flags_contain p SESSIONDATA_FLAG_FIN) \<and> rnagle r = RNagleNone
                   then r\<lparr>rnagle := RNagle (t 0)\<rparr> else r)
          in if remote_closed r = None then
               rbind (rq_push rb p (rqueue r)) (\<lambda>((confirmed, fin), q).
                 case rp_pushed rb config t p packages confirmed fin (r\<lparr>rqueue := q\<rparr>) of (out, r) \<Rightarrow>
                   Inr (out, ROpen r))
             else Inr ((packages, []), ROpen r)
      | RClosed closed_end _ \<Rightarrow>
          if stream_pos_end p > closed_end then Inr ((packages @ [reset_package (t 0)], []), st)
          else Inr ((push_ack (t 0) packages, []), st))"

subsection \<open>What the operations keep\<close>

text \<open>
  The receiving half against the peer's stream \<open>S\<close>, cut at \<open>B\<close> and \<open>F\<close>, and the bytes the application
  has read, \<open>log\<close>; \<open>K\<close> is the size of the buffer and \<open>sh\<close> whether the application has shut down reading.
  \<open>recv_end\<close> is the position that it acknowledges, and \<open>end_ok\<close> what holds of the position where it
  takes the stream to end: all blocks before the final one are there, and all bytes if they fit.
\<close>

definition recv_end :: "'r ringbuf \<Rightarrow> 'r read_state \<Rightarrow> nat" where
  "recv_end rb st =
     (case st of ROpen r \<Rightarrow> unat (stream_end rb (rqueue r)) | RClosed last_ack _ \<Rightarrow> unat last_ack)"

definition end_ok :: "u64 \<Rightarrow> nat \<Rightarrow> bytes \<Rightarrow> bool \<Rightarrow> nat \<Rightarrow> bool" where
  "end_ok K F S c e \<longleftrightarrow> c \<and> F \<le> e \<and> (length S \<le> unat K \<longrightarrow> e = length S)"

definition recv_ok :: "'r ringbuf \<Rightarrow> ('r \<Rightarrow> bytes) \<Rightarrow> ('r \<Rightarrow> nat) \<Rightarrow> u64 \<Rightarrow> nat set \<Rightarrow> nat \<Rightarrow> bytes \<Rightarrow> bool \<Rightarrow> bool \<Rightarrow>
    bytes \<Rightarrow> 'r read_state \<Rightarrow> bool" where
  "recv_ok rb content cap K B F S c sh log st \<longleftrightarrow>
     (case st of
        ROpen r \<Rightarrow> rq_inv content cap S c (rqueue r) \<and> rq_capability (rqueue r) = K \<and> log = take (unat (rq_start (rqueue r))) S \<and>
          (if remote_closed r = None then rq_seg rb B F (rqueue r)
           else end_ok K F S c (unat (stream_end rb (rqueue r)))) \<and>
          (timeout_flag r \<longrightarrow> stream_len rb (rqueue r) > 0)
      | RClosed e res \<Rightarrow> prefix log S \<and> length log \<le> unat e \<and> unat e \<le> length S \<and>
          (\<forall>n. res = Inr n \<longrightarrow> n = 0 \<and> (sh \<or> end_ok K F S c (length log))))"

lemma fold_push_capability:
  "rq_capability (fold (\<lambda>b. push_stream rb (rbk_data b)) bs q) = rq_capability q"
  by (induction bs arbitrary: q) (simp_all add: push_stream_def)

lemma rq_push_capability: "rq_push rb p q = Inr (x, q') \<Longrightarrow> rq_capability q' = rq_capability q"
  by (auto simp: rq_push_def Let_def rbind_eq_Inr drain_def push_stream_def fold_push_capability
      split: if_splits prod.splits)

lemma recv_ok_cong:
  assumes "recv_ok rb content cap K B F S c sh log (ROpen r)" "rqueue r' = rqueue r"
    "remote_closed r' = None \<longleftrightarrow> remote_closed r = None" "timeout_flag r' \<Longrightarrow> timeout_flag r"
  shows "recv_ok rb content cap K B F S c sh log (ROpen r')" "recv_end rb (ROpen r') = recv_end rb (ROpen r)"
  using assms by (simp_all add: recv_ok_def recv_end_def)

lemma raw_out_ack_package [simp]: "raw_out H (ack_package now)" "raw_out H (reset_package now)"
  by (simp_all add: ack_package_def reset_package_def raw_out_def pkg_hist_def ids_ok_def
      sessiondata_flag_defs)

lemma push_ack_out: "\<forall>p\<in>set ps. raw_out H p \<Longrightarrow> \<forall>p\<in>set (push_ack now ps). raw_out H p"
  by (simp add: push_ack_def)

lemma rp_wake_sel:
  assumes "rp_wake config now n r = (w, r')"
  shows "rqueue r' = rqueue r" "remote_closed r' = remote_closed r"
    "timeout_flag r' \<Longrightarrow> timeout_flag r \<or> remote_closed r = None"
  using assms by (auto simp: rp_wake_def split: if_splits option.splits)

lemma rp_pushed_sel:
  assumes "rp_pushed rb config t p ps n fin r = ((ps', woken), r')"
  shows "rqueue r' = rqueue r" "remote_closed r' = None \<longleftrightarrow> remote_closed r = None \<and> \<not> fin"
    "timeout_flag r' \<Longrightarrow> timeout_flag r \<or> n > 0"
    "\<forall>p\<in>set ps. raw_out H p \<Longrightarrow> \<forall>p\<in>set ps'. raw_out H p"
  using assms
  by (auto simp: rp_pushed_def Let_def push_ack_def split: if_splits prod.splits dest: rp_wake_sel)

context ring_buffer
begin

lemma recv_ok_closed:
  assumes "recv_ok rb content cap K B F S c sh log (ROpen r)"
    "\<forall>n. res = Inr n \<longrightarrow> n = 0 \<and> (sh' \<or> check_close_waiting rb r)"
  shows "recv_ok rb content cap K B F S c sh' log (RClosed (stream_end rb (rqueue r)) res)"
    "recv_end rb (RClosed (stream_end rb (rqueue r)) res) = recv_end rb (ROpen r)"
proof -
  have inv: "rq_inv content cap S c (rqueue r)" and l: "log = take (unat (rq_start (rqueue r))) S"
    and e: "remote_closed r \<noteq> None \<longrightarrow> end_ok K F S c (unat (stream_end rb (rqueue r)))"
    using assms(1) by (auto simp: recv_ok_def)
  have "end_ok K F S c (length log)" if "check_close_waiting rb r"
    using that stream_end_unat [OF inv] rq_invD(6) [OF inv] l e
    by (simp add: check_close_waiting_def stream_len_def len_content)
  then show "recv_ok rb content cap K B F S c sh' log (RClosed (stream_end rb (rqueue r)) res)"
    using stream_end_unat [OF inv] rq_invD(6) [OF inv] l assms(2) by (auto simp: recv_ok_def take_is_prefix)
qed (simp add: recv_end_def)

lemma touch_ack_ok:
  assumes "recv_ok rb content cap K B F S c sh log st" "touch_ack rb st = ((ack, fin), st')"
  shows "recv_ok rb content cap K B F S c sh log st'" "recv_end rb st' = recv_end rb st" "unat ack = recv_end rb st"
  using assms by (auto simp: touch_ack_def recv_ok_def recv_end_def split: read_state.splits)

lemma rp_on_time_escape_ok:
  assumes "recv_ok rb content cap K B F S c sh log st" "rp_on_time_escape rb config now ps st = ((ret, ps'), st')"
  shows "recv_ok rb content cap K B F S c sh log st'" "recv_end rb st' = recv_end rb st"
    "\<forall>p\<in>set ps. raw_out H p \<Longrightarrow> \<forall>p\<in>set ps'. raw_out H p"
  using assms recv_ok_closed [where res = "Inr 0" and sh' = sh]
  by (auto simp: rp_on_time_escape_def Let_def split: read_state.splits read_nagle.splits if_splits)

lemma rp_break_with_error_ok:
  assumes "recv_ok rb content cap K B F S c sh log st" "rp_break_with_error rb st = (woken, st')"
  shows "recv_ok rb content cap K B F S c sh log st'" "recv_end rb st' = recv_end rb st"
  using assms recv_ok_closed [where res = "Inl BrokenPipe" and sh' = sh]
  by (auto simp: rp_break_with_error_def split: read_state.splits)

lemma rp_close_ok:
  assumes "recv_ok rb content cap K B F S c sh log st"
  shows "recv_ok rb content cap K B F S c True log (rp_close rb st)" "recv_end rb (rp_close rb st) = recv_end rb st"
proof -
  show "recv_ok rb content cap K B F S c True log (rp_close rb st)"
  proof (cases st)
    case (ROpen r)
    then show ?thesis
      using recv_ok_closed(1) [OF assms [unfolded ROpen], of "Inr 0" True] by (simp add: rp_close_def)
  next
    case (RClosed e res)
    then show ?thesis
      using assms by (simp add: rp_close_def recv_ok_def)
  qed
  show "recv_end rb (rp_close rb st) = recv_end rb st"
    by (simp add: rp_close_def recv_end_def split: read_state.splits)
qed

lemma rp_read_timeout_ok:
  assumes "recv_ok rb content cap K B F S c sh log st" "rp_read_timeout rb time st = (woken, st')"
  shows "recv_ok rb content cap K B F S c sh log st'" "recv_end rb st' = recv_end rb st"
  using assms
  by (auto simp: rp_read_timeout_def rp_check_timeout_def recv_ok_def recv_end_def
      split: read_state.splits prod.splits if_splits option.splits)

lemma rp_readable_ok:
  assumes "recv_ok rb content cap K B F S c sh log st" "rp_readable rb waker st = Inr (ret, st')"
  shows "recv_ok rb content cap K B F S c sh log st'" "recv_end rb st' = recv_end rb st"
  using assms
  by (auto simp: rp_readable_def rp_impl_readable_def recv_ok_def recv_end_def rbind_eq_Inr
      split: read_state.splits prod.splits if_splits)

lemma read_queue_ok:
  assumes inv: "rq_inv content cap S c q" and eq: "read_stream rb n q = (d, q')"
  shows "take (unat (rq_start q)) S @ d = take (unat (rq_start q')) S" "stream_end rb q' = stream_end rb q"
    "rq_inv content cap S c q'" "rq_blocks q' = rq_blocks q" "rq_capability q' = rq_capability q"
proof -
  obtain d1 q1 where "read_stream rb n q = (d1, q1)" "d1 = take n (content (rq_stream q))"
    "slice_ok S (unat (rq_start q)) d1" "unat (rq_start q1) = unat (rq_start q) + length d1"
    "content (rq_stream q1) = drop n (content (rq_stream q))" "rq_inv content cap S c q1" "rq_blocks q1 = rq_blocks q"
    using read_stream_ok [OF inv, of n] by blast
  moreover from this(1) have "d1 = d" "q1 = q'"
    using eq by simp_all
  ultimately have rs: "d = take n (content (rq_stream q))" "slice_ok S (unat (rq_start q)) d"
    "unat (rq_start q') = unat (rq_start q) + length d"
    "content (rq_stream q') = drop n (content (rq_stream q))" "rq_inv content cap S c q'" "rq_blocks q' = rq_blocks q"
    by (simp_all only:)
  have "d = take (length d) (drop (unat (rq_start q)) S)"
    using rs(2) unfolding slice_ok_def by blast
  then show "take (unat (rq_start q)) S @ d = take (unat (rq_start q')) S"
    unfolding rs(3) take_add by (rule arg_cong)
  have "length d + length (drop n (content (rq_stream q))) = length (content (rq_stream q))"
    unfolding rs(1) by simp
  then have "unat (stream_end rb q') = unat (stream_end rb q)"
    unfolding stream_end_unat [OF rs(5)] stream_end_unat [OF inv] rs(3,4) by linarith
  then show "stream_end rb q' = stream_end rb q"
    by (rule word_unat_eq_iff [THEN iffD2])
  show "rq_inv content cap S c q'" "rq_blocks q' = rq_blocks q"
    by (rule rs(5), rule rs(6))
  show "rq_capability q' = rq_capability q"
    using eq by (auto simp: read_stream_def split: prod.splits)
qed

lemma rp_read_ok:
  assumes ok: "recv_ok rb content cap K B F S c sh log st"
    and eq: "rp_read rb config t waker n st = ((ret, d, timer), st')"
  shows "recv_ok rb content cap K B F S c sh (log @ d) st' \<and> recv_end rb st' = recv_end rb st"
proof (cases st)
  case (RClosed e res)
  then show ?thesis using assms by (auto simp: rp_read_def)
next
  case (ROpen r)
  have inv: "rq_inv content cap S c (rqueue r)" and l: "log = take (unat (rq_start (rqueue r))) S"
    and K: "rq_capability (rqueue r) = K" and seg: "if remote_closed r = None then rq_seg rb B F (rqueue r)
      else end_ok K F S c (unat (stream_end rb (rqueue r)))"
    using ok by (simp_all add: recv_ok_def ROpen)
  obtain ret1 d1 timer1 r' where impl: "rp_impl_read rb config t waker n r = ((ret1, d1, timer1), r')"
    by (metis prod.exhaust)
  have "ret1 = ret \<and> d1 = d" and st': "st' = (if ret1 = Ready (Inr 0) \<and> check_close_waiting rb r'
      then RClosed (stream_end rb (rqueue r')) (Inr 0) else ROpen r')"
    using eq impl by (auto simp: rp_read_def ROpen)
  obtain d0 q0 where rd: "read_stream rb n (rqueue r) = (d0, q0)"
    by (metis prod.exhaust)
  have "(rqueue r' = rqueue r \<and> d1 = [] \<and> timeout_flag r' = timeout_flag r \<or>
      rqueue r' = q0 \<and> d1 = d0 \<and> \<not> timeout_flag r') \<and> remote_closed r' = remote_closed r"
    using impl rd by (auto simp: rp_impl_read_def Let_def split: if_splits)
  then consider (kept) "rqueue r' = rqueue r" "d = []" "timeout_flag r' = timeout_flag r"
      "remote_closed r' = remote_closed r"
    | (read) q' where "read_stream rb n (rqueue r) = (d, q')" "rqueue r' = q'" "remote_closed r' = remote_closed r"
      "\<not> timeout_flag r'"
    using rd \<open>ret1 = ret \<and> d1 = d\<close> by blast
  then have "recv_ok rb content cap K B F S c sh (log @ d) (ROpen r') \<and> recv_end rb (ROpen r') = recv_end rb (ROpen r)"
  proof cases
    case kept
    then show ?thesis
      using recv_ok_cong [OF ok [unfolded ROpen] kept(1)] by simp
  next
    case read
    note q = read_queue_ok [OF inv read(1)]
    show ?thesis
      unfolding recv_ok_def recv_end_def read_state.case read(2,3) q(2) l q(1)
      using q(2-5) seg K read(4) by (auto simp: rq_seg_def split: if_splits)
  qed
  then show ?thesis
    using recv_ok_closed [of K B F S c sh "log @ d" r' "Inr 0" sh] st' ROpen by simp
qed

text \<open>A package with data is a part of the stream, cut like all others; one without changes nothing.\<close>

lemma rp_on_package_ok:
  assumes ok: "recv_ok rb content cap K B F S c sh log st"
    and p: "payload p = [] \<and> \<not> is_flags_contain p SESSIONDATA_FLAG_FIN \<or> package_ok S c p \<and> package_seg B F p"
  shows "\<exists>ps' woken st'. rp_on_package rb config t p ps st = Inr ((ps', woken), st') \<and>
    recv_ok rb content cap K B F S c sh log st' \<and> recv_end rb st \<le> recv_end rb st' \<and>
    ((\<forall>p\<in>set ps. raw_out H p) \<longrightarrow> (\<forall>p\<in>set ps'. raw_out H p))"
proof (cases st)
  case (RClosed e res)
  then show ?thesis
    using ok push_ack_out by (simp add: rp_on_package_def)
next
  case (ROpen r0)
  define r where "r = (if (length (payload p) > 0 \<or> is_flags_contain p SESSIONDATA_FLAG_FIN) \<and> rnagle r0 = RNagleNone
    then r0\<lparr>rnagle := RNagle (t 0)\<rparr> else r0)"
  have same: "rqueue r = rqueue r0" "remote_closed r = remote_closed r0" "timeout_flag r = timeout_flag r0"
    by (simp_all add: r_def)
  then have ok': "recv_ok rb content cap K B F S c sh log (ROpen r)" and e': "recv_end rb (ROpen r) = recv_end rb st"
    using recv_ok_cong [OF ok [unfolded ROpen], of r] ROpen by simp_all
  have eq: "rp_on_package rb config t p ps st = (if remote_closed r = None then
       rbind (rq_push rb p (rqueue r)) (\<lambda>((confirmed, fin), q).
         case rp_pushed rb config t p ps confirmed fin (r\<lparr>rqueue := q\<rparr>) of (out, r) \<Rightarrow> Inr (out, ROpen r))
     else Inr ((ps, []), ROpen r))"
    by (simp add: rp_on_package_def ROpen r_def Let_def)
  show ?thesis
  proof (cases "remote_closed r")
    case (Some x)
    then show ?thesis
      using eq ok' e' by simp
  next
    case None
    have inv: "rq_inv content cap S c (rqueue r)" and l: "log = take (unat (rq_start (rqueue r))) S"
      and K: "rq_capability (rqueue r) = K" and seg: "rq_seg rb B F (rqueue r)"
      using ok' None by (simp_all add: recv_ok_def)
    have wait: "timeout_flag r \<Longrightarrow> stream_len rb (rqueue r) > 0"
      using ok' by (simp add: recv_ok_def)
    have "\<exists>n fin q. rq_push rb p (rqueue r) = Inr ((n, fin), q) \<and> rq_inv content cap S c q \<and>
      rq_start q = rq_start (rqueue r) \<and> unat (stream_end rb q) = unat (stream_end rb (rqueue r)) + n \<and>
      (if fin then end_ok K F S c (unat (stream_end rb q)) else rq_seg rb B F q)"
      using p
    proof
      assume "payload p = [] \<and> \<not> is_flags_contain p SESSIONDATA_FLAG_FIN"
      then show ?thesis
        using inv seg by (auto simp: rq_push_def Let_def)
    next
      assume p: "package_ok S c p \<and> package_seg B F p"
      obtain n fin q where q: "rq_push rb p (rqueue r) = Inr ((n, fin), q)" "\<not> fin \<longrightarrow> rq_seg rb B F q"
        using rq_push_seg [OF inv _ seg, of p] p by blast
      then have "rq_inv content cap S c q" "rq_start q = rq_start (rqueue r)"
        "unat (stream_end rb q) = unat (stream_end rb (rqueue r)) + n"
        "fin \<longrightarrow> c \<and> (length S \<le> unat (rq_start (rqueue r)) + cap (rq_stream (rqueue r)) \<longrightarrow>
          unat (stream_end rb q) = length S)"
        using rq_push_ok [OF inv, of p] p by auto
      moreover from this(4) have "fin \<longrightarrow> end_ok K F S c (unat (stream_end rb q))"
        using rq_push_fin [OF inv _ seg, of p n q] p q(1) rq_invD(1) [OF inv] K by (auto simp: end_ok_def)
      ultimately show ?thesis
        using q by auto
    qed
    then obtain n fin q where q: "rq_push rb p (rqueue r) = Inr ((n, fin), q)" "rq_inv content cap S c q"
      "rq_start q = rq_start (rqueue r)" "unat (stream_end rb q) = unat (stream_end rb (rqueue r)) + n"
      "if fin then end_ok K F S c (unat (stream_end rb q)) else rq_seg rb B F q"
      by blast
    obtain ps' woken r' where r': "rp_pushed rb config t p ps n fin (r\<lparr>rqueue := q\<rparr>) = ((ps', woken), r')"
      by (metis prod.exhaust)
    have "stream_len rb q = stream_len rb (rqueue r) + n"
      using q(3,4) stream_end_unat [OF q(2)] stream_end_unat [OF inv] by (simp add: stream_len_def len_content)
    then have "timeout_flag r' \<Longrightarrow> stream_len rb q > 0"
      using rp_pushed_sel(3) [OF r'] wait by auto
    then have "recv_ok rb content cap K B F S c sh log (ROpen r')"
      using rp_pushed_sel(1,2) [OF r'] q(2,3,5) l K None rq_push_capability [OF q(1)]
      by (simp add: recv_ok_def split: if_splits)
    moreover have "recv_end rb st \<le> recv_end rb (ROpen r')"
      using e' q(4) rp_pushed_sel(1) [OF r'] by (simp add: recv_end_def)
    ultimately show ?thesis
      using eq None q(1) r' rp_pushed_sel(4) [OF r'] by simp
  qed
qed

end

end
