(* ===== verification/PackageStream.thy ===== *)
theory PackageStream
  imports ReadProvider
begin

text \<open>
  A package stream, from \<^verbatim>\<open>component/cyfs-bdt/src/stream/package/stream.rs\<close>: the sending and the receiving half
  together, the packages they hand to the tunnel, and two such streams connected by a network that
  may lose, repeat, delay and reorder packages. The tunnel is a function \<open>sent\<close> that gives the number
  of bytes it sent, or nothing when it fails. The stream creates its pacer disabled, so that no
  package is delayed and the queue of delayed packages stays empty; both are left out.
\<close>

subsection \<open>Sending\<close>

record ('c, 'r) package_stream =
  ps_remote_id :: increase_id
  ps_write :: "'c write_state"
  ps_read :: "'r read_state"

definition package_stream_new :: "'r ringbuf \<Rightarrow> stream_config \<Rightarrow> (nat \<Rightarrow> u64) \<Rightarrow> u32 \<Rightarrow> 'c \<Rightarrow> increase_id \<Rightarrow>
    ('c, 'r) package_stream" where
  "package_stream_new rb config t first_id impl remote_id =
     \<lparr>ps_remote_id = remote_id, ps_write = wp_new first_id impl (t 0) config,
      ps_read = rp_new rb (t 1) config\<rparr>"

text \<open>The acknowledgement is read once and written to every package that carries one.\<close>

fun fill_acks :: "'r ringbuf \<Rightarrow> increase_id \<Rightarrow> (u64 \<times> bool) option \<Rightarrow> session_data list \<Rightarrow> 'r read_state \<Rightarrow>
    session_data list \<times> 'r read_state" where
  "fill_acks rb remote_id ack [] st = ([], st)"
| "fill_acks rb remote_id ack (p # ps) st =
     (let p = p\<lparr>session_id := remote_id\<rparr> in
      if is_flags_contain p SESSIONDATA_FLAG_ACK then
        (case (case ack of None \<Rightarrow> touch_ack rb st | Some a \<Rightarrow> (a, st)) of ((pos, fin), st) \<Rightarrow>
           let p = p\<lparr>ack_stream_pos := pos\<rparr>;
               p = (if fin then flags_add SESSIONDATA_FLAG_FINACK p else p)
           in case fill_acks rb remote_id (Some (pos, fin)) ps st of (ps, st) \<Rightarrow> (p # ps, st))
      else (case fill_acks rb remote_id ack ps st of (ps, st) \<Rightarrow> (p # ps, st)))"

definition counts_as_data :: "session_data \<Rightarrow> bool" where
  "counts_as_data p \<longleftrightarrow> \<not> is_ctrl_package p \<or> \<not> is_flags_contain p SESSIONDATA_FLAG_ACK"

definition sent_bytes :: "(session_data \<Rightarrow> nat option) \<Rightarrow> session_data list \<Rightarrow> nat" where
  "sent_bytes sent ps = (\<Sum>p\<leftarrow>ps. case sent p of Some n \<Rightarrow> n | None \<Rightarrow> 0)"

definition last_packet_number :: "session_data list \<Rightarrow> u64" where
  "last_packet_number ps =
     (let ds = filter counts_as_data ps in if ds = [] then 0 else send_time (last ds))"

definition send_packages :: "'c cc_impl \<Rightarrow> 'r ringbuf \<Rightarrow> (nat \<Rightarrow> u64) \<Rightarrow> (session_data \<Rightarrow> nat option) \<Rightarrow>
    session_data list \<Rightarrow> ('c, 'r) package_stream \<Rightarrow> session_data list \<times> ('c, 'r) package_stream" where
  "send_packages I rb t sent packages s =
     (if length packages = 0 then ([], s)
      else case fill_acks rb (ps_remote_id s) None packages (ps_read s) of (packages, r) \<Rightarrow>
        let n = sent_bytes sent packages;
            w = (if n > 0 then wp_on_sent I t (word_of_nat n) (last_packet_number packages) (ps_write s)
                 else ps_write s)
        in (packages, s\<lparr>ps_write := w, ps_read := r\<rparr>))"

subsection \<open>Operations\<close>

definition later :: "nat \<Rightarrow> (nat \<Rightarrow> u64) \<Rightarrow> nat \<Rightarrow> u64" where
  "later k t i = t (i + k)"

definition ps_poll_write :: "'c cc_impl \<Rightarrow> 'r ringbuf \<Rightarrow> (nat \<Rightarrow> u64) \<Rightarrow> (session_data \<Rightarrow> nat option) \<Rightarrow> nat \<Rightarrow> bytes \<Rightarrow>
    ('c, 'r) package_stream \<Rightarrow> (((io_error + nat) poll \<times> session_data list) \<times> ('c, 'r) package_stream) result" where
  "ps_poll_write I rb t sent waker buf s =
     rbind (wp_write I t waker buf (ps_write s)) (\<lambda>((ret, packages), w).
       case send_packages I rb (later 3 t) sent packages (s\<lparr>ps_write := w\<rparr>) of (out, s) \<Rightarrow>
         Inr ((ret, out), s))"

definition ps_poll_flush :: "nat \<Rightarrow> ('c, 'r) package_stream \<Rightarrow>
    ((io_error + unit) poll \<times> ('c, 'r) package_stream) result" where
  "ps_poll_flush waker s =
     rbind (wp_flush waker (ps_write s)) (\<lambda>(ret, w). Inr (ret, s\<lparr>ps_write := w\<rparr>))"

definition ps_close :: "'c cc_impl \<Rightarrow> 'r ringbuf \<Rightarrow> (nat \<Rightarrow> u64) \<Rightarrow> (session_data \<Rightarrow> nat option) \<Rightarrow> nat option \<Rightarrow>
    ('c, 'r) package_stream \<Rightarrow> (((io_error + unit) poll \<times> session_data list) \<times> ('c, 'r) package_stream) result" where
  "ps_close I rb t sent waker s =
     rbind (wp_close I t waker (ps_write s)) (\<lambda>((ret, packages), w).
       case send_packages I rb (later 1 t) sent packages (s\<lparr>ps_write := w\<rparr>) of (out, s) \<Rightarrow>
         Inr ((ret, out), s))"

definition ps_poll_close :: "'c cc_impl \<Rightarrow> 'r ringbuf \<Rightarrow> (nat \<Rightarrow> u64) \<Rightarrow> (session_data \<Rightarrow> nat option) \<Rightarrow> nat \<Rightarrow>
    ('c, 'r) package_stream \<Rightarrow> (((io_error + unit) poll \<times> session_data list) \<times> ('c, 'r) package_stream) result" where
  "ps_poll_close I rb t sent waker s = ps_close I rb t sent (Some waker) s"

datatype shutdown = ShutdownRead | ShutdownWrite | ShutdownBoth

definition ps_shutdown :: "'c cc_impl \<Rightarrow> 'r ringbuf \<Rightarrow> (nat \<Rightarrow> u64) \<Rightarrow> (session_data \<Rightarrow> nat option) \<Rightarrow> shutdown \<Rightarrow>
    ('c, 'r) package_stream \<Rightarrow> (session_data list \<times> ('c, 'r) package_stream) result" where
  "ps_shutdown I rb t sent which s =
     (case which of
        ShutdownWrite \<Rightarrow> rbind (ps_close I rb t sent None s) (\<lambda>((_, out), s). Inr (out, s))
      | ShutdownRead \<Rightarrow> Inr ([], s\<lparr>ps_read := rp_close rb (ps_read s)\<rparr>)
      | ShutdownBoth \<Rightarrow> rbind (ps_close I rb t sent None s) (\<lambda>((_, out), s).
          Inr (out, s\<lparr>ps_read := rp_close rb (ps_read s)\<rparr>)))"

definition ps_poll_readable :: "'r ringbuf \<Rightarrow> nat \<Rightarrow> ('c, 'r) package_stream \<Rightarrow>
    ((io_error + nat) poll \<times> ('c, 'r) package_stream) result" where
  "ps_poll_readable rb waker s =
     rbind (rp_readable rb waker (ps_read s)) (\<lambda>(ret, r). Inr (ret, s\<lparr>ps_read := r\<rparr>))"

definition ps_poll_read :: "'r ringbuf \<Rightarrow> stream_config \<Rightarrow> (nat \<Rightarrow> u64) \<Rightarrow> nat \<Rightarrow> nat \<Rightarrow> ('c, 'r) package_stream \<Rightarrow>
    ((io_error + nat) poll \<times> bytes \<times> u64 option) \<times> ('c, 'r) package_stream" where
  "ps_poll_read rb config t waker buf_len s =
     (case rp_read rb config t waker buf_len (ps_read s) of (ret, r) \<Rightarrow> (ret, s\<lparr>ps_read := r\<rparr>))"

text \<open>One round of the timer loop of \<open>start\<close>; it stops when the stream is broken or shut down.\<close>

datatype tick_result = Running | Broken bucky_error_code | ShutDown

definition ps_tick :: "'c cc_impl \<Rightarrow> 'r ringbuf \<Rightarrow> stream_config \<Rightarrow> (nat \<Rightarrow> u64) \<Rightarrow> (session_data \<Rightarrow> nat option) \<Rightarrow>
    ('c, 'r) package_stream \<Rightarrow> ((tick_result \<times> nat list \<times> session_data list) \<times> ('c, 'r) package_stream) result" where
  "ps_tick I rb config t sent s =
     rbind (wp_on_time_escape I config (t 0) [] (ps_write s)) (\<lambda>((write_result, packages, woken), w).
       case write_result of
         Inl e \<Rightarrow>
           (case rp_break_with_error rb (ps_read s) of (woken', r) \<Rightarrow>
              Inr ((Broken e, woken @ woken', []), s\<lparr>ps_write := w, ps_read := r\<rparr>))
       | Inr write_err \<Rightarrow>
           (case rp_on_time_escape rb config (t 0) packages (ps_read s) of ((read_err, packages), r) \<Rightarrow>
              let s = s\<lparr>ps_write := w, ps_read := r\<rparr> in
              if write_err \<noteq> None \<and> read_err \<noteq> None then Inr ((ShutDown, woken, []), s)
              else case send_packages I rb (later 1 t) sent packages s of (out, s) \<Rightarrow>
                Inr ((Running, woken, out), s)))"

definition ps_on_package :: "'c cc_impl \<Rightarrow> 'r ringbuf \<Rightarrow> stream_config \<Rightarrow> (nat \<Rightarrow> u64) \<Rightarrow> (session_data \<Rightarrow> nat option) \<Rightarrow>
    session_data \<Rightarrow> ('c, 'r) package_stream \<Rightarrow>
    ((on_package_result \<times> nat list \<times> session_data list) \<times> ('c, 'r) package_stream) result" where
  "ps_on_package I rb config t sent p s =
     rbind
       (if is_syn_ack p then Inr ((Handled, [], [session_data_new]), s)
        else
          rbind (if is_reset p then
                   (case wp_reset (ps_write s) of (woken, w) \<Rightarrow> Inr ((Continue, [], woken), w))
                 else wp_on_package I config t p [] (ps_write s)) (\<lambda>((r, packages, woken), w).
            let s = s\<lparr>ps_write := w\<rparr> in
            case r of
              Continue \<Rightarrow>
                rbind (rp_on_package rb config (later 3 t) p packages (ps_read s)) (\<lambda>((packages, woken'), r).
                  Inr ((Handled, woken @ woken', packages), s\<lparr>ps_read := r\<rparr>))
            | Handled \<Rightarrow> Inr ((Handled, woken, packages), s)
            | Break \<Rightarrow> Inl Panic))
       (\<lambda>((ret, woken, packages), s).
         case send_packages I rb (later 6 t) sent packages s of (out, s) \<Rightarrow>
           Inr ((ret, woken, out), s))"

subsection \<open>Two connected streams\<close>

text \<open>
  One side of a connection: its stream, the packages it has ever sent, the bytes its application has
  written and read, and whether that has closed its writing half and shut down its reading half. An application does not write after
  it has closed, and writes fewer than \<open>2 ^ 64\<close> bytes less the size of the receive buffer.
\<close>

record ('c, 'r) side =
  sd_ps :: "('c, 'r) package_stream"
  sd_out :: "session_data list"
  sd_written :: bytes
  sd_read :: bytes
  sd_closed :: bool
  sd_shut :: bool

definition side_send :: "('c, 'r) package_stream \<Rightarrow> session_data list \<Rightarrow> ('c, 'r) side \<Rightarrow> ('c, 'r) side" where
  "side_send s out x = x\<lparr>sd_ps := s, sd_out := sd_out x @ out\<rparr>"

inductive side_step :: "'c cc_impl \<Rightarrow> 'r ringbuf \<Rightarrow> stream_config \<Rightarrow> session_data list \<Rightarrow>
    ('c, 'r) side \<Rightarrow> ('c, 'r) side \<Rightarrow> bool"
  for I rb config net where
  app_write: "\<not> sd_closed x \<Longrightarrow> length (sd_written x) + length buf + cfg_recv_buffer config < 2 ^ 64 \<Longrightarrow>
    ps_poll_write I rb t sent waker buf (sd_ps x) = Inr ((ret, out), s) \<Longrightarrow>
    side_step I rb config net x
      ((side_send s out x)\<lparr>sd_written := sd_written x @ take (accepted ret) buf\<rparr>)"
| app_flush: "ps_poll_flush waker (sd_ps x) = Inr (fret, s) \<Longrightarrow>
    side_step I rb config net x (x\<lparr>sd_ps := s\<rparr>)"
| app_close: "ps_poll_close I rb t sent waker (sd_ps x) = Inr ((cret, out), s) \<Longrightarrow>
    side_step I rb config net x ((side_send s out x)\<lparr>sd_closed := True\<rparr>)"
| app_shutdown: "ps_shutdown I rb t sent which (sd_ps x) = Inr (out, s) \<Longrightarrow>
    side_step I rb config net x
      ((side_send s out x)\<lparr>sd_closed := (sd_closed x \<or> which \<noteq> ShutdownRead),
        sd_shut := (sd_shut x \<or> which \<noteq> ShutdownWrite)\<rparr>)"
| app_readable: "ps_poll_readable rb waker (sd_ps x) = Inr (ret, s) \<Longrightarrow>
    side_step I rb config net x (x\<lparr>sd_ps := s\<rparr>)"
| app_read: "ps_poll_read rb config t waker n (sd_ps x) = ((ret, d, timer), s) \<Longrightarrow>
    side_step I rb config net x (x\<lparr>sd_ps := s, sd_read := sd_read x @ d\<rparr>)"
| read_timer: "rp_read_timeout rb time (ps_read (sd_ps x)) = (woken, r) \<Longrightarrow>
    side_step I rb config net x (x\<lparr>sd_ps := (sd_ps x)\<lparr>ps_read := r\<rparr>\<rparr>)"
| timer: "ps_tick I rb config t sent (sd_ps x) = Inr ((tret, wakers, out), s) \<Longrightarrow>
    side_step I rb config net x (side_send s out x)"
| deliver: "p \<in> set net \<Longrightarrow> ps_on_package I rb config t sent p (sd_ps x) = Inr ((pret, wakers, out), s) \<Longrightarrow>
    side_step I rb config net x (side_send s out x)"

type_synonym ('c, 'r) conn = "('c, 'r) side \<times> ('c, 'r) side"

inductive conn_step :: "'c cc_impl \<Rightarrow> 'r ringbuf \<Rightarrow> stream_config \<Rightarrow> ('c, 'r) conn \<Rightarrow> ('c, 'r) conn \<Rightarrow> bool"
  for I rb config where
  left: "side_step I rb config (sd_out y) x x' \<Longrightarrow> conn_step I rb config (x, y) (x', y)"
| right: "side_step I rb config (sd_out x) y y' \<Longrightarrow> conn_step I rb config (x, y) (x, y')"

definition side_new :: "('c, 'r) package_stream \<Rightarrow> ('c, 'r) side" where
  "side_new s = \<lparr>sd_ps = s, sd_out = [], sd_written = [], sd_read = [], sd_closed = False, sd_shut = False\<rparr>"

inductive conn_reach :: "'c cc_impl \<Rightarrow> 'r ringbuf \<Rightarrow> stream_config \<Rightarrow> ('c, 'r) conn \<Rightarrow> bool"
  for I rb config where
  init: "conn_reach I rb config
    (side_new (package_stream_new rb config t first_id impl remote_id),
     side_new (package_stream_new rb config t' first_id' impl' remote_id'))"
| step: "conn_reach I rb config c \<Longrightarrow> conn_step I rb config c c' \<Longrightarrow> conn_reach I rb config c'"

text \<open>
  A schedule of a connection, to run it on concrete inputs: each entry names the side that acts, the
  time at which it does, and what it does. \<open>ADeliver i\<close> delivers the \<open>i\<close>-th package the other side sent.
\<close>

datatype action = AWrite bytes | AClose | ARead nat | ATick | ADeliver nat

definition side_exec :: "'c cc_impl \<Rightarrow> 'r ringbuf \<Rightarrow> stream_config \<Rightarrow> session_data list \<Rightarrow> u64 \<Rightarrow> action \<Rightarrow>
    ('c, 'r) side \<Rightarrow> ('c, 'r) side option" where
  "side_exec I rb config net now a x =
     (let t = (\<lambda>_. now); sent = (\<lambda>p. Some (length (payload p))) in
      case a of
        AWrite buf \<Rightarrow>
          if \<not> sd_closed x \<and> length (sd_written x) + length buf + cfg_recv_buffer config < 2 ^ 64 then
            (case ps_poll_write I rb t sent 0 buf (sd_ps x) of
               Inr ((ret, out), s) \<Rightarrow>
                 Some ((side_send s out x)\<lparr>sd_written := sd_written x @ take (accepted ret) buf\<rparr>)
             | Inl _ \<Rightarrow> None)
          else None
      | AClose \<Rightarrow>
          (case ps_poll_close I rb t sent 0 (sd_ps x) of
             Inr ((ret, out), s) \<Rightarrow> Some ((side_send s out x)\<lparr>sd_closed := True\<rparr>)
           | Inl _ \<Rightarrow> None)
      | ARead n \<Rightarrow>
          (case ps_poll_read rb config t 0 n (sd_ps x) of
             ((ret, d, tm), s) \<Rightarrow> Some (x\<lparr>sd_ps := s, sd_read := sd_read x @ d\<rparr>))
      | ATick \<Rightarrow>
          (case ps_tick I rb config t sent (sd_ps x) of
             Inr ((ret, woken, out), s) \<Rightarrow> Some (side_send s out x)
           | Inl _ \<Rightarrow> None)
      | ADeliver i \<Rightarrow>
          if i < length net then
            (case ps_on_package I rb config t sent (net ! i) (sd_ps x) of
               Inr ((ret, woken, out), s) \<Rightarrow> Some (side_send s out x)
             | Inl _ \<Rightarrow> None)
          else None)"

datatype end_point = LeftEnd | RightEnd

fun conn_exec :: "'c cc_impl \<Rightarrow> 'r ringbuf \<Rightarrow> stream_config \<Rightarrow> (end_point \<times> u64 \<times> action) list \<Rightarrow>
    ('c, 'r) conn \<Rightarrow> ('c, 'r) conn option" where
  "conn_exec I rb config [] c = Some c"
| "conn_exec I rb config ((LeftEnd, now, a) # as) (x, y) =
     Option.bind (side_exec I rb config (sd_out y) now a x) (\<lambda>x. conn_exec I rb config as (x, y))"
| "conn_exec I rb config ((RightEnd, now, a) # as) (x, y) =
     Option.bind (side_exec I rb config (sd_out x) now a y) (\<lambda>y. conn_exec I rb config as (x, y))"

text \<open>A connection over a window of fixed size, with a receive buffer of two bytes.\<close>

definition fixed_cc :: "unit cc_impl" where
  "fixed_cc =
     \<lparr>cci_on_sent = \<lambda>_ _ _ c. c, cci_rate = \<lambda>_. 1000000, cci_cwnd = \<lambda>_. 65536,
      cci_on_estimate = \<lambda>_ _ _ _ c. c, cci_on_ack = \<lambda>_ _ _ _ _ c. c, cci_on_loss = \<lambda>_ c. c,
      cci_on_no_resp = \<lambda>rto _ c. (rto, c), cci_on_time_escape = \<lambda>_ c. c\<rparr>"

definition demo_config :: "nat \<Rightarrow> stream_config" where
  "demo_config buffer =
     \<lparr>cfg_nagle = 1000, cfg_recv_timeout = 1000, cfg_recv_buffer = buffer, cfg_send_buffer = 5000,
      recv_drain = 1000, send_drain = 1000, break_overtime = 1000000,
      cfg_cc = \<lparr>init_rto = 1000, min_rto = 1000\<rparr>\<rparr>"

definition demo_conn :: "nat \<Rightarrow> (unit, nat \<times> bytes) conn" where
  "demo_conn buffer =
     (let new = side_new (package_stream_new list_ring (demo_config buffer) (\<lambda>_. 0) 1 () (IncreaseId 1)) in (new, new))"

definition demo_run :: "nat \<Rightarrow> (end_point \<times> u64 \<times> action) list \<Rightarrow> (unit, nat \<times> bytes) conn option" where
  "demo_run buffer as = conn_exec fixed_cc list_ring (demo_config buffer) as (demo_conn buffer)"

subsection \<open>The cuts of a history\<close>

definition seg_B :: "send_block list \<Rightarrow> nat set" where
  "seg_B H = insert 0 ((\<lambda>b. unat (sb_start b) + sb_len b) ` set H)"

definition seg_F :: "send_block list \<Rightarrow> nat" where
  "seg_F H = (if ended H then unat (sb_start (last H)) else length (blocks_data H))"

lemma chained_bounds:
  assumes "chained p H" "b \<in> set H"
  shows "p \<le> unat (sb_start b)" "unat (sb_start b) + sb_len b \<le> p + length (blocks_data H)"
  using assms by (induction H arbitrary: p) (fastforce simp: sb_len_def)+

lemma chained_start:
  "chained p (us @ b # vs) \<Longrightarrow> unat (sb_start b) = p + length (blocks_data us)"
  by simp

lemma hist_seg:
  assumes hist: "hist_ok S c H" and b: "b \<in> set H"
  shows "seg_ok (seg_B H) (seg_F H) (unat (sb_start b)) (sb_len b) (sb_fin b)"
proof -
  obtain us vs where H: "H = us @ b # vs"
    using b by (meson split_list)
  have ch: "chained 0 us" "chained (unat (sb_start b) + sb_len b) vs"
    and start: "unat (sb_start b) = length (blocks_data us)"
    using hist H by (auto simp: hist_ok_def sb_len_def)
  have "unat (sb_start b) \<in> seg_B H"
  proof (cases us rule: rev_cases)
    case Nil
    then show ?thesis using start by (simp add: seg_B_def)
  next
    case (snoc us' a)
    then have "unat (sb_start a) + sb_len a = unat (sb_start b)"
      using ch(1) start by (simp add: sb_len_def)
    then show ?thesis
      unfolding seg_B_def H snoc by force
  qed
  moreover have "unat (sb_start b) + sb_len b \<in> seg_B H"
    using b by (simp add: seg_B_def)
  moreover have "\<not> (unat (sb_start b) < x \<and> x < unat (sb_start b) + sb_len b)" if x: "x \<in> seg_B H" for x
  proof -
    from x consider "x = 0" | a where "a \<in> set us" "x = unat (sb_start a) + sb_len a"
      | "x = unat (sb_start b) + sb_len b" | a where "a \<in> set vs" "x = unat (sb_start a) + sb_len a"
      by (auto simp: seg_B_def H)
    then show ?thesis
    proof cases
      case 2
      then show ?thesis using chained_bounds(2) [OF ch(1)] start by fastforce
    next
      case 4
      then show ?thesis using chained_bounds(1) [OF ch(2)] by fastforce
    qed simp_all
  qed
  moreover have "unat (sb_start b) = seg_F H" if "sb_fin b"
  proof -
    have "vs = []"
      using hist H that by (cases vs) (auto simp: hist_ok_def butlast_append)
    then show ?thesis
      using H that by (simp add: seg_F_def ended_def)
  qed
  moreover have "unat (sb_start b) + sb_len b \<le> seg_F H" if nf: "\<not> sb_fin b"
  proof (cases "ended H")
    case True
    then obtain vs' l where vs: "vs = vs' @ [l]"
      using H nf by (cases vs rule: rev_cases) (auto simp: ended_def)
    then have "last H = l"
      using H by simp
    moreover have "l \<in> set vs"
      using vs by simp
    ultimately show ?thesis
      using True chained_bounds(1) [OF ch(2)] by (simp add: seg_F_def)
  next
    case False
    then show ?thesis
      using H start by (simp add: seg_F_def sb_len_def)
  qed
  ultimately show ?thesis
    by (simp add: seg_ok_def)
qed

lemma hist_package:
  assumes hist: "hist_ok S c H" and p: "pkg_hist H p"
  shows "payload p = [] \<and> \<not> is_flags_contain p SESSIONDATA_FLAG_FIN \<or>
    package_ok S (ended H) p \<and> package_seg (seg_B H) (seg_F H) p"
  using p unfolding pkg_hist_def
proof
  assume "\<exists>b\<in>set H. stream_pos p = sb_start b \<and> payload p = sb_data b \<and>
    is_flags_contain p SESSIONDATA_FLAG_FIN = sb_fin b"
  then obtain b where b: "b \<in> set H" "stream_pos p = sb_start b" "payload p = sb_data b"
    "is_flags_contain p SESSIONDATA_FLAG_FIN = sb_fin b"
    by blast
  obtain us vs where H: "H = us @ b # vs"
    using b(1) by (meson split_list)
  obtain rest where S: "S = blocks_data us @ sb_data b @ blocks_data vs @ rest"
    using hist H by (auto simp: hist_ok_def prefix_def)
  have start: "unat (sb_start b) = length (blocks_data us)"
    using hist H by (simp add: hist_ok_def)
  have "slice_ok S (unat (sb_start b)) (sb_data b)"
    unfolding slice_ok_iff using S start by metis
  moreover have "ended H \<and> unat (sb_start b) + length (sb_data b) = length S" if f: "sb_fin b"
  proof -
    have "ended H"
      using not_ended_nonfin [OF hist _ b(1)] f by blast
    moreover have "vs = []"
      using hist H f by (cases vs) (auto simp: hist_ok_def butlast_append)
    ultimately show ?thesis
      using hist H start by (auto simp: hist_ok_def)
  qed
  ultimately have "package_ok S (ended H) p"
    using b by (simp add: package_ok_def)
  moreover have "package_seg (seg_B H) (seg_F H) p"
    using hist_seg [OF hist b(1)] b by (simp add: package_seg_def sb_len_def)
  ultimately show ?thesis
    by blast
qed blast

subsection \<open>What a side keeps\<close>

text \<open>
  A side with the history \<open>H\<close> of its own stream, against the stream \<open>S\<close> of the peer with the history
  \<open>G\<close>.
\<close>

definition out_ok :: "'r ringbuf \<Rightarrow> send_block list \<Rightarrow> 'r read_state \<Rightarrow> session_data \<Rightarrow> bool" where
  "out_ok rb H r p \<longleftrightarrow> pkg_hist H p \<and> ids_ok p \<and> unat (ack_stream_pos p) \<le> recv_end rb r"

definition recv_side :: "'r ringbuf \<Rightarrow> ('r \<Rightarrow> bytes) \<Rightarrow> ('r \<Rightarrow> nat) \<Rightarrow> stream_config \<Rightarrow> send_block list \<Rightarrow> bytes \<Rightarrow>
    bool \<Rightarrow> bytes \<Rightarrow> 'r read_state \<Rightarrow> bool" where
  "recv_side rb content cap config G S sh log r =
     recv_ok rb content cap (word_of_nat (cfg_recv_buffer config)) (seg_B G) (seg_F G) S (ended G) sh log r"

definition side_ok :: "'r ringbuf \<Rightarrow> ('r \<Rightarrow> bytes) \<Rightarrow> ('r \<Rightarrow> nat) \<Rightarrow> stream_config \<Rightarrow> send_block list \<Rightarrow>
    send_block list \<Rightarrow> bytes \<Rightarrow> ('c, 'r) side \<Rightarrow> bool" where
  "side_ok rb content cap config H G S x \<longleftrightarrow>
     hist_ok (sd_written x) (sd_closed x) H \<and>
     sender_st H (sd_written x) (sd_closed x) (ps_write (sd_ps x)) \<and>
     recv_side rb content cap config G S (sd_shut x) (sd_read x) (ps_read (sd_ps x)) \<and>
     (\<forall>p\<in>set (sd_out x). out_ok rb H (ps_read (sd_ps x)) p)"

text \<open>How a step changes a side: its history and its stream grow, what it acknowledges grows, and bytes
  leave its queue only up to the position \<open>E\<close> that the peer acknowledges.\<close>

definition side_grows :: "'r ringbuf \<Rightarrow> nat \<Rightarrow> ('c, 'r) side \<Rightarrow> ('c, 'r) side \<Rightarrow> bool" where
  "side_grows rb E x x' \<longleftrightarrow>
     prefix (sd_written x) (sd_written x') \<and> prefix (sd_read x) (sd_read x') \<and>
     recv_end rb (ps_read (sd_ps x)) \<le> recv_end rb (ps_read (sd_ps x')) \<and>
     (\<forall>s. wstart (ps_write (sd_ps x')) = Some s \<longrightarrow> wstart (ps_write (sd_ps x)) = Some s \<or> s \<le> E)"

lemma pkg_hist_mono: "pkg_hist H p \<Longrightarrow> pkg_hist (H @ bs) p"
  by (auto simp: pkg_hist_def)

lemma out_ok_mono:
  "out_ok rb H r p \<Longrightarrow> recv_end rb r \<le> recv_end rb r' \<Longrightarrow> out_ok rb (H @ bs) r' p"
  by (auto simp: out_ok_def intro: pkg_hist_mono)

lemma wp_on_sent_sel [simp]:
  "sender_st H S c (wp_on_sent I t n l st) = sender_st H S c st" "wstart (wp_on_sent I t n l st) = wstart st"
  by (cases st; simp add: wp_on_sent_def sender_st_def sender_ok_def wstart_def)+

lemma is_flags_contain_finack [simp]:
  "SESSIONDATA_FLAG_FINACK AND SESSIONDATA_FLAG_FIN = 0"
  "SESSIONDATA_FLAG_FINACK AND SESSIONDATA_FLAG_PACKAGEID = 0"
  "SESSIONDATA_FLAG_FINACK AND SESSIONDATA_FLAG_ACK_PACKAGEID = 0"
  by (simp_all add: sessiondata_flag_defs)

lemma filled_out_ok:
  assumes "raw_out H p" "unat pos \<le> recv_end rb r"
  shows "out_ok rb H r (p\<lparr>session_id := i\<rparr>)" "out_ok rb H r (p\<lparr>session_id := i, ack_stream_pos := pos\<rparr>)"
    "out_ok rb H r (flags_add SESSIONDATA_FLAG_FINACK (p\<lparr>session_id := i, ack_stream_pos := pos\<rparr>))"
  using assms by (auto simp: raw_out_def out_ok_def pkg_hist_def ids_ok_def)

context ring_buffer
begin

lemma fill_acks_ok:
  assumes "recv_ok rb content cap K B F S c sh log r" "fill_acks rb i ack ps r = (ps', r')"
    "\<forall>p\<in>set ps. raw_out H p" "\<forall>pos fin. ack = Some (pos, fin) \<longrightarrow> unat pos \<le> recv_end rb r"
  shows "recv_ok rb content cap K B F S c sh log r' \<and> recv_end rb r' = recv_end rb r \<and>
    (\<forall>p\<in>set ps'. out_ok rb H r' p)"
  using assms
proof (induction ps arbitrary: ack r ps' r')
  case Nil
  then show ?case by simp
next
  case (Cons p ps)
  have out: "raw_out H p"
    using Cons.prems(3) by simp
  show ?case
  proof (cases "is_flags_contain p SESSIONDATA_FLAG_ACK")
    case False
    obtain ps1 r1 where f: "fill_acks rb i ack ps r = (ps1, r1)"
      by fastforce
    have r: "ps' = p\<lparr>session_id := i\<rparr> # ps1" "r' = r1"
      using Cons.prems(2) False f by (simp_all add: Let_def)
    have ih: "recv_ok rb content cap K B F S c sh log r1 \<and> recv_end rb r1 = recv_end rb r \<and>
        (\<forall>p\<in>set ps1. out_ok rb H r1 p)"
      using Cons.IH [OF Cons.prems(1) f _ Cons.prems(4)] Cons.prems(3) by simp
    then show ?thesis
      using r filled_out_ok(1) [OF out, of 0 rb r1] by simp
  next
    case True
    obtain pos fin r0 where t: "(case ack of None \<Rightarrow> touch_ack rb r | Some a \<Rightarrow> (a, r)) = ((pos, fin), r0)"
      by (metis prod.exhaust)
    have r0: "recv_ok rb content cap K B F S c sh log r0" "recv_end rb r0 = recv_end rb r" "unat pos \<le> recv_end rb r"
      using t Cons.prems(1,4) touch_ack_ok [OF Cons.prems(1)] by (auto split: option.splits)
    obtain ps1 r1 where f: "fill_acks rb i (Some (pos, fin)) ps r0 = (ps1, r1)"
      by fastforce
    let ?p = "p\<lparr>session_id := i, ack_stream_pos := pos\<rparr>"
    have r: "ps' = (if fin then flags_add SESSIONDATA_FLAG_FINACK ?p else ?p) # ps1" "r' = r1"
      using Cons.prems(2) True t f by (simp_all add: Let_def)
    have ih: "recv_ok rb content cap K B F S c sh log r1 \<and> recv_end rb r1 = recv_end rb r0 \<and>
        (\<forall>p\<in>set ps1. out_ok rb H r1 p)"
      using Cons.IH [OF r0(1) f] Cons.prems(3) r0(2,3) by simp
    then show ?thesis
      using r r0 filled_out_ok(2,3) [OF out, of pos rb r1 i] by simp
  qed
qed

lemma send_packages_ok:
  assumes "recv_side rb content cap config G S sh log (ps_read s)" "\<forall>p\<in>set ps. raw_out H p"
    "send_packages I rb t sent ps s = (out, s')"
  shows "recv_side rb content cap config G S sh log (ps_read s')"
    "recv_end rb (ps_read s') = recv_end rb (ps_read s)" "\<forall>p\<in>set out. out_ok rb H (ps_read s') p"
    "sender_st H' S' c (ps_write s') = sender_st H' S' c (ps_write s)" "wstart (ps_write s') = wstart (ps_write s)"
proof -
  have "recv_side rb content cap config G S sh log (ps_read s') \<and>
    recv_end rb (ps_read s') = recv_end rb (ps_read s) \<and> (\<forall>p\<in>set out. out_ok rb H (ps_read s') p) \<and>
    sender_st H' S' c (ps_write s') = sender_st H' S' c (ps_write s) \<and> wstart (ps_write s') = wstart (ps_write s)"
  proof (cases "ps = []")
    case True
    then show ?thesis using assms by (simp add: send_packages_def)
  next
    case False
    obtain ps' r' where f: "fill_acks rb (ps_remote_id s) None ps (ps_read s) = (ps', r')"
      by fastforce
    have "recv_side rb content cap config G S sh log r' \<and> recv_end rb r' = recv_end rb (ps_read s) \<and>
        (\<forall>p\<in>set ps'. out_ok rb H r' p)"
      using fill_acks_ok [OF assms(1) [unfolded recv_side_def] f assms(2)] by (simp add: recv_side_def)
    moreover have "out = ps'" "ps_read s' = r'" "ps_write s' = (if sent_bytes sent ps' > 0
        then wp_on_sent I t (word_of_nat (sent_bytes sent ps')) (last_packet_number ps') (ps_write s)
        else ps_write s)"
      using assms(3) False f by (auto simp: send_packages_def Let_def)
    ultimately show ?thesis
      by simp
  qed
  then show "recv_side rb content cap config G S sh log (ps_read s')"
    "recv_end rb (ps_read s') = recv_end rb (ps_read s)" "\<forall>p\<in>set out. out_ok rb H (ps_read s') p"
    "sender_st H' S' c (ps_write s') = sender_st H' S' c (ps_write s)" "wstart (ps_write s') = wstart (ps_write s)"
    by blast+
qed

text \<open>The common end of every step: the halves have changed and their packages are sent.\<close>

lemma side_sends:
  assumes ok: "side_ok rb content cap config H G S x"
    and hist: "hist_ok (sd_written x') (sd_closed x') (H @ bs)"
    and snd: "sender_st (H @ bs) (sd_written x') (sd_closed x') (ps_write s)"
    and rcv: "recv_side rb content cap config G S (sd_shut x') (sd_read x') (ps_read s)"
    and ps: "\<forall>p\<in>set ps. raw_out (H @ bs) p"
    and send: "send_packages I rb t sent ps s = (out, sd_ps x')" "sd_out x' = sd_out x @ out"
    and grow: "prefix (sd_written x) (sd_written x')" "prefix (sd_read x) (sd_read x')"
      "recv_end rb (ps_read (sd_ps x)) \<le> recv_end rb (ps_read s)"
      "\<And>a. wstart (ps_write s) = Some a \<Longrightarrow> wstart (ps_write (sd_ps x)) = Some a \<or> a \<le> E"
  shows "side_ok rb content cap config (H @ bs) G S x' \<and> side_grows rb E x x'"
proof -
  note sp = send_packages_ok [OF rcv ps send(1)]
  have "recv_end rb (ps_read (sd_ps x)) \<le> recv_end rb (ps_read (sd_ps x'))"
    using grow(3) sp(2) by simp
  then have "\<forall>p\<in>set (sd_out x'). out_ok rb (H @ bs) (ps_read (sd_ps x')) p"
    using ok sp(3) by (auto simp: side_ok_def send(2) intro: out_ok_mono [of rb H "ps_read (sd_ps x)"])
  then show ?thesis
    using hist snd sp(1,2,4,5) grow by (simp add: side_ok_def side_grows_def)
qed

lemma send_nothing: "send_packages I rb t sent [] s = ([], s)"
  by (simp add: send_packages_def)

lemmas side_quiet = side_sends [where bs = "[]" and ps = "[]" and out = "[]", simplified, OF _ _ _ _ send_nothing]

end

text \<open>A package that arrives: of the peer's history, and it acknowledges at most \<open>E\<close>.\<close>

definition net_ok :: "send_block list \<Rightarrow> nat \<Rightarrow> session_data \<Rightarrow> bool" where
  "net_ok G E p \<longleftrightarrow> pkg_hist G p \<and> ids_ok p \<and> unat (ack_stream_pos p) \<le> E"

lemma sd_update_written [simp]: "sd_ps ((side_send s out x)\<lparr>sd_written := w\<rparr>) = s"
  by (simp add: side_send_def)

lemma rbind_send_packages:
  assumes "rbind X (\<lambda>((ret, woken, packages), s). case send_packages I rb t sent packages s of (out, s) \<Rightarrow>
      Inr ((ret, woken, out), s)) = Inr ((r, wk, out), s')"
  obtains ps s1 where "X = Inr ((r, wk, ps), s1)" "send_packages I rb t sent ps s1 = (out, s')"
  using assms by (cases X) (auto split: prod.splits)

context ring_buffer
begin

lemma side_okD:
  assumes "side_ok rb content cap config H G S x"
  shows "hist_ok (sd_written x) (sd_closed x) H" "sender_st H (sd_written x) (sd_closed x) (ps_write (sd_ps x))"
    "recv_side rb content cap config G S (sd_shut x) (sd_read x) (ps_read (sd_ps x))"
  using assms by (simp_all add: side_ok_def)

lemma poll_write_ok:
  assumes ok: "side_ok rb content cap config H G S x" and open_: "\<not> sd_closed x"
    and len: "length (sd_written x) + length buf + cfg_recv_buffer config < 2 ^ 64"
    and eq: "ps_poll_write I rb t sent waker buf (sd_ps x) = Inr ((ret, out), s)"
    and x': "x' = (side_send s out x)\<lparr>sd_written := sd_written x @ take (accepted ret) buf\<rparr>"
  shows "\<exists>bs. side_ok rb content cap config (H @ bs) G S x' \<and> side_grows rb E x x'"
proof -
  note d = side_okD [OF ok]
  have "length (sd_written x) + length buf < 2 ^ 64"
    using len by simp
  from wp_write_ok [OF d(1,2) open_ this, of I t waker] obtain ret' ps w bs where
    w: "wp_write I t waker buf (ps_write (sd_ps x)) = Inr ((ret', ps), w)"
    "hist_ok (sd_written x @ take (accepted ret') buf) (sd_closed x) (H @ bs)"
    "sender_st (H @ bs) (sd_written x @ take (accepted ret') buf) (sd_closed x) w"
    "\<forall>p\<in>set ps. raw_out (H @ bs) p" "wstart w = wstart (ps_write (sd_ps x))"
    by blast
  obtain out' s' where sp: "send_packages I rb (later 3 t) sent ps ((sd_ps x)\<lparr>ps_write := w\<rparr>) = (out', s')"
    by fastforce
  have r: "ret' = ret" "out' = out" "s' = s"
    using eq w(1) sp by (simp_all add: ps_poll_write_def)
  have "side_ok rb content cap config (H @ bs) G S x' \<and> side_grows rb E x x'"
    by (rule side_sends [OF ok, where s = "(sd_ps x)\<lparr>ps_write := w\<rparr>" and ps = ps])
      (use w d(3) sp r in \<open>simp_all add: x' side_send_def\<close>)
  then show ?thesis by blast
qed

lemma close_ok:
  assumes ok: "side_ok rb content cap config H G S x"
    and eq: "ps_close I rb t sent waker (sd_ps x) = Inr ((ret, out), s)"
    and x': "x' = (side_send s out x)\<lparr>sd_closed := True\<rparr>"
  shows "\<exists>bs. side_ok rb content cap config (H @ bs) G S x' \<and> side_grows rb E x x'"
proof -
  note d = side_okD [OF ok]
  from wp_close_ok [OF d(1,2), of I t waker] obtain ret' ps w bs where
    w: "wp_close I t waker (ps_write (sd_ps x)) = Inr ((ret', ps), w)"
    "hist_ok (sd_written x) True (H @ bs)" "sender_st (H @ bs) (sd_written x) True w"
    "\<forall>p\<in>set ps. raw_out (H @ bs) p" "wstart w = wstart (ps_write (sd_ps x))"
    by blast
  obtain out' s' where sp: "send_packages I rb (later 1 t) sent ps ((sd_ps x)\<lparr>ps_write := w\<rparr>) = (out', s')"
    by fastforce
  have r: "ret' = ret" "out' = out" "s' = s"
    using eq w(1) sp by (simp_all add: ps_close_def)
  have "side_ok rb content cap config (H @ bs) G S x' \<and> side_grows rb E x x'"
    by (rule side_sends [OF ok, where s = "(sd_ps x)\<lparr>ps_write := w\<rparr>" and ps = ps])
      (use w d(3) sp r in \<open>simp_all add: x' side_send_def\<close>)
  then show ?thesis by blast
qed

text \<open>A step of the receiving half alone.\<close>

lemma receiver_only:
  assumes ok: "side_ok rb content cap config H G S x"
    and r: "recv_side rb content cap config G S (sd_shut x) (sd_read x @ d) r" "recv_end rb r = recv_end rb (ps_read (sd_ps x))"
    and x': "x' = x\<lparr>sd_ps := (sd_ps x)\<lparr>ps_read := r\<rparr>, sd_read := sd_read x @ d\<rparr>"
  shows "\<exists>bs. side_ok rb content cap config (H @ bs) G S x' \<and> side_grows rb E x x'"
proof -
  have "\<forall>p\<in>set (sd_out x). out_ok rb H r p"
    using ok r(2) by (simp add: side_ok_def out_ok_def)
  then have "side_ok rb content cap config (H @ []) G S x' \<and> side_grows rb E x x'"
    using ok r x' by (simp add: side_ok_def side_grows_def)
  then show ?thesis by blast
qed

lemma shutdown_ok:
  fixes x :: "('c, 'r) side"
  assumes ok: "side_ok rb content cap config H G S x"
    and eq: "ps_shutdown I rb t sent which (sd_ps x) = Inr (out, s)"
    and x': "x' = (side_send s out x)\<lparr>sd_closed := (sd_closed x \<or> which \<noteq> ShutdownRead),
      sd_shut := (sd_shut x \<or> which \<noteq> ShutdownWrite)\<rparr>"
  shows "\<exists>bs. side_ok rb content cap config (H @ bs) G S x' \<and> side_grows rb E x x'"
proof -
  define shut where "shut y = y\<lparr>sd_ps := (sd_ps y)\<lparr>ps_read := rp_close rb (ps_read (sd_ps y))\<rparr>, sd_shut := True\<rparr>"
    for y :: "('c, 'r) side"
  have read_closes: "side_ok rb content cap config (H @ bs) G S (shut y) \<and> side_grows rb E x (shut y)"
    if "side_ok rb content cap config (H @ bs) G S y" "side_grows rb E x y" for bs y
    using that rp_close_ok [OF side_okD(3) [OF that(1), unfolded recv_side_def]]
    by (simp add: shut_def side_ok_def side_grows_def recv_side_def out_ok_def)
  show ?thesis
  proof (cases which)
    case ShutdownWrite
    then obtain ret where "ps_close I rb t sent None (sd_ps x) = Inr ((ret, out), s)"
      using eq by (auto simp: ps_shutdown_def rbind_eq_Inr)
    from close_ok [OF ok this, of x'] show ?thesis
      using x' ShutdownWrite by (simp add: side_send_def)
  next
    case ShutdownRead
    then have "x' = shut x"
      using eq x' by (auto simp: ps_shutdown_def side_send_def shut_def)
    moreover have "side_ok rb content cap config (H @ []) G S x" "side_grows rb E x x"
      using ok by (simp_all add: side_grows_def)
    ultimately show ?thesis
      using read_closes by blast
  next
    case ShutdownBoth
    then obtain ret s1 where c: "ps_close I rb t sent None (sd_ps x) = Inr ((ret, out), s1)"
      "s = s1\<lparr>ps_read := rp_close rb (ps_read s1)\<rparr>"
      using eq by (auto simp: ps_shutdown_def rbind_eq_Inr)
    have "x' = shut ((side_send s1 out x)\<lparr>sd_closed := True\<rparr>)"
      using x' ShutdownBoth c(2) by (cases x) (simp add: side_send_def shut_def)
    then show ?thesis
      using close_ok [OF ok c(1) refl] read_closes by blast
  qed
qed

lemma tick_ok:
  assumes ok: "side_ok rb content cap config H G S x"
    and eq: "ps_tick I rb config t sent (sd_ps x) = Inr ((ret, woken, out), s)"
    and x': "x' = side_send s out x"
  shows "\<exists>bs. side_ok rb content cap config (H @ bs) G S x' \<and> side_grows rb E x x'"
proof -
  note d = side_okD [OF ok]
  obtain wr ps wk w where we: "wp_on_time_escape I config (t 0) [] (ps_write (sd_ps x)) = Inr ((wr, ps, wk), w)"
    using eq by (auto simp: ps_tick_def rbind_eq_Inr)
  obtain bs where w: "hist_ok (sd_written x) (sd_closed x) (H @ bs)"
    "sender_st (H @ bs) (sd_written x) (sd_closed x) w" "\<forall>p\<in>set ps. raw_out (H @ bs) p"
    "w = WClosed \<or> wstart w = wstart (ps_write (sd_ps x))"
    using wp_on_time_escape_ok [OF d(1,2) _ we] by auto
  have start: "wstart (ps_write (sd_ps x)) = Some a \<or> a \<le> E" if "wstart w = Some a" for a
    using w(4) that by (auto simp: wstart_def)
  have "\<exists>r ps'. recv_side rb content cap config G S (sd_shut x) (sd_read x) r \<and> recv_end rb r = recv_end rb (ps_read (sd_ps x)) \<and>
    (\<forall>p\<in>set ps'. raw_out (H @ bs) p) \<and>
    send_packages I rb (later 1 t) sent ps' ((sd_ps x)\<lparr>ps_write := w, ps_read := r\<rparr>) = (out, s)"
  proof (cases wr)
    case (Inl e)
    obtain wk' r where b: "rp_break_with_error rb (ps_read (sd_ps x)) = (wk', r)"
      by fastforce
    then have "out = []" "s = (sd_ps x)\<lparr>ps_write := w, ps_read := r\<rparr>"
      using eq we Inl by (simp_all add: ps_tick_def)
    then show ?thesis
      using rp_break_with_error_ok [OF d(3) [unfolded recv_side_def] b]
      by (auto simp: recv_side_def send_nothing intro!: exI [of _ "[]"] exI [of _ r])
  next
    case (Inr e)
    obtain re ps' r where b: "rp_on_time_escape rb config (t 0) ps (ps_read (sd_ps x)) = ((re, ps'), r)"
      by (metis prod.exhaust)
    note rr = rp_on_time_escape_ok [OF d(3) [unfolded recv_side_def] b]
    consider "out = []" "s = (sd_ps x)\<lparr>ps_write := w, ps_read := r\<rparr>"
      | "send_packages I rb (later 1 t) sent ps' ((sd_ps x)\<lparr>ps_write := w, ps_read := r\<rparr>) = (out, s)"
      using eq we Inr b by (auto simp: ps_tick_def Let_def split: if_splits prod.splits)
    then show ?thesis
    proof cases
      case 1
      then show ?thesis
        using rr(1,2) by (auto simp: recv_side_def send_nothing intro!: exI [of _ "[]"] exI [of _ r])
    next
      case 2
      then show ?thesis
        using rr(1,2) rr(3) [OF w(3)] unfolding recv_side_def by blast
    qed
  qed
  then obtain r ps' where r: "recv_side rb content cap config G S (sd_shut x) (sd_read x) r"
    "recv_end rb r = recv_end rb (ps_read (sd_ps x))" "\<forall>p\<in>set ps'. raw_out (H @ bs) p"
    "send_packages I rb (later 1 t) sent ps' ((sd_ps x)\<lparr>ps_write := w, ps_read := r\<rparr>) = (out, s)"
    by blast
  have "side_ok rb content cap config (H @ bs) G S x' \<and> side_grows rb E x x'"
    by (rule side_sends [OF ok, where s = "(sd_ps x)\<lparr>ps_write := w, ps_read := r\<rparr>" and ps = ps'])
      (use w(1,2) r start in \<open>simp_all add: x' side_send_def\<close>)
  then show ?thesis by blast
qed

lemma deliver_ok:
  assumes ok: "side_ok rb content cap config H G S x" and peer: "hist_ok S c G" and p: "net_ok G E p"
    and eq: "ps_on_package I rb config t sent p (sd_ps x) = Inr ((ret, woken, out), s)"
    and x': "x' = side_send s out x"
  shows "\<exists>bs. side_ok rb content cap config (H @ bs) G S x' \<and> side_grows rb E x x'"
proof -
  note d = side_okD [OF ok]
  have inc: "payload p = [] \<and> \<not> is_flags_contain p SESSIONDATA_FLAG_FIN \<or>
    package_ok S (ended G) p \<and> package_seg (seg_B G) (seg_F G) p"
    using hist_package [OF peer] p by (simp add: net_ok_def)
  obtain ps s1 where s1: "(if is_syn_ack p then Inr ((Handled, [], [session_data_new]), sd_ps x)
        else
          rbind (if is_reset p then
                   (case wp_reset (ps_write (sd_ps x)) of (woken, w) \<Rightarrow> Inr ((Continue, [], woken), w))
                 else wp_on_package I config t p [] (ps_write (sd_ps x))) (\<lambda>((r, packages, woken), w).
            let s = (sd_ps x)\<lparr>ps_write := w\<rparr> in
            case r of
              Continue \<Rightarrow>
                rbind (rp_on_package rb config (later 3 t) p packages (ps_read s)) (\<lambda>((packages, woken'), r).
                  Inr ((Handled, woken @ woken', packages), s\<lparr>ps_read := r\<rparr>))
            | Handled \<Rightarrow> Inr ((Handled, woken, packages), s)
            | Break \<Rightarrow> Inl Panic)) = (Inr ((ret, woken, ps), s1) :: _ result)"
    "send_packages I rb (later 6 t) sent ps s1 = (out, s)"
    using eq unfolding ps_on_package_def by (rule rbind_send_packages)
  have "sender_st H (sd_written x) (sd_closed x) (ps_write s1) \<and>
    recv_side rb content cap config G S (sd_shut x) (sd_read x) (ps_read s1) \<and> (\<forall>p\<in>set ps. raw_out H p) \<and>
    recv_end rb (ps_read (sd_ps x)) \<le> recv_end rb (ps_read s1) \<and>
    (\<forall>a. wstart (ps_write s1) = Some a \<longrightarrow> wstart (ps_write (sd_ps x)) = Some a \<or> a \<le> E)"
  proof (cases "is_syn_ack p")
    case True
    then have "ps = [session_data_new]" "s1 = sd_ps x"
      using s1(1) by simp_all
    then show ?thesis
      using d by (simp add: raw_out_def pkg_hist_def ids_ok_def)
  next
    case False
    obtain r ps1 wk1 w where w: "(if is_reset p then
          (case wp_reset (ps_write (sd_ps x)) of (woken, w) \<Rightarrow> Inr ((Continue, [], woken), w))
        else wp_on_package I config t p [] (ps_write (sd_ps x))) = (Inr ((r, ps1, wk1), w) :: _ result)"
      using s1(1) False by (auto simp: rbind_eq_Inr)
    have wk: "sender_st H (sd_written x) (sd_closed x) w \<and> (\<forall>p\<in>set ps1. raw_out H p) \<and>
      (\<forall>a. wstart w = Some a \<longrightarrow> wstart (ps_write (sd_ps x)) = Some a \<or> a \<le> E)"
    proof (cases "is_reset p")
      case True
      then have "w = WClosed" "ps1 = []"
        using w by (auto simp: wp_reset_def split: write_state.splits)
      then show ?thesis
        by (simp add: sender_st_def wstart_def)
    next
      case False
      then have "wp_on_package I config t p [] (ps_write (sd_ps x)) = Inr ((r, ps1, wk1), w)"
        using w by simp
      from wp_on_package_ok [OF d(1,2) _ this] show ?thesis
        using p by (auto simp: net_ok_def wstart_def)
    qed
    show ?thesis
    proof (cases "r = Continue")
      case True
      obtain ps2 wk2 r2 where "rp_on_package rb config (later 3 t) p ps1 (ps_read (sd_ps x)) = Inr ((ps2, wk2), r2)"
        "recv_side rb content cap config G S (sd_shut x) (sd_read x) r2"
        "recv_end rb (ps_read (sd_ps x)) \<le> recv_end rb r2"
        "(\<forall>p\<in>set ps1. raw_out H p) \<longrightarrow> (\<forall>p\<in>set ps2. raw_out H p)"
        using rp_on_package_ok [OF d(3) [unfolded recv_side_def] inc] unfolding recv_side_def by blast
      then show ?thesis
        using s1(1) False w True wk by auto
    next
      case nc: False
      then have "ps = ps1" "s1 = (sd_ps x)\<lparr>ps_write := w\<rparr>"
        using s1(1) False w by (cases r; simp add: Let_def)+
      then show ?thesis
        using wk d(3) by simp
    qed
  qed
  then have "side_ok rb content cap config (H @ []) G S x' \<and> side_grows rb E x x'"
    by (intro side_sends [OF ok, where s = s1 and ps = ps]) (use d(1) s1(2) in \<open>auto simp: x' side_send_def\<close>)
  then show ?thesis by blast
qed

lemma flush_ok:
  assumes ok: "side_ok rb content cap config H G S x"
    and eq: "ps_poll_flush waker (sd_ps x) = Inr (ret, s)"
  shows "\<exists>bs. side_ok rb content cap config (H @ bs) G S (x\<lparr>sd_ps := s\<rparr>) \<and> side_grows rb E x (x\<lparr>sd_ps := s\<rparr>)"
proof -
  note d = side_okD [OF ok]
  obtain ret' w where w: "wp_flush waker (ps_write (sd_ps x)) = Inr (ret', w)"
    "sender_st H (sd_written x) (sd_closed x) w" "wstart w = wstart (ps_write (sd_ps x))"
    using wp_flush_ok [OF d(2)] by blast
  then have "s = (sd_ps x)\<lparr>ps_write := w\<rparr>"
    using eq by (simp add: ps_poll_flush_def)
  then have "side_ok rb content cap config (H @ []) G S (x\<lparr>sd_ps := s\<rparr>) \<and> side_grows rb E x (x\<lparr>sd_ps := s\<rparr>)"
    using ok w by (simp add: side_ok_def side_grows_def)
  then show ?thesis by blast
qed

lemma side_step_ok:
  assumes step: "side_step I rb config net x x'" and ok: "side_ok rb content cap config H G S x"
    and peer: "hist_ok S c G" and net: "\<forall>p\<in>set net. net_ok G E p"
  shows "\<exists>bs. side_ok rb content cap config (H @ bs) G S x' \<and> side_grows rb E x x'"
  using step
proof cases
  case app_write
  then show ?thesis using poll_write_ok [OF ok] by blast
next
  case app_flush
  then show ?thesis using flush_ok [OF ok] by blast
next
  case (app_close t sent waker cret out s)
  then show ?thesis using close_ok [OF ok] by (simp add: ps_poll_close_def)
next
  case app_shutdown
  then show ?thesis using shutdown_ok [OF ok] by blast
next
  case (app_readable waker ret s)
  then obtain r where r: "rp_readable rb waker (ps_read (sd_ps x)) = Inr (ret, r)" "s = (sd_ps x)\<lparr>ps_read := r\<rparr>"
    by (auto simp: ps_poll_readable_def rbind_eq_Inr)
  from rp_readable_ok [OF side_okD(3) [OF ok, unfolded recv_side_def] r(1)] show ?thesis
    by (intro receiver_only [OF ok, where d = "[]" and r = r]) (simp_all add: recv_side_def app_readable(1) r(2))
next
  case (app_read t waker n ret d tm s)
  then obtain r where r: "rp_read rb config t waker n (ps_read (sd_ps x)) = ((ret, d, tm), r)"
    "s = (sd_ps x)\<lparr>ps_read := r\<rparr>"
    by (auto simp: ps_poll_read_def split: prod.splits)
  from rp_read_ok [OF side_okD(3) [OF ok, unfolded recv_side_def] r(1)] show ?thesis
    by (intro receiver_only [OF ok, where d = d and r = r]) (simp_all add: recv_side_def app_read(1) r(2))
next
  case (read_timer time woken r)
  from rp_read_timeout_ok [OF side_okD(3) [OF ok, unfolded recv_side_def] read_timer(2)] show ?thesis
    by (intro receiver_only [OF ok, where d = "[]" and r = r]) (simp_all add: recv_side_def read_timer(1))
next
  case timer
  then show ?thesis using tick_ok [OF ok] by blast
next
  case deliver
  then show ?thesis using deliver_ok [OF ok peer] net by blast
qed

end

subsection \<open>When the peer writes more\<close>

lemma slice_ok_prefix: "slice_ok S pos d \<Longrightarrow> prefix S S' \<Longrightarrow> slice_ok S' pos d"
  unfolding slice_ok_iff prefix_def by (metis append.assoc)

lemma rbk_ok_prefix: "rbk_ok S False high b \<Longrightarrow> prefix S S' \<Longrightarrow> rbk_ok S' c high b"
  by (auto simp: rbk_ok_def slice_ok_prefix split: if_splits)

lemma rq_inv_prefix:
  assumes "rq_inv content cap S False q" "prefix S S'" "length S' + cap (rq_stream q) < 2 ^ 64"
  shows "rq_inv content cap S' c q"
  using assms by (auto simp: rq_inv_def slice_ok_prefix rbk_ok_prefix)

lemma ended_append:
  assumes "hist_ok S c (G @ bs)" "ended G"
  shows "bs = []"
proof (rule ccontr)
  assume "bs \<noteq> []"
  then have "last G \<in> set (butlast (G @ bs))"
    using assms(2) by (simp add: butlast_append ended_def)
  then show False
    using assms by (auto simp: hist_ok_def ended_def)
qed

lemma seg_F_mono:
  assumes "hist_ok S c (G @ bs)" "\<not> ended G"
  shows "seg_F G \<le> seg_F (G @ bs)"
proof (cases "ended (G @ bs)")
  case True
  then obtain us l where bs: "bs = us @ [l]"
    using assms(2) by (cases bs rule: rev_cases) auto
  have "chained 0 ((G @ us) @ l # [])"
    using assms(1) bs by (simp add: hist_ok_def)
  from chained_start [OF this] show ?thesis
    using True assms(2) bs by (simp add: seg_F_def)
qed (use assms(2) in \<open>simp add: seg_F_def\<close>)

lemma seg_B_new:
  assumes "hist_ok S c (G @ bs)" "\<not> ended G" "x \<in> seg_B (G @ bs)" "x \<notin> seg_B G"
  shows "seg_F G \<le> x"
proof -
  obtain b where b: "b \<in> set bs" "x = unat (sb_start b) + sb_len b"
    using assms(3,4) by (auto simp: seg_B_def)
  obtain us vs where bs: "bs = us @ b # vs"
    using b(1) by (meson split_list)
  have "chained 0 ((G @ us) @ b # vs)"
    using assms(1) bs by (simp add: hist_ok_def)
  from chained_start [OF this] show ?thesis
    using assms(2) b(2) by (simp add: seg_F_def)
qed

lemma seg_B_mono: "seg_B G \<subseteq> seg_B (G @ bs)"
  by (auto simp: seg_B_def)

lemma seg_ok_mono:
  assumes hist: "hist_ok S c (G @ bs)" "\<not> ended G" and seg: "seg_ok (seg_B G) (seg_F G) pos len False"
  shows "seg_ok (seg_B (G @ bs)) (seg_F (G @ bs)) pos len False"
proof -
  have "\<not> (pos < x \<and> x < pos + len)" if "x \<in> seg_B (G @ bs)" for x
    using that seg seg_B_new [OF hist that] by (cases "x \<in> seg_B G") (auto simp: seg_ok_def)
  then show ?thesis
    using seg seg_F_mono [OF hist] seg_B_mono [of G bs] by (auto simp: seg_ok_def)
qed

lemma rq_seg_mono:
  assumes hist: "hist_ok S c (G @ bs)" "\<not> ended G" and seg: "rq_seg rb (seg_B G) (seg_F G) q"
    and nf: "\<forall>b\<in>set (rq_blocks q). \<not> rbk_fin b"
  shows "rq_seg rb (seg_B (G @ bs)) (seg_F (G @ bs)) q"
  using seg nf seg_ok_mono [OF hist] seg_F_mono [OF hist] seg_B_mono [of G bs]
  by (fastforce simp: rq_seg_def)

lemma recv_side_extend:
  assumes ok: "recv_side rb content cap config G S sh log r" and old: "hist_ok S c G"
    and new: "hist_ok S' c' (G @ bs)" and S: "prefix S S'"
    and len: "length S' + cfg_recv_buffer config < 2 ^ 64"
  shows "recv_side rb content cap config (G @ bs) S' sh log r"
proof (cases "ended G")
  case True
  then have "bs = []"
    using ended_append [OF new] by simp
  moreover have "S' = S"
    using True old new \<open>bs = []\<close> by (simp add: hist_ok_def)
  ultimately show ?thesis
    using ok by simp
next
  case False
  show ?thesis
  proof (cases r)
    case (RClosed e res)
    then show ?thesis
      using ok S False by (auto simp: recv_side_def recv_ok_def end_ok_def dest: prefix_length_le)
  next
    case (ROpen r0)
    let ?K = "word_of_nat (cfg_recv_buffer config) :: u64"
    have inv: "rq_inv content cap S False (rqueue r0)" "rq_capability (rqueue r0) = ?K"
      "log = take (unat (rq_start (rqueue r0))) S"
      "remote_closed r0 = None" "rq_seg rb (seg_B G) (seg_F G) (rqueue r0)"
      "timeout_flag r0 \<longrightarrow> stream_len rb (rqueue r0) > 0"
      using ok ROpen False by (auto simp: recv_side_def recv_ok_def end_ok_def split: if_splits)
    have "cap (rq_stream (rqueue r0)) \<le> cfg_recv_buffer config"
      using rq_invD(1) [OF inv(1)] inv(2) by (simp add: unat_of_nat)
    then have "rq_inv content cap S' c'' (rqueue r0)" for c''
      using rq_inv_prefix [OF inv(1) S] len by simp
    moreover have "log = take (unat (rq_start (rqueue r0))) S'"
      using inv(3) S rq_invD(6) [OF inv(1)] by (auto simp: prefix_def)
    moreover have "\<forall>b\<in>set (rq_blocks (rqueue r0)). \<not> rbk_fin b"
      using rq_invD(5) [OF inv(1)] unfolding rbk_ok_def by metis
    ultimately show ?thesis
      using ROpen inv(2,4,6) rq_seg_mono [OF new False inv(5)] by (simp add: recv_side_def recv_ok_def)
  qed
qed

subsection \<open>The invariant of a connection\<close>

definition half_ok :: "'r ringbuf \<Rightarrow> ('r \<Rightarrow> bytes) \<Rightarrow> ('r \<Rightarrow> nat) \<Rightarrow> stream_config \<Rightarrow> send_block list \<Rightarrow>
    send_block list \<Rightarrow> ('c, 'r) side \<Rightarrow> ('c, 'r) side \<Rightarrow> bool" where
  "half_ok rb content cap config H G x y \<longleftrightarrow>
     side_ok rb content cap config H G (sd_written y) x \<and>
     length (sd_written x) + cfg_recv_buffer config < 2 ^ 64 \<and>
     (\<forall>a. wstart (ps_write (sd_ps x)) = Some a \<longrightarrow> a \<le> recv_end rb (ps_read (sd_ps y)))"

definition conn_ok :: "'r ringbuf \<Rightarrow> ('r \<Rightarrow> bytes) \<Rightarrow> ('r \<Rightarrow> nat) \<Rightarrow> stream_config \<Rightarrow> ('c, 'r) conn \<Rightarrow> bool" where
  "conn_ok rb content cap config c \<longleftrightarrow>
     (\<exists>H G. half_ok rb content cap config H G (fst c) (snd c) \<and> half_ok rb content cap config G H (snd c) (fst c))"

lemma side_step_bound:
  assumes "side_step I rb config net x x'" "length (sd_written x) + cfg_recv_buffer config < 2 ^ 64"
  shows "length (sd_written x') + cfg_recv_buffer config < 2 ^ 64"
  using assms by cases (auto simp: side_send_def)

context ring_buffer
begin

lemma half_step_ok:
  assumes step: "side_step I rb config (sd_out y) x x'"
    and x: "half_ok rb content cap config H G x y" and y: "half_ok rb content cap config G H y x"
  shows "\<exists>bs. half_ok rb content cap config (H @ bs) G x' y \<and> half_ok rb content cap config G (H @ bs) y x'"
proof -
  note hx = x [unfolded half_ok_def] and hy = y [unfolded half_ok_def]
  have net: "\<forall>p\<in>set (sd_out y). net_ok G (recv_end rb (ps_read (sd_ps y))) p"
    using hy by (simp add: side_ok_def out_ok_def net_ok_def)
  obtain bs where new: "side_ok rb content cap config (H @ bs) G (sd_written y) x'"
    and grows: "side_grows rb (recv_end rb (ps_read (sd_ps y))) x x'"
    using side_step_ok [OF step _ side_okD(1) net] hx hy by blast
  have len: "length (sd_written x') + cfg_recv_buffer config < 2 ^ 64"
    using side_step_bound [OF step] hx by blast
  have "recv_side rb content cap config (H @ bs) (sd_written x') (sd_shut y) (sd_read y) (ps_read (sd_ps y))"
    using recv_side_extend [OF side_okD(3) side_okD(1) side_okD(1) [OF new] _ len] hx hy grows
    by (meson side_grows_def)
  then have "side_ok rb content cap config G (H @ bs) (sd_written x') y"
    using hy by (simp add: side_ok_def)
  then have "half_ok rb content cap config G (H @ bs) y x'"
    using hy grows unfolding half_ok_def side_grows_def by (meson order_trans)
  moreover have "half_ok rb content cap config (H @ bs) G x' y"
    using hx new len grows unfolding half_ok_def side_grows_def by blast
  ultimately show ?thesis by blast
qed

lemma half_new:
  assumes "cfg_recv_buffer config < 2 ^ 64"
  shows "half_ok rb content cap config [] [] (side_new (package_stream_new rb config t first_id impl remote_id))
    (side_new (package_stream_new rb config t' first_id' impl' remote_id'))"
  using assms
  by (simp add: half_ok_def side_ok_def side_new_def package_stream_new_def wp_new_def rp_new_def
      sender_st_def sender_ok_def queue_ok_def tail_of_def sq_inv_def send_queue_new_def hist_ok_def ended_def
      recv_side_def recv_ok_def rq_inv_def recv_queue_new_def content_new cap_new unat_of_nat slice_ok_def
      rq_seg_def stream_end_def len_content seg_B_def seg_F_def wstart_def recv_end_def queue_data_def
      nagle_data_def take_bit_nat_eq_self)

lemma conn_reach_ok:
  assumes "conn_reach I rb config c" "cfg_recv_buffer config < 2 ^ 64"
  shows "conn_ok rb content cap config c"
  using assms
proof induction
  case init
  then show ?case
    using half_new unfolding conn_ok_def by (metis fst_conv snd_conv)
next
  case (step c c')
  then obtain H G where hg: "half_ok rb content cap config H G (fst c) (snd c)"
    "half_ok rb content cap config G H (snd c) (fst c)"
    by (auto simp: conn_ok_def)
  from step.hyps(2) show ?case
  proof cases
    case (left y x x')
    then show ?thesis
      using half_step_ok [of I config y x x' H G] hg unfolding conn_ok_def by auto
  next
    case (right x y y')
    then show ?thesis
      using half_step_ok [of I config x y y' G H] hg unfolding conn_ok_def by auto
  qed
qed

end

subsection \<open>Properties\<close>

context ring_buffer
begin

lemma on_package_safe:
  assumes ok: "side_ok rb content cap config H G S x" and peer: "hist_ok S c G" and p: "net_ok G E p"
    and clock: "\<And>w s. ps_write (sd_ps x) = WOpen w \<Longrightarrow> s \<in> set (est_stubs w) \<Longrightarrow> stub_send_time s \<le> t 1"
  shows "\<exists>r s. ps_on_package I rb config t sent p (sd_ps x) = Inr (r, s)"
proof -
  note d = side_okD [OF ok]
  have inc: "payload p = [] \<and> \<not> is_flags_contain p SESSIONDATA_FLAG_FIN \<or>
    package_ok S (ended G) p \<and> package_seg (seg_B G) (seg_F G) p"
    using hist_package [OF peer] p by (simp add: net_ok_def)
  obtain r ps wk w where w: "(if is_reset p then
        (case wp_reset (ps_write (sd_ps x)) of (woken, w) \<Rightarrow> Inr ((Continue, [], woken), w))
      else wp_on_package I config t p [] (ps_write (sd_ps x))) = (Inr ((r, ps, wk), w) :: _ result)"
    "r \<noteq> Break"
  proof (cases "is_reset p")
    case True
    then show ?thesis
      using that by (cases "wp_reset (ps_write (sd_ps x))") simp
  next
    case False
    have "\<exists>r w. wp_on_package I config t p [] (ps_write (sd_ps x)) = Inr (r, w)"
      by (rule wp_on_package_safe [OF d(1,2)]) (use p clock in \<open>auto simp: net_ok_def\<close>)
    then obtain r ps wk w where eq: "wp_on_package I config t p [] (ps_write (sd_ps x)) = Inr ((r, ps, wk), w)"
      by auto
    have "r \<noteq> Break"
      by (rule wp_on_package_ok(4) [OF d(1,2) _ eq]) simp
    then show ?thesis
      using that eq False by simp
  qed
  obtain y where "rp_on_package rb config (later 3 t) p ps (ps_read (sd_ps x)) = Inr y"
    using rp_on_package_ok [OF d(3) [unfolded recv_side_def] inc] by blast
  then show ?thesis
    using w by (cases r) (auto simp: ps_on_package_def Let_def split: prod.splits)
qed

lemma tick_safe:
  assumes ok: "side_ok rb content cap config H G S x"
    and clock: "\<And>w. ps_write (sd_ps x) = WOpen w \<Longrightarrow> last_recv w \<le> t 0"
  shows "\<exists>r s. ps_tick I rb config t sent (sd_ps x) = Inr (r, s)"
  using wp_on_time_escape_safe [OF side_okD(2) [OF ok] clock, of I config "[]"]
  by (auto simp: ps_tick_def Let_def split: sum.splits prod.splits)

lemma close_safe:
  assumes "side_ok rb content cap config H G S x"
  shows "\<exists>r s. ps_poll_close I rb t sent waker (sd_ps x) = Inr (r, s)"
  using wp_close_ok [OF side_okD(1,2) [OF assms], of I t "Some waker"]
  by (auto simp: ps_poll_close_def ps_close_def split: prod.splits)

lemma write_safe:
  assumes "side_ok rb content cap config H G S x" "\<not> sd_closed x" "length (sd_written x) + length buf < 2 ^ 64"
  shows "\<exists>r s. ps_poll_write I rb t sent waker buf (sd_ps x) = Inr (r, s)"
  using wp_write_ok [OF side_okD(1,2) [OF assms(1)] assms(2,3), of I t waker]
  by (auto simp: ps_poll_write_def split: prod.splits)

lemma rp_read_eof:
  assumes ok: "recv_ok rb content cap K B F S c False log st" and n: "n > 0"
    and eq: "rp_read rb config t waker n st = ((Ready (Inr 0), d, tm), st')"
  shows "end_ok K F S c (length log)"
proof (cases st)
  case (RClosed e res)
  then show ?thesis using ok eq by (simp add: rp_read_def recv_ok_def)
next
  case (ROpen r)
  have inv: "rq_inv content cap S c (rqueue r)" and l: "log = take (unat (rq_start (rqueue r))) S"
    and to: "timeout_flag r \<longrightarrow> stream_len rb (rqueue r) > 0"
    and e: "remote_closed r \<noteq> None \<longrightarrow> end_ok K F S c (unat (stream_end rb (rqueue r)))"
    using ok by (auto simp: recv_ok_def ROpen)
  obtain d' q' where rd: "read_stream rb n (rqueue r) = (d', q')" "d' = take n (content (rq_stream (rqueue r)))"
    using read_stream_ok [OF inv, of n] by blast
  have "d' = []" "stream_len rb (rqueue r) \<ge> n \<or> stream_len rb (rqueue r) > recv_drain config \<or>
      remote_closed r \<noteq> None \<or> timeout_flag r"
    using eq rd(1) by (auto simp: rp_read_def ROpen rp_impl_read_def Let_def split: if_splits)
  moreover have "stream_len rb (rqueue r) = 0"
    using \<open>d' = []\<close> rd(2) n by (simp add: stream_len_def len_content)
  ultimately have "remote_closed r \<noteq> None"
    using to n by auto
  then show ?thesis
    using e stream_end_unat [OF inv] rq_invD(6) [OF inv] l \<open>stream_len rb (rqueue r) = 0\<close>
    by (simp add: stream_len_def len_content)
qed

lemma recv_prefix:
  assumes "recv_ok rb content cap K B F S c sh log st"
  shows "prefix log S" "length log \<le> recv_end rb st" "recv_end rb st \<le> length S"
proof -
  have "prefix log S \<and> length log \<le> recv_end rb st \<and> recv_end rb st \<le> length S"
  proof (cases st)
    case (ROpen r)
    then have inv: "rq_inv content cap S c (rqueue r)" and l: "log = take (unat (rq_start (rqueue r))) S"
      using assms by (simp_all add: recv_ok_def)
    show ?thesis
      using ROpen l stream_end_unat [OF inv] rq_invD(6) [OF inv] by (simp add: recv_end_def take_is_prefix)
  qed (use assms in \<open>simp add: recv_ok_def recv_end_def\<close>)
  then show "prefix log S" "length log \<le> recv_end rb st" "recv_end rb st \<le> length S"
    by blast+
qed

lemma half_prefix:
  assumes "half_ok rb content cap config H G x y"
  shows "prefix (sd_read x) (sd_written y)" "recv_end rb (ps_read (sd_ps x)) \<le> length (sd_written y)"
  using assms recv_prefix(1,3) unfolding half_ok_def side_ok_def recv_side_def by blast+

end

lemma hist_fin_start:
  assumes "hist_ok S c H" "ended H"
  shows "length S \<le> seg_F H + mss"
proof -
  obtain us l where H: "H = us @ [l]"
    using assms(2) by (cases H rule: rev_cases) (auto simp: ended_def)
  then have "unat (sb_start l) = length (blocks_data us)" "S = blocks_data us @ sb_data l" "sb_len l \<le> mss"
    using assms by (auto simp: hist_ok_def)
  then show ?thesis
    using assms(2) H by (simp add: seg_F_def sb_len_def)
qed

lemma side_exec_step: "side_exec I rb config net now a x = Some x' \<Longrightarrow> side_step I rb config net x x'"
  by (auto simp: side_exec_def Let_def split: action.splits sum.splits prod.splits if_splits
      intro: side_step.intros nth_mem)

lemma conn_exec_reach:
  assumes "conn_reach I rb config c" "conn_exec I rb config as c = Some c'"
  shows "conn_reach I rb config c'"
  using assms
proof (induction I rb config as c rule: conn_exec.induct)
  case (2 I rb config now a as x y)
  then obtain x1 where x1: "side_exec I rb config (sd_out y) now a x = Some x1"
    "conn_exec I rb config as (x1, y) = Some c'"
    by (auto simp: bind_eq_Some_conv)
  show ?case
    by (rule "2.IH" [OF x1(1) conn_reach.step [OF "2.prems"(1) conn_step.left [OF side_exec_step [OF x1(1)]]] x1(2)])
next
  case (3 I rb config now a as x y)
  then obtain y1 where y1: "side_exec I rb config (sd_out x) now a y = Some y1"
    "conn_exec I rb config as (x, y1) = Some c'"
    by (auto simp: bind_eq_Some_conv)
  show ?case
    by (rule "3.IH" [OF y1(1) conn_reach.step [OF "3.prems"(1) conn_step.right [OF side_exec_step [OF y1(1)]]] y1(2)])
qed simp

lemma demo_run_reach:
  "demo_run buffer as = Some c \<Longrightarrow> conn_reach fixed_cc list_ring (demo_config buffer) c"
  unfolding demo_run_def demo_conn_def Let_def by (rule conn_exec_reach [OF conn_reach.init])

lemmas run_defs = demo_run_def demo_conn_def demo_config_def side_new_def package_stream_new_def wp_new_def
  rp_new_def send_queue_new_def recv_queue_new_def list_ring_def side_exec_def fixed_cc_def Let_def
  ps_poll_write_def ps_poll_close_def ps_close_def ps_poll_read_def ps_tick_def ps_on_package_def
  side_send_def send_packages_def later_def sent_bytes_def last_packet_number_def counts_as_data_def
  wp_write_def wp_close_def wp_on_sent_def wp_check_wnd_def wp_on_package_def wp_on_acked_def wp_reply_sample_def
  on_pre_send_package_def is_sample_def list_back_def sq_check_wnd_def used_def remain_def block_end_def
  alloc_blocks_def alloc_taken_def alloc_rest_def enter_nagle_def copy_at_def sq_close_def
  alloc_block_from_owned_def alloc_block_from_shared_def confirm_def sb_len_def sb_end_def to_session_data_def
  cc_new_def cc_cwnd_def cc_on_sent_def cc_on_ack_def touch_ack_def
  rp_on_package_def rp_pushed_def rp_wake_def rp_read_def rp_impl_read_def push_ack_def ack_package_def
  rq_push_def drain_def push_stream_def read_stream_def stream_end_def stream_len_def stream_pos_end_def
  check_close_waiting_def insert_block_def alloc_block_def accepted_def from_micros_def
  session_data_new_def is_flags_contain_def flags_add_def is_syn_def is_syn_ack_def is_reset_def
  is_ctrl_package_def opt_list_def mss_def MTU_def sessiondata_flag_defs
  increase_id_generator_new_def increase_id_generate_def checked_sub_def rassert_def
  ack_est_package_def wp_on_estimate_ack_def rp_on_time_escape_def wp_on_time_escape_def
  wp_impl_on_time_escape_def wp_check_lost_def check_nagle_def check_timeout_def checked_sub_u64_def
  cc_on_estimate_def est_update_def est_first_def est_min_def estimate_rtt_new_def as_i64_def as_micros_def

text \<open>The schedules that the examples use: three bytes are written and the stream is closed, and the
  final package reaches the other side, which then reads; at last, the sender gets the answers.\<close>

definition sent_run :: "(end_point \<times> u64 \<times> action) list" where
  "sent_run = [(LeftEnd, 5, AWrite [1, 2, 3]), (LeftEnd, 6, AClose)]"

definition read_run :: "(end_point \<times> u64 \<times> action) list" where
  "read_run = sent_run @ [(RightEnd, 7, ADeliver 0), (RightEnd, 8, ARead 9)]"

lemma demo_buffer [simp]: "cfg_recv_buffer (demo_config n) = n"
  by (simp add: demo_config_def)

lemma send_packages_closed:
  "send_packages I rb t sent ps s = (out, s') \<Longrightarrow> ps_write s' = WClosed \<longleftrightarrow> ps_write s = WClosed"
  by (auto simp: send_packages_def Let_def wp_on_sent_def split: if_splits prod.splits write_state.splits)

lemma on_package_closes:
  assumes "ps_on_package I rb config t sent p s = Inr ((ret, woken, out), s')" "ps_write s' = WClosed"
    "\<not> is_reset p" "ps_write s \<noteq> WClosed"
  shows "\<exists>r ps woken. wp_on_package I config t p [] (ps_write s) = Inr ((r, ps, woken), WClosed)"
proof -
  obtain ps s1 where s1: "(if is_syn_ack p then Inr ((Handled, [], [session_data_new]), s)
        else
          rbind (if is_reset p then
                   (case wp_reset (ps_write s) of (woken, w) \<Rightarrow> Inr ((Continue, [], woken), w))
                 else wp_on_package I config t p [] (ps_write s)) (\<lambda>((r, packages, woken), w).
            let s = s\<lparr>ps_write := w\<rparr> in
            case r of
              Continue \<Rightarrow>
                rbind (rp_on_package rb config (later 3 t) p packages (ps_read s)) (\<lambda>((packages, woken'), r).
                  Inr ((Handled, woken @ woken', packages), s\<lparr>ps_read := r\<rparr>))
            | Handled \<Rightarrow> Inr ((Handled, woken, packages), s)
            | Break \<Rightarrow> Inl Panic)) = (Inr ((ret, woken, ps), s1) :: _ result)"
    "send_packages I rb (later 6 t) sent ps s1 = (out, s')"
    using assms(1) unfolding ps_on_package_def by (rule rbind_send_packages)
  have "ps_write s1 = WClosed"
    using send_packages_closed [OF s1(2)] assms(2) by simp
  moreover obtain r ps' wk w where w: "wp_on_package I config t p [] (ps_write s) = Inr ((r, ps', wk), w)"
    "\<not> is_syn_ack p"
    using s1(1) assms(3,4) \<open>ps_write s1 = WClosed\<close> by (auto simp: rbind_eq_Inr split: if_splits)
  moreover have "ps_write s1 = w"
    using s1(1) assms(3) w by (cases r) (auto simp: rbind_eq_Inr)
  ultimately show ?thesis
    by auto
qed

lemma read_run_conn:
  obtains x y where "demo_run 10 read_run = Some (x, y)" "sd_written x = [1, 2, 3]" "sd_read y = [1, 2, 3]"
    "conn_reach fixed_cc list_ring (demo_config 10) (x, y)" "sd_closed x" "\<not> sd_shut y"
proof -
  have "map_option (\<lambda>(x, y). (sd_written x, sd_read y, sd_closed x, sd_shut y)) (demo_run 10 read_run) =
      Some ([1, 2, 3], [1, 2, 3], True, False)"
    by (simp add: run_defs read_run_def sent_run_def)
  then show ?thesis
    using that demo_run_reach by (auto split: prod.splits)
qed

text \<open>C1: Two streams are connected by a network that may lose, repeat, delay and reorder packages. What an
  application has read is, at every moment, a prefix of what the application at the other end has
  written: no byte is lost, repeated, reordered or made up, in either direction.\<close>

theorem stream_in_order:
  assumes "ring_buffer rb content cap" and "cfg_recv_buffer config < 2 ^ 64"
    and "conn_reach I rb config (x, y)"
  shows "prefix (sd_read y) (sd_written x) \<and> prefix (sd_read x) (sd_written y)"
proof -
  obtain H G where "half_ok rb content cap config H G x y" "half_ok rb content cap config G H y x"
    using ring_buffer.conn_reach_ok [OF assms(1,3,2)] by (auto simp: conn_ok_def)
  then show ?thesis
    using ring_buffer.half_prefix(1) [OF assms(1)] by blast
qed

theorem stream_in_order_witness:
  "\<exists>x y. conn_reach fixed_cc list_ring (demo_config 10) (x, y) \<and> sd_read y = [1, 2, 3] \<and>
     prefix (sd_read y) (sd_written x)"
proof -
  obtain x y where r: "sd_read y = [1, 2, 3]" "conn_reach fixed_cc list_ring (demo_config 10) (x, y)"
    by (rule read_run_conn)
  have "prefix (sd_read y) (sd_written x)"
    using stream_in_order [OF list_ring.ring_buffer_axioms _ r(2)] by simp
  then show ?thesis
    using r by blast
qed

text \<open>C8: A sender drops bytes from its queue only when the receiver at the other end has them: the start of
  the queue never passes the position up to which the receiver holds the stream, and that position
  never passes what was written.\<close>

theorem acked_is_received:
  assumes "ring_buffer rb content cap" and "cfg_recv_buffer config < 2 ^ 64"
    and "conn_reach I rb config (x, y)" and "ps_write (sd_ps x) = WOpen w"
  shows "unat (sq_start (wq w)) \<le> recv_end rb (ps_read (sd_ps y)) \<and>
    recv_end rb (ps_read (sd_ps y)) \<le> length (sd_written x)"
proof -
  obtain H G where h: "half_ok rb content cap config H G x y" "half_ok rb content cap config G H y x"
    using ring_buffer.conn_reach_ok [OF assms(1,3,2)] by (auto simp: conn_ok_def)
  have "wstart (ps_write (sd_ps x)) = Some (unat (sq_start (wq w)))"
    using assms(4) by (simp add: wstart_def)
  then show ?thesis
    using h(1) ring_buffer.half_prefix(2) [OF assms(1) h(2)] unfolding half_ok_def by blast
qed

theorem acked_is_received_witness:
  "\<exists>x y w. conn_reach fixed_cc list_ring (demo_config 10) (x, y) \<and> ps_write (sd_ps x) = WOpen w \<and>
     unat (sq_start (wq w)) \<le> recv_end list_ring (ps_read (sd_ps y))"
proof -
  have "map_option (\<lambda>(x, y). ps_write (sd_ps x) \<noteq> WClosed) (demo_run 10 read_run) = Some True"
    by (simp add: run_defs read_run_def sent_run_def)
  then obtain x y w where r: "demo_run 10 read_run = Some (x, y)" "ps_write (sd_ps x) = WOpen w"
    by (cases "demo_run 10 read_run") (auto, metis write_state.exhaust)
  note reach = demo_run_reach [OF r(1)]
  have "unat (sq_start (wq w)) \<le> recv_end list_ring (ps_read (sd_ps y))"
    using acked_is_received [OF list_ring.ring_buffer_axioms _ reach r(2)] by simp
  then show ?thesis
    using r(2) reach by blast
qed

text \<open>C9: A sender that closes because of a package, other than a reset, is one whose application has closed
  the stream, and every byte of it is at the receiver.\<close>

theorem close_means_delivered:
  assumes "ring_buffer rb content cap" and "cfg_recv_buffer config < 2 ^ 64"
    and "conn_reach I rb config (x, y)" and "p \<in> set (sd_out y)" and "\<not> is_reset p"
    and "ps_write (sd_ps x) \<noteq> WClosed"
    and "ps_on_package I rb config t sent p (sd_ps x) = Inr ((ret, woken, out), s)"
    and "ps_write s = WClosed"
  shows "sd_closed x \<and> recv_end rb (ps_read (sd_ps y)) = length (sd_written x)"
proof -
  obtain H G where h: "half_ok rb content cap config H G x y" "half_ok rb content cap config G H y x"
    using ring_buffer.conn_reach_ok [OF assms(1,3,2)] by (auto simp: conn_ok_def)
  have ok: "hist_ok (sd_written x) (sd_closed x) H" "sender_st H (sd_written x) (sd_closed x) (ps_write (sd_ps x))"
    using h(1) by (simp_all add: half_ok_def side_ok_def)
  have ack: "unat (ack_stream_pos p) \<le> recv_end rb (ps_read (sd_ps y))"
    using h(2) assms(4) by (simp add: half_ok_def side_ok_def out_ok_def)
  obtain r ps woken where "wp_on_package I config t p [] (ps_write (sd_ps x)) = Inr ((r, ps, woken), WClosed)"
    using on_package_closes [OF assms(7,8,5,6)] by blast
  from wp_on_package_ok(3) [OF ok _ this] assms(6)
  have "sd_closed x" "length (sd_written x) \<le> unat (ack_stream_pos p)"
    by (auto simp: wstart_def split: write_state.splits)
  then show ?thesis
    using ack ring_buffer.half_prefix(2) [OF assms(1) h(2)] by simp
qed

theorem close_means_delivered_witness:
  "\<exists>x y. conn_reach fixed_cc list_ring (demo_config 10) (x, y) \<and> ps_write (sd_ps x) \<noteq> WClosed \<and>
     sd_closed x \<and> recv_end list_ring (ps_read (sd_ps y)) = length (sd_written x)"
proof -
  let ?on = "\<lambda>x y. ps_on_package fixed_cc list_ring (demo_config 10) (\<lambda>_. 9) (\<lambda>_. None) (sd_out y ! 1) (sd_ps x)"
  have "map_option (\<lambda>(x, y). (ps_write (sd_ps x) = WClosed, length (sd_out y), is_reset (sd_out y ! 1),
      isl (?on x y), ps_write (snd (projr (?on x y))))) (demo_run 10 read_run) = Some (False, 2, False, False, WClosed)"
    by (simp add: run_defs read_run_def sent_run_def)
  then obtain x y where r: "demo_run 10 read_run = Some (x, y)" "ps_write (sd_ps x) \<noteq> WClosed"
    "length (sd_out y) = 2" "\<not> is_reset (sd_out y ! 1)" "\<not> isl (?on x y)" "ps_write (snd (projr (?on x y))) = WClosed"
    by (cases "demo_run 10 read_run") auto
  obtain ret woken out s where "?on x y = Inr ((ret, woken, out), s)"
    using r(5) by (metis sum.collapse(2) prod.exhaust)
  moreover have "sd_out y ! 1 \<in> set (sd_out y)" "ps_write s = WClosed"
    using r(3,6) calculation by simp_all
  ultimately have "sd_closed x \<and> recv_end list_ring (ps_read (sd_ps y)) = length (sd_written x)"
    using close_means_delivered [OF list_ring.ring_buffer_axioms _ demo_run_reach [OF r(1)] _ r(4,2)] by simp
  then show ?thesis
    using r(2) demo_run_reach [OF r(1)] by blast
qed

text \<open>C7: When a read with room in its buffer returns no byte, and the application has not shut down reading,
  then the application at the other end has closed its stream, and everything it wrote has been read
  except at most one block, the final one. Nothing at all is missing if the stream is no longer than
  the receive buffer.\<close>

theorem eof_after_all_but_final_block:
  assumes "ring_buffer rb content cap" and "cfg_recv_buffer config < 2 ^ 64"
    and "conn_reach I rb config (x, y)" and "\<not> sd_shut y" and "n > 0"
    and "ps_poll_read rb config t waker n (sd_ps y) = ((Ready (Inr 0), d, tm), s)"
  shows "sd_closed x \<and> prefix (sd_read y) (sd_written x) \<and> length (sd_written x) \<le> length (sd_read y) + mss \<and>
    (length (sd_written x) \<le> cfg_recv_buffer config \<longrightarrow> sd_read y = sd_written x)"
proof -
  obtain H G where h: "half_ok rb content cap config H G x y" "half_ok rb content cap config G H y x"
    using ring_buffer.conn_reach_ok [OF assms(1,3,2)] by (auto simp: conn_ok_def)
  let ?K = "word_of_nat (cfg_recv_buffer config) :: u64"
  have hist: "hist_ok (sd_written x) (sd_closed x) H"
    using h(1) by (simp add: half_ok_def side_ok_def)
  have "recv_ok rb content cap ?K (seg_B H) (seg_F H) (sd_written x) (ended H) False (sd_read y) (ps_read (sd_ps y))"
    using h(2) assms(4) by (simp add: half_ok_def side_ok_def recv_side_def)
  moreover obtain r where "rp_read rb config t waker n (ps_read (sd_ps y)) = ((Ready (Inr 0), d, tm), r)"
    using assms(6) by (auto simp: ps_poll_read_def split: prod.splits)
  ultimately have e: "end_ok ?K (seg_F H) (sd_written x) (ended H) (length (sd_read y))"
    using ring_buffer.rp_read_eof [OF assms(1) _ assms(5)] by blast
  have "unat ?K = cfg_recv_buffer config"
    using assms(2) by (simp add: unat_of_nat take_bit_nat_eq_self)
  moreover have pre: "prefix (sd_read y) (sd_written x)"
    by (rule ring_buffer.half_prefix(1) [OF assms(1) h(2)])
  moreover have "sd_read y = sd_written x" if "length (sd_read y) = length (sd_written x)"
    using pre that by (auto simp: prefix_def)
  ultimately show ?thesis
    using e hist hist_fin_start [OF hist] by (auto simp: end_ok_def hist_ok_def)
qed

theorem eof_after_all_but_final_block_witness:
  "\<exists>x y. conn_reach fixed_cc list_ring (demo_config 10) (x, y) \<and> sd_closed x \<and> sd_read y = sd_written x \<and>
     sd_read y = [1, 2, 3]"
proof -
  have "map_option (\<lambda>(x, y). (sd_read y, length (sd_written x), sd_shut y,
      fst (fst (ps_poll_read list_ring (demo_config 10) (\<lambda>_. 9) 0 5 (sd_ps y))))) (demo_run 10 read_run) =
    Some ([1, 2, 3], 3, False, Ready (Inr 0))"
    by (simp add: run_defs read_run_def sent_run_def)
  then obtain x y where r: "demo_run 10 read_run = Some (x, y)" "sd_read y = [1, 2, 3]" "length (sd_written x) = 3"
    "\<not> sd_shut y" "fst (fst (ps_poll_read list_ring (demo_config 10) (\<lambda>_. 9) 0 5 (sd_ps y))) = Ready (Inr 0)"
    by (cases "demo_run 10 read_run") auto
  obtain d tm s where "ps_poll_read list_ring (demo_config 10) (\<lambda>_. 9) 0 5 (sd_ps y) = ((Ready (Inr 0), d, tm), s)"
    using r(5) by (metis prod.exhaust_sel)
  note eof_after_all_but_final_block [OF list_ring.ring_buffer_axioms _ demo_run_reach [OF r(1)] r(4) _ this]
  then have "sd_closed x \<and> sd_read y = sd_written x"
    using r(3) by simp
  then show ?thesis
    using r(2) demo_run_reach [OF r(1)] by blast
qed

text \<open>C10: The final block can be missing. The receiver takes a final package without a check of its window:
  with a buffer of two bytes and a final package of three, the reader gets two bytes and then the end
  of the stream, though the peer wrote three. The receiver ignores the package when it is sent again.\<close>

theorem eof_truncates_stream:
  "\<exists>x y. demo_run 2 (read_run @ [(RightEnd, 9, ADeliver 0), (RightEnd, 10, ARead 9)]) = Some (x, y) \<and>
     conn_reach fixed_cc list_ring (demo_config 2) (x, y) \<and> sd_written x = [1, 2, 3] \<and> sd_read y = [1, 2] \<and>
     fst (fst (ps_poll_read list_ring (demo_config 2) (\<lambda>_. 11) 0 9 (sd_ps y))) = Ready (Inr 0)"
proof -
  let ?as = "read_run @ [(RightEnd, 9, ADeliver 0), (RightEnd, 10, ARead 9)]"
  have "map_option (\<lambda>(x, y). (sd_written x, sd_read y,
      fst (fst (ps_poll_read list_ring (demo_config 2) (\<lambda>_. 11) 0 9 (sd_ps y))))) (demo_run 2 ?as) =
    Some ([1, 2, 3], [1, 2], Ready (Inr 0))"
    by (simp add: run_defs read_run_def sent_run_def)
  then obtain x y where "demo_run 2 ?as = Some (x, y)" "sd_written x = [1, 2, 3]" "sd_read y = [1, 2]"
    "fst (fst (ps_poll_read list_ring (demo_config 2) (\<lambda>_. 11) 0 9 (sd_ps y))) = Ready (Inr 0)"
    by (cases "demo_run 2 ?as") auto
  then show ?thesis
    using demo_run_reach by blast
qed

text \<open>C5: As long as the clock does not run backwards past the times that the sending half has recorded, no
  step of a stream panics: neither a package of the peer, delayed and repeated as it may be, nor the
  timer, nor a write or a close.\<close>

theorem stream_never_panics:
  assumes "ring_buffer rb content cap" and "cfg_recv_buffer config < 2 ^ 64"
    and "conn_reach I rb config (x, y)"
    and "\<forall>w. ps_write (sd_ps x) = WOpen w \<longrightarrow>
      last_recv w \<le> t 0 \<and> (\<forall>s\<in>set (est_stubs w). stub_send_time s \<le> t 1)"
  shows "(\<forall>p\<in>set (sd_out y). \<exists>r s. ps_on_package I rb config t sent p (sd_ps x) = Inr (r, s)) \<and>
    (\<exists>r s. ps_tick I rb config t sent (sd_ps x) = Inr (r, s)) \<and>
    (\<exists>r s. ps_poll_close I rb t sent waker (sd_ps x) = Inr (r, s)) \<and>
    (\<not> sd_closed x \<and> length (sd_written x) + length buf < 2 ^ 64 \<longrightarrow>
       (\<exists>r s. ps_poll_write I rb t sent waker buf (sd_ps x) = Inr (r, s)))"
proof -
  obtain H G where h: "half_ok rb content cap config H G x y" "half_ok rb content cap config G H y x"
    using ring_buffer.conn_reach_ok [OF assms(1,3,2)] by (auto simp: conn_ok_def)
  have x: "side_ok rb content cap config H G (sd_written y) x"
    using h(1) by (simp add: half_ok_def)
  have y: "hist_ok (sd_written y) (sd_closed y) G" "\<forall>p\<in>set (sd_out y). net_ok G (recv_end rb (ps_read (sd_ps y))) p"
    using h(2) by (simp_all add: half_ok_def side_ok_def out_ok_def net_ok_def)
  have "\<exists>r s. ps_on_package I rb config t sent p (sd_ps x) = Inr (r, s)" if "p \<in> set (sd_out y)" for p
    by (rule ring_buffer.on_package_safe [OF assms(1) x y(1)]) (use that y(2) assms(4) in blast)+
  moreover have "\<exists>r s. ps_tick I rb config t sent (sd_ps x) = Inr (r, s)"
    by (rule ring_buffer.tick_safe [OF assms(1) x]) (use assms(4) in blast)
  ultimately show ?thesis
    using ring_buffer.close_safe [OF assms(1) x] ring_buffer.write_safe [OF assms(1) x] by blast
qed

theorem stream_never_panics_witness:
  "\<exists>x y. demo_run 10 read_run = Some (x, y) \<and> sd_out y \<noteq> [] \<and>
     (\<forall>p\<in>set (sd_out y). \<exists>r s. ps_on_package fixed_cc list_ring (demo_config 10) (\<lambda>_. 9) (\<lambda>_. None) p (sd_ps x) = Inr (r, s))"
proof -
  have "map_option (\<lambda>(x, y). (sd_out y = [], case ps_write (sd_ps x) of WOpen w \<Rightarrow>
      (last_recv w \<le> 9, list_all (\<lambda>s. stub_send_time s \<le> 9) (est_stubs w)) | WClosed \<Rightarrow> (False, False)))
      (demo_run 10 read_run) = Some (False, True, True)"
    by (simp add: run_defs read_run_def sent_run_def)
  then obtain x y where r: "demo_run 10 read_run = Some (x, y)" "sd_out y \<noteq> []"
    "case ps_write (sd_ps x) of WOpen w \<Rightarrow> last_recv w \<le> 9 \<and> list_all (\<lambda>s. stub_send_time s \<le> 9) (est_stubs w)
       | WClosed \<Rightarrow> False"
    by (cases "demo_run 10 read_run") (auto split: write_state.splits)
  have clock: "\<forall>w. ps_write (sd_ps x) = WOpen w \<longrightarrow>
      last_recv w \<le> 9 \<and> (\<forall>s\<in>set (est_stubs w). stub_send_time s \<le> 9)"
    using r(3) by (auto simp: list_all_iff)
  have "\<forall>p\<in>set (sd_out y). \<exists>r s. ps_on_package fixed_cc list_ring (demo_config 10) (\<lambda>_. 9) (\<lambda>_. None) p (sd_ps x) = Inr (r, s)"
    using stream_never_panics [OF list_ring.ring_buffer_axioms _ demo_run_reach [OF r(1)], of "\<lambda>_. 9" "\<lambda>_. None"] clock
    by simp
  then show ?thesis
    using r(1,2) by blast
qed

end
