(* ===== verification/GroupBlock.thy ===== *)
theory GroupBlock
  imports ErrorCode
begin

text \<open>
  The blocks and certificates of the group consensus, from \<^verbatim>\<open>cyfs-core/src/group/group_consensus_block.rs\<close> and
  \<^verbatim>\<open>cyfs-group-lib/src/objects/certificate.rs\<close>, and the committee that verifies them, from
  \<^verbatim>\<open>cyfs-group/src/consensus/vote/committee.rs\<close>. Object identifiers are the 32 bytes of the source as
  a word; rounds, heights and times are natural numbers. What the code asks the outside world, the
  members of a group, devices, blocks of other nodes, hashes and signatures, is a record of functions.
\<close>

subsection \<open>Certificates and blocks\<close>

type_synonym object_id = "256 word"

record qc_sign =
  qs_voter :: object_id
  qs_signature :: bytes

record block_qc =
  qc_block_id :: object_id
  qc_prev_block_id :: "object_id option"
  qc_round :: nat
  qc_votes :: "qc_sign list"

record timeout_sign =
  ts_voter :: object_id
  ts_high_qc_round :: nat
  ts_signature :: bytes

record hotstuff_timeout =
  tc_round :: nat
  tc_votes :: "timeout_sign list"
  tc_group_shell_id :: "object_id option"

record block_proposal =
  bp_proposal :: object_id
  bp_result_state :: "object_id option"
  bp_receipt :: "bytes option"
  bp_context :: "bytes option"

datatype sign_source = SsRefIndex u8 | SsObject object_id | SsKey bytes

record block_sign =
  bs_source :: sign_source
  bs_data :: bytes

record group_rpath =
  rp_group_id :: object_id
  rp_dec_id :: object_id
  rp_rpath :: bytes

record block_desc =
  gd_rpath :: group_rpath
  gd_result_state_id :: "object_id option"
  gd_height :: nat
  gd_meta_block_id :: object_id
  gd_body_hash :: bytes
  gd_round :: nat
  gd_group_shell_id :: object_id
  gd_owner :: "object_id option"
  gd_create_time :: nat

record block_body =
  gy_proposals :: "block_proposal list"
  gy_qc :: "block_qc option"
  gy_tc :: "hotstuff_timeout option"

datatype check_state = CheckNone | CheckSucc | CheckFail

record group_block =
  gb_desc :: block_desc
  gb_body :: block_body
  gb_signs :: "block_sign list option"
  gb_state :: check_state
  gb_id :: object_id

definition block_rpath :: "group_block \<Rightarrow> group_rpath" where
  "block_rpath b = gd_rpath (gb_desc b)"

definition block_proposals :: "group_block \<Rightarrow> block_proposal list" where
  "block_proposals b = gy_proposals (gb_body b)"

definition result_state_id :: "group_block \<Rightarrow> object_id option" where
  "result_state_id b = gd_result_state_id (gb_desc b)"

definition block_height :: "group_block \<Rightarrow> nat" where
  "block_height b = gd_height (gb_desc b)"

definition block_round :: "group_block \<Rightarrow> nat" where
  "block_round b = gd_round (gb_desc b)"

definition block_shell :: "group_block \<Rightarrow> object_id" where
  "block_shell b = gd_group_shell_id (gb_desc b)"

definition block_owner :: "group_block \<Rightarrow> object_id result" where
  "block_owner b = (case gd_owner (gb_desc b) of Some v \<Rightarrow> Inr v | None \<Rightarrow> Inl Panic)"

definition block_time :: "group_block \<Rightarrow> nat" where
  "block_time b = gd_create_time (gb_desc b)"

definition block_qc_of :: "group_block \<Rightarrow> block_qc option" where
  "block_qc_of b = gy_qc (gb_body b)"

definition block_tc_of :: "group_block \<Rightarrow> hotstuff_timeout option" where
  "block_tc_of b = gy_tc (gb_body b)"

definition prev_block_id :: "group_block \<Rightarrow> object_id option" where
  "prev_block_id b = map_option qc_block_id (block_qc_of b)"

definition qc_round_of :: "block_qc option \<Rightarrow> nat" where
  "qc_round_of qc = (case qc of None \<Rightarrow> 0 | Some q \<Rightarrow> qc_round q)"

lemmas block_defs = block_rpath_def block_proposals_def result_state_id_def block_height_def block_round_def block_shell_def
  block_owner_def block_time_def block_qc_of_def block_tc_of_def prev_block_id_def

text \<open>The hash of a body and the identifier of a description are taken by the named-object library.\<close>

definition block_create :: "(block_body \<Rightarrow> bytes) \<Rightarrow> (block_desc \<Rightarrow> object_id) \<Rightarrow> nat \<Rightarrow> group_rpath \<Rightarrow>
    block_proposal list \<Rightarrow> object_id option \<Rightarrow> nat \<Rightarrow> object_id \<Rightarrow> nat \<Rightarrow> object_id \<Rightarrow> block_qc option \<Rightarrow> hotstuff_timeout option \<Rightarrow> object_id \<Rightarrow>
    group_block" where
  "block_create body_hash calc_id now rpath proposals state height meta round shell qc tc owner =
     (let tc = map_option (\<lambda>tc. if tc_group_shell_id tc = Some shell then tc\<lparr>tc_group_shell_id := None\<rparr> else tc) tc;
          body = \<lparr>gy_proposals = proposals, gy_qc = qc, gy_tc = tc\<rparr>;
          desc = \<lparr>gd_rpath = rpath, gd_result_state_id = state, gd_height = height, gd_meta_block_id = meta,
            gd_body_hash = body_hash body, gd_round = round,
            gd_group_shell_id = shell, gd_owner = Some owner, gd_create_time = now\<rparr>
      in \<lparr>gb_desc = desc, gb_body = body, gb_signs = None, gb_state = CheckSucc, gb_id = calc_id desc\<rparr>)"

definition block_check :: "(block_body \<Rightarrow> bytes) \<Rightarrow> group_block \<Rightarrow> bool \<times> group_block" where
  "block_check body_hash b =
     (case gb_state b of
        CheckNone \<Rightarrow>
          if (block_proposals b = [] \<or> bp_result_state (last (block_proposals b)) = result_state_id b) \<and>
             gd_owner (gb_desc b) \<noteq> None \<and> body_hash (gb_body b) = gd_body_hash (gb_desc b)
          then (True, b\<lparr>gb_state := CheckSucc\<rparr>) else (False, b\<lparr>gb_state := CheckFail\<rparr>)
      | CheckSucc \<Rightarrow> (True, b)
      | CheckFail \<Rightarrow> (False, b))"

subsection \<open>Votes\<close>

record qc_vote =
  qv_block_id :: object_id
  qv_prev_block_id :: "object_id option"
  qv_round :: nat
  qv_voter :: object_id
  qv_signature :: bytes

record timeout_vote =
  tv_high_qc :: "block_qc option"
  tv_round :: nat
  tv_voter :: object_id
  tv_signature :: bytes
  tv_group_shell_id :: object_id

definition round_bytes :: "nat \<Rightarrow> bytes" where
  "round_bytes r = to_le_bytes (word_of_nat r :: u64)"

definition vote_content :: "object_id \<Rightarrow> object_id option \<Rightarrow> nat \<Rightarrow> bytes" where
  "vote_content block_id prev round =
     to_be_bytes block_id @ round_bytes round @ (case prev of Some p \<Rightarrow> to_be_bytes p | None \<Rightarrow> [])"

definition timeout_content :: "nat \<Rightarrow> nat \<Rightarrow> object_id \<Rightarrow> bytes" where
  "timeout_content high_qc_round round shell = round_bytes high_qc_round @ round_bytes round @ to_be_bytes shell"

definition vote_hash :: "(bytes \<Rightarrow> bytes) \<Rightarrow> qc_vote \<Rightarrow> bytes" where
  "vote_hash sha256 v = sha256 (vote_content (qv_block_id v) (qv_prev_block_id v) (qv_round v))"

definition timeout_hash :: "(bytes \<Rightarrow> bytes) \<Rightarrow> timeout_vote \<Rightarrow> bytes" where
  "timeout_hash sha256 v = sha256 (timeout_content (qc_round_of (tv_high_qc v)) (tv_round v) (tv_group_shell_id v))"

text \<open>\<open>sign\<close> is the signer of the local device.\<close>

definition qc_vote_new :: "(bytes \<Rightarrow> bytes) \<Rightarrow> (bytes \<Rightarrow> bytes result) \<Rightarrow> group_block \<Rightarrow> object_id \<Rightarrow> qc_vote result" where
  "qc_vote_new sha256 sign b local_id =
     rbind (sign (sha256 (vote_content (gb_id b) (prev_block_id b) (block_round b)))) (\<lambda>s.
       Inr \<lparr>qv_block_id = gb_id b, qv_prev_block_id = prev_block_id b, qv_round = block_round b,
            qv_voter = local_id, qv_signature = s\<rparr>)"

definition timeout_vote_new :: "(bytes \<Rightarrow> bytes) \<Rightarrow> (bytes \<Rightarrow> bytes result) \<Rightarrow> object_id \<Rightarrow> block_qc option \<Rightarrow> nat \<Rightarrow>
    object_id \<Rightarrow> timeout_vote result" where
  "timeout_vote_new sha256 sign shell high_qc round local_id =
     rbind (sign (sha256 (timeout_content (qc_round_of high_qc) round shell))) (\<lambda>s.
       Inr \<lparr>tv_high_qc = high_qc, tv_round = round, tv_voter = local_id, tv_signature = s,
            tv_group_shell_id = shell\<rparr>)"

subsection \<open>Committee\<close>

record device =
  dev_id :: object_id
  dev_owner :: "object_id option"
  dev_key :: bytes

record group_info =
  gi_oods :: "object_id list"
  gi_shell_id :: object_id

record committee_env =
  ce_group :: "object_id option \<Rightarrow> group_info result"
  ce_local_group :: group_info
  ce_device :: "object_id \<Rightarrow> device result"
  ce_verify :: "bytes \<Rightarrow> bytes \<Rightarrow> bytes \<Rightarrow> bool"
  ce_verify_desc :: "bytes \<Rightarrow> group_block \<Rightarrow> block_sign \<Rightarrow> bool result"
  ce_get_block :: "object_id \<Rightarrow> group_block result"
  ce_sha256 :: "bytes \<Rightarrow> bytes"

text \<open>The voters are collected into a set first.\<close>

definition quorum_threshold :: "'e committee_env_scheme \<Rightarrow> object_id list \<Rightarrow> object_id option \<Rightarrow> bool result" where
  "quorum_threshold E voters shell =
     rbind (ce_group E shell) (\<lambda>group.
       let oods = gi_oods group in
       Inr (length (filter (\<lambda>v. v \<in> set oods) (remdups voters)) \<ge> length oods * 2 div 3 + 1))"

definition get_leader :: "'e committee_env_scheme \<Rightarrow> object_id option \<Rightarrow> nat \<Rightarrow> object_id result" where
  "get_leader E shell round =
     rbind (if shell = None then Inr (ce_local_group E) else ce_group E shell) (\<lambda>group.
       let oods = gi_oods group in
       if length oods = 0 then Inl Panic else Inr (oods ! (round mod length oods)))"

definition verify_sign :: "'e committee_env_scheme \<Rightarrow> bytes \<Rightarrow> object_id \<Rightarrow> bytes \<Rightarrow> unit result" where
  "verify_sign E hash voter sig =
     rbind (ce_device E voter) (\<lambda>device.
       if ce_verify E (dev_key device) hash sig then Inr () else Inl (Err InvalidSignature))"

definition verify_vote :: "'e committee_env_scheme \<Rightarrow> qc_vote \<Rightarrow> unit result" where
  "verify_vote E v = verify_sign E (vote_hash (ce_sha256 E) v) (qv_voter v) (qv_signature v)"

text \<open>All results are awaited, and the first error is returned.\<close>

fun first_error :: "unit result list \<Rightarrow> unit result" where
  "first_error [] = Inr ()"
| "first_error (r # rs) = (case r of Inl e \<Rightarrow> Inl e | Inr _ \<Rightarrow> first_error rs)"

definition verify_qc_with_desc :: "'e committee_env_scheme \<Rightarrow> block_qc \<Rightarrow> block_desc \<Rightarrow> unit result" where
  "verify_qc_with_desc E qc desc =
     (if qc_round qc \<noteq> gd_round desc then Inl (Err NotMatch)
      else rbind (quorum_threshold E (map qs_voter (qc_votes qc)) (Some (gd_group_shell_id desc))) (\<lambda>is_enough.
        if \<not> is_enough then Inl (Err InvalidSignature)
        else first_error (map (\<lambda>s. verify_vote E \<lparr>qv_block_id = qc_block_id qc, qv_prev_block_id = qc_prev_block_id qc,
               qv_round = qc_round qc, qv_voter = qs_voter s, qv_signature = qs_signature s\<rparr>) (qc_votes qc))))"

definition verify_qc :: "'e committee_env_scheme \<Rightarrow> block_qc \<Rightarrow> group_block \<Rightarrow> unit result" where
  "verify_qc E qc prev_block = verify_qc_with_desc E qc (gb_desc prev_block)"

definition verify_timeout :: "'e committee_env_scheme \<Rightarrow> timeout_vote \<Rightarrow> group_block option \<Rightarrow> unit result" where
  "verify_timeout E v prev_block =
     rbind (verify_sign E (timeout_hash (ce_sha256 E) v) (tv_voter v) (tv_signature v)) (\<lambda>_.
       case tv_high_qc v of
         None \<Rightarrow> Inr ()
       | Some high_qc \<Rightarrow>
           (case prev_block of
              None \<Rightarrow> Inl Panic
            | Some b \<Rightarrow> if block_round b \<noteq> qc_round high_qc then Inl (Err InvalidSignature) else verify_qc E high_qc b))"

definition verify_tc :: "'e committee_env_scheme \<Rightarrow> hotstuff_timeout \<Rightarrow> object_id \<Rightarrow> unit result" where
  "verify_tc E tc shell =
     (let tc_shell = (case tc_group_shell_id tc of Some s \<Rightarrow> s | None \<Rightarrow> shell) in
      rbind (quorum_threshold E (map ts_voter (tc_votes tc)) (Some tc_shell)) (\<lambda>is_enough.
        if \<not> is_enough then Inl (Err InvalidSignature)
        else first_error (map (\<lambda>s. verify_sign E
               (ce_sha256 E (timeout_content (ts_high_qc_round s) (tc_round tc) tc_shell))
               (ts_voter s) (ts_signature s)) (tc_votes tc))))"

text \<open>The signature of a member whose device belongs to the owner of the block.\<close>

fun find_block_sign :: "'e committee_env_scheme \<Rightarrow> group_block \<Rightarrow> object_id list \<Rightarrow> block_sign list \<Rightarrow> (device \<times> block_sign) result" where
  "find_block_sign E b oods [] = Inl (Err InvalidSignature)"
| "find_block_sign E b oods (s # ss) =
     (case bs_source s of
        SsObject obj \<Rightarrow>
          (case ce_device E obj of
             Inr device \<Rightarrow>
               if dev_id device \<in> set oods \<and> dev_owner device \<noteq> None \<and> gd_owner (gb_desc b) = dev_owner device
               then Inr (device, s) else find_block_sign E b oods ss
           | Inl (Err _) \<Rightarrow> find_block_sign E b oods ss
           | Inl f \<Rightarrow> Inl f)
      | _ \<Rightarrow> Inl (Err InvalidSignature))"

definition check_block_sign :: "'e committee_env_scheme \<Rightarrow> group_block \<Rightarrow> object_id list \<Rightarrow> bool result" where
  "check_block_sign E b oods =
     (case gb_signs b of
        Some (s # ss) \<Rightarrow>
          rbind (find_block_sign E b oods (s # ss)) (\<lambda>(device, sign). ce_verify_desc E (dev_key device) b sign)
      | _ \<Rightarrow> Inl (Err InvalidSignature))"

text \<open>A block whose content does not match its description is only logged.\<close>

definition verify_block :: "'e committee_env_scheme \<Rightarrow> group_block \<Rightarrow> unit result" where
  "verify_block E b =
     rbind (ce_group E (Some (block_shell b))) (\<lambda>group.
     rbind (check_block_sign E b (gi_oods group)) (\<lambda>ok.
       if \<not> ok then Inl (Err InvalidSignature)
       else
         rbind (case block_qc_of b of
                  Some qc \<Rightarrow> rbind (ce_get_block E (qc_block_id qc)) (\<lambda>prev_block. verify_qc E qc prev_block)
                | None \<Rightarrow> Inr ()) (\<lambda>_.
         case block_tc_of b of Some tc \<Rightarrow> verify_tc E tc (block_shell b) | None \<Rightarrow> Inr ())))"

definition verify_block_desc_with_qc :: "'e committee_env_scheme \<Rightarrow> object_id \<Rightarrow> block_desc \<Rightarrow> block_qc \<Rightarrow> unit result" where
  "verify_block_desc_with_qc E block_id desc qc =
     (if block_id \<noteq> qc_block_id qc then Inl (Err Unmatch)
      else rbind (ce_group E (Some (gd_group_shell_id desc))) (\<lambda>_. verify_qc_with_desc E qc desc))"

subsection \<open>Samples\<close>

text \<open>Blocks on top of each other, each by a leader whose clock is a little behind the last one's, and a
  committee of four whose keys prefix their signatures.\<close>

definition sample_block :: "nat \<Rightarrow> group_block" where
  "sample_block n =
     \<lparr>gb_desc = \<lparr>gd_rpath = \<lparr>rp_group_id = 1, rp_dec_id = 2, rp_rpath = []\<rparr>, gd_result_state_id = Some 7, gd_height = n,
        gd_meta_block_id = 0, gd_body_hash = [], gd_round = n, gd_group_shell_id = 3, gd_owner = Some 4, gd_create_time = 4000000000 - n\<rparr>,
      gb_body = \<lparr>gy_proposals = [\<lparr>bp_proposal = word_of_nat (100 + n), bp_result_state = Some 7, bp_receipt = None, bp_context = None\<rparr>],
        gy_qc = (if n = 1 then None else Some \<lparr>qc_block_id = word_of_nat (n - 1), qc_prev_block_id = None, qc_round = n - 1, qc_votes = []\<rparr>),
        gy_tc = None\<rparr>,
      gb_signs = None, gb_state = CheckSucc, gb_id = word_of_nat n\<rparr>"

definition sample_committee :: committee_env where
  "sample_committee =
     \<lparr>ce_group = (\<lambda>_. Inr \<lparr>gi_oods = [11, 12, 13, 14], gi_shell_id = 3\<rparr>), ce_local_group = \<lparr>gi_oods = [11, 12, 13, 14], gi_shell_id = 3\<rparr>,
      ce_device = (\<lambda>d. Inr \<lparr>dev_id = d, dev_owner = None, dev_key = [ucast d]\<rparr>), ce_verify = (\<lambda>key hash sig. sig = key @ hash),
      ce_verify_desc = (\<lambda>_ _ _. Inr True), ce_get_block = (\<lambda>_. Inl (Err NotFound)), ce_sha256 = (\<lambda>x. x)\<rparr>"

end
