(* ===== verification/VoteMgr.thy ===== *)
theory VoteMgr
  imports GroupBlock "HOL-Library.AList"
begin

text \<open>
  The collector of votes, \<^verbatim>\<open>cyfs-group/src/consensus/vote/vote_mgr.rs\<close>. A hash map is an association
  list. An operation returns its result and the state it leaves, which an error keeps. The lemmas show
  that a voter counts once, that a certificate has a quorum, and when every node verifies it.
\<close>

subsection \<open>Collecting the votes for a block\<close>

record qc_maker =
  qm_votes :: "(object_id \<times> bytes) list"
  qm_used :: "object_id set"
  qm_thresholded :: bool

definition qc_maker_new :: qc_maker where
  "qc_maker_new = \<lparr>qm_votes = [], qm_used = {}, qm_thresholded = False\<rparr>"

definition qc_maker_on_block :: "'e committee_env_scheme \<Rightarrow> group_block \<Rightarrow> qc_maker \<Rightarrow> block_qc option result \<times> qc_maker" where
  "qc_maker_on_block E b m =
     (if \<not> qm_thresholded m then
        (case quorum_threshold E (map fst (qm_votes m)) (Some (block_shell b)) of
           Inl e \<Rightarrow> (Inl e, m)
         | Inr th \<Rightarrow>
             (let m = m\<lparr>qm_thresholded := th\<rparr> in
              if th then
                (Inr (Some \<lparr>qc_block_id = gb_id b, qc_prev_block_id = prev_block_id b, qc_round = block_round b,
                   qc_votes = map (\<lambda>(voter, sig). \<lparr>qs_voter = voter, qs_signature = sig\<rparr>) (qm_votes m)\<rparr>), m)
              else (Inr None, m)))
      else (Inr None, m))"

definition qc_maker_append :: "'e committee_env_scheme \<Rightarrow> qc_vote \<Rightarrow> group_block option \<Rightarrow> qc_maker \<Rightarrow>
    block_qc option result \<times> qc_maker" where
  "qc_maker_append E vote block m =
     (if qv_voter vote \<in> qm_used m then (Inl (Err AlreadyExists), m)
      else
        let m = m\<lparr>qm_used := insert (qv_voter vote) (qm_used m), qm_votes := qm_votes m @ [(qv_voter vote, qv_signature vote)]\<rparr>
        in case block of
             Some b \<Rightarrow> qc_maker_on_block E b m
           | None \<Rightarrow> (Inr None, m))"

subsection \<open>Collecting the timeouts of a round\<close>

record tc_maker =
  tm_round :: nat
  tm_votes :: "timeout_vote list"
  tm_group_shell_id :: object_id
  tm_used :: "object_id set"
  tm_thresholded :: bool

definition tc_maker_new :: "nat \<Rightarrow> object_id \<Rightarrow> tc_maker" where
  "tc_maker_new round shell =
     \<lparr>tm_round = round, tm_votes = [], tm_group_shell_id = shell, tm_used = {}, tm_thresholded = False\<rparr>"

definition tc_maker_on_block :: "'e committee_env_scheme \<Rightarrow> tc_maker \<Rightarrow> hotstuff_timeout option result \<times> tc_maker" where
  "tc_maker_on_block E m =
     (if \<not> tm_thresholded m then
        (case quorum_threshold E (map tv_voter (tm_votes m)) (Some (tm_group_shell_id m)) of
           Inl e \<Rightarrow> (Inl e, m)
         | Inr th \<Rightarrow>
             (let m = m\<lparr>tm_thresholded := th\<rparr> in
              if th then
                (Inr (Some \<lparr>tc_round = tm_round m,
                   tc_votes = map (\<lambda>v. \<lparr>ts_voter = tv_voter v, ts_high_qc_round = qc_round_of (tv_high_qc v),
                     ts_signature = tv_signature v\<rparr>) (tm_votes m),
                   tc_group_shell_id = Some (tm_group_shell_id m)\<rparr>), m)
              else (Inr None, m)))
      else (Inr None, m))"

definition tc_maker_append :: "'e committee_env_scheme \<Rightarrow> timeout_vote \<Rightarrow> tc_maker \<Rightarrow> hotstuff_timeout option result \<times> tc_maker" where
  "tc_maker_append E timeout m =
     (if tm_round m \<noteq> tv_round timeout then (Inl Panic, m)
      else if tv_voter timeout \<in> tm_used m then (Inl (Err AlreadyExists), m)
      else tc_maker_on_block E
        (m\<lparr>tm_used := insert (tv_voter timeout) (tm_used m), tm_votes := tm_votes m @ [timeout]\<rparr>))"

subsection \<open>The vote manager\<close>

record vote_mgr =
  vm_round :: nat
  vm_blocks :: "(object_id \<times> group_block) list"
  vm_votes :: "(nat \<times> (object_id \<times> qc_maker) list) list"
  vm_timeouts :: "(nat \<times> (object_id \<times> tc_maker) list) list"

definition vote_mgr_new :: "nat \<Rightarrow> vote_mgr" where
  "vote_mgr_new round = \<lparr>vm_round = round, vm_blocks = [], vm_votes = [], vm_timeouts = []\<rparr>"

text \<open>The entry of a key in a map of maps, or a new one.\<close>

definition entry2 :: "('k \<times> ('l \<times> 'v) list) list \<Rightarrow> 'k \<Rightarrow> 'l \<Rightarrow> 'v option" where
  "entry2 m k l = Option.bind (map_of m k) (\<lambda>ms. map_of ms l)"

definition insert2 :: "'k \<Rightarrow> 'l \<Rightarrow> 'v \<Rightarrow> ('k \<times> ('l \<times> 'v) list) list \<Rightarrow> ('k \<times> ('l \<times> 'v) list) list" where
  "insert2 k l v m = AList.update k (AList.update l v (case map_of m k of Some ms \<Rightarrow> ms | None \<Rightarrow> [])) m"

definition add_voting_block :: "'e committee_env_scheme \<Rightarrow> group_block \<Rightarrow> vote_mgr \<Rightarrow> block_qc option result \<times> vote_mgr" where
  "add_voting_block E b vm =
     (if block_round b < vm_round vm then (Inr None, vm)
      else
        let vm = vm\<lparr>vm_blocks := AList.update (gb_id b) b (vm_blocks vm)\<rparr> in
        case entry2 (vm_votes vm) (block_round b) (gb_id b) of
          None \<Rightarrow> (Inr None, vm)
        | Some m \<Rightarrow>
            (case qc_maker_on_block E b m of
               (r, m') \<Rightarrow>
                 ((case r of Inr qc \<Rightarrow> Inr qc | Inl (Err _) \<Rightarrow> Inr None | Inl f \<Rightarrow> Inl f),
                  vm\<lparr>vm_votes := insert2 (block_round b) (gb_id b) m' (vm_votes vm)\<rparr>)))"

definition add_vote :: "'e committee_env_scheme \<Rightarrow> qc_vote \<Rightarrow> group_block option \<Rightarrow> vote_mgr \<Rightarrow>
    (block_qc \<times> group_block) option result \<times> vote_mgr" where
  "add_vote E vote block vm =
     (if \<not> (case block of None \<Rightarrow> True | Some b \<Rightarrow> gb_id b = qv_block_id vote) then (Inl Panic, vm)
      else
        let block_id = qv_block_id vote;
            vm = (case block of Some b \<Rightarrow> vm\<lparr>vm_blocks := AList.update block_id b (vm_blocks vm)\<rparr> | None \<Rightarrow> vm);
            block_ref = (case block of Some b \<Rightarrow> Some b | None \<Rightarrow> map_of (vm_blocks vm) block_id);
            m = (case entry2 (vm_votes vm) (qv_round vote) block_id of Some m \<Rightarrow> m | None \<Rightarrow> qc_maker_new)
        in case qc_maker_append E vote block_ref m of
             (r, m') \<Rightarrow>
               (rbind r (\<lambda>qc. case qc of
                  None \<Rightarrow> Inr None
                | Some qc \<Rightarrow> (case block of Some b \<Rightarrow> Inr (Some (qc, b)) | None \<Rightarrow> Inl Panic)),
                vm\<lparr>vm_votes := insert2 (qv_round vote) block_id m' (vm_votes vm)\<rparr>))"

definition add_timeout :: "'e committee_env_scheme \<Rightarrow> timeout_vote \<Rightarrow> vote_mgr \<Rightarrow> hotstuff_timeout option result \<times> vote_mgr" where
  "add_timeout E timeout vm =
     (let m = (case entry2 (vm_timeouts vm) (tv_round timeout) (tv_group_shell_id timeout) of
                 Some m \<Rightarrow> m | None \<Rightarrow> tc_maker_new (tv_round timeout) (tv_group_shell_id timeout))
      in case tc_maker_append E timeout m of
           (r, m') \<Rightarrow>
             (r, vm\<lparr>vm_timeouts := insert2 (tv_round timeout) (tv_group_shell_id timeout) m' (vm_timeouts vm)\<rparr>))"

definition vm_cleanup :: "nat \<Rightarrow> vote_mgr \<Rightarrow> vote_mgr" where
  "vm_cleanup round vm =
     vm\<lparr>vm_votes := filter (\<lambda>(k, _). k \<ge> round) (vm_votes vm),
        vm_timeouts := filter (\<lambda>(k, _). k \<ge> round) (vm_timeouts vm),
        vm_blocks := filter (\<lambda>(_, b). block_round b \<ge> round) (vm_blocks vm),
        vm_round := round\<rparr>"

subsection \<open>Tables of tables\<close>

lemma entry2_insert2: "entry2 (insert2 k l v m) k' l' = (if k = k' \<and> l = l' then Some v else entry2 m k' l')"
  by (auto simp: entry2_def insert2_def update_conv' split: option.splits)

lemma map_of_filter_key: "map_of (filter (\<lambda>(k, _). P k) m) k = (if P k then map_of m k else None)"
  by (induction m) auto

lemma entry2_filter: "entry2 (filter (\<lambda>(k, _). P k) m) k l = (if P k then entry2 m k l else None)"
  by (simp add: entry2_def map_of_filter_key)

definition all2 :: "('k \<Rightarrow> 'l \<Rightarrow> 'v \<Rightarrow> bool) \<Rightarrow> ('k \<times> ('l \<times> 'v) list) list \<Rightarrow> bool" where
  "all2 P m = (\<forall>k l v. entry2 m k l = Some v \<longrightarrow> P k l v)"

lemma all2_Nil [simp]: "all2 P []"
  by (simp add: all2_def entry2_def)

lemma all2D: "all2 P m \<Longrightarrow> entry2 m k l = Some v \<Longrightarrow> P k l v"
  by (simp add: all2_def)

lemma all2_insert2: "all2 P m \<Longrightarrow> P k l v \<Longrightarrow> all2 P (insert2 k l v m)"
  by (simp add: all2_def entry2_insert2)

lemma all2_filter: "all2 P m \<Longrightarrow> all2 P (filter (\<lambda>(k, _). Q k) m)"
  by (simp add: all2_def entry2_filter)

subsection \<open>Makers\<close>

text \<open>Both makers take every voter once.\<close>

locale vote_maker =
  fixes voters :: "'m \<Rightarrow> object_id list" and used :: "'m \<Rightarrow> object_id set"
    and voter :: "'v \<Rightarrow> object_id" and append_vote :: "'v \<Rightarrow> 'm \<Rightarrow> 'r \<times> 'm"
  assumes append_used: "voter v \<in> used m \<Longrightarrow> snd (append_vote v m) = m"
    and append_new: "voter v \<notin> used m \<Longrightarrow> snd (append_vote v m) = m \<or>
      voters (snd (append_vote v m)) = voters m @ [voter v] \<and> used (snd (append_vote v m)) = insert (voter v) (used m)"
begin

lemma append_once:
  assumes "distinct (voters m)" "used m = set (voters m)"
  shows "distinct (voters (snd (append_vote v m))) \<and> used (snd (append_vote v m)) = set (voters (snd (append_vote v m)))"
proof (cases "voter v \<in> used m")
  case True
  with assms show ?thesis by (simp only: append_used)
next
  case False
  from append_new [OF this] show ?thesis
  proof
    assume "snd (append_vote v m) = m"
    with assms show ?thesis by simp
  next
    assume "voters (snd (append_vote v m)) = voters m @ [voter v] \<and> used (snd (append_vote v m)) = insert (voter v) (used m)"
    with assms False show ?thesis by simp
  qed
qed

end

definition qc_voters :: "qc_maker \<Rightarrow> object_id list" where
  "qc_voters m = map fst (qm_votes m)"

definition tc_voters :: "tc_maker \<Rightarrow> object_id list" where
  "tc_voters m = map tv_voter (tm_votes m)"

lemma qc_on_block_keeps: "qm_votes (snd (qc_maker_on_block E b m)) = qm_votes m" "qm_used (snd (qc_maker_on_block E b m)) = qm_used m"
  by (auto simp: qc_maker_on_block_def Let_def split: sum.splits)

lemma tc_on_block_keeps: "tm_votes (snd (tc_maker_on_block E m)) = tm_votes m" "tm_used (snd (tc_maker_on_block E m)) = tm_used m"
  "tm_round (snd (tc_maker_on_block E m)) = tm_round m" "tm_group_shell_id (snd (tc_maker_on_block E m)) = tm_group_shell_id m"
  by (auto simp: tc_maker_on_block_def Let_def split: sum.splits)

interpretation qcm: vote_maker qc_voters qm_used "\<lambda>(v, _). qv_voter v" "\<lambda>(v, b). qc_maker_append E v b" for E
  by unfold_locales (auto simp: qc_maker_append_def qc_voters_def qc_on_block_keeps Let_def split: option.splits)

interpretation tcm: vote_maker tc_voters tm_used tv_voter "tc_maker_append E" for E
  by unfold_locales (auto simp: tc_maker_append_def tc_voters_def tc_on_block_keeps)

subsection \<open>Well-formed vote managers\<close>

definition qc_maker_wf :: "qc_maker \<Rightarrow> bool" where
  "qc_maker_wf m = (distinct (qc_voters m) \<and> qm_used m = set (qc_voters m))"

definition tc_maker_wf :: "nat \<Rightarrow> object_id \<Rightarrow> tc_maker \<Rightarrow> bool" where
  "tc_maker_wf r shell m =
     (distinct (tc_voters m) \<and> tm_used m = set (tc_voters m) \<and> tm_round m = r \<and> tm_group_shell_id m = shell \<and>
      (\<forall>v\<in>set (tm_votes m). tv_round v = r \<and> tv_group_shell_id v = shell))"

definition vote_mgr_wf :: "vote_mgr \<Rightarrow> bool" where
  "vote_mgr_wf vm =
     (all2 (\<lambda>_ _ m. qc_maker_wf m) (vm_votes vm) \<and> all2 tc_maker_wf (vm_timeouts vm) \<and>
      (\<forall>(k, b)\<in>set (vm_blocks vm). gb_id b = k))"

lemma qc_maker_append_wf: "qc_maker_wf m \<Longrightarrow> qc_maker_wf (snd (qc_maker_append E v b m))"
  using qcm.append_once [of m E "(v, b)"] by (simp add: qc_maker_wf_def)

lemma qc_maker_on_block_wf: "qc_maker_wf m \<Longrightarrow> qc_maker_wf (snd (qc_maker_on_block E b m))"
  by (simp add: qc_maker_wf_def qc_voters_def qc_on_block_keeps)

lemma tc_maker_append_wf:
  assumes "tc_maker_wf (tv_round v) (tv_group_shell_id v) m"
  shows "tc_maker_wf (tv_round v) (tv_group_shell_id v) (snd (tc_maker_append E v m))"
  using assms tcm.append_once [of m E v] unfolding tc_maker_wf_def
  by (auto simp: tc_maker_append_def tc_on_block_keeps)

lemma new_wf: "qc_maker_wf qc_maker_new" "tc_maker_wf r shell (tc_maker_new r shell)"
  by (simp_all add: qc_maker_wf_def tc_maker_wf_def qc_voters_def tc_voters_def qc_maker_new_def tc_maker_new_def)


lemma set_update: "set (AList.update k v m) \<subseteq> insert (k, v) (set m)"
  by (induction m) auto

lemma add_voting_block_wf:
  assumes "vote_mgr_wf vm"
  shows "vote_mgr_wf (snd (add_voting_block E b vm))"
proof -
  have "qc_maker_wf m" if "entry2 (vm_votes vm) (block_round b) (gb_id b) = Some m" for m
    using assms that by (auto simp: vote_mgr_wf_def dest: all2D)
  with assms show ?thesis
    by (auto simp: vote_mgr_wf_def add_voting_block_def Let_def prod.case_eq_if qc_maker_on_block_wf
        dest: subsetD [OF set_update] intro!: all2_insert2 split: option.splits if_splits)
qed

lemma add_vote_wf:
  assumes "vote_mgr_wf vm"
  shows "vote_mgr_wf (snd (add_vote E vote b vm))"
proof -
  have "qc_maker_wf m" if "entry2 (vm_votes vm) (qv_round vote) (qv_block_id vote) = Some m" for m
    using assms that by (auto simp: vote_mgr_wf_def dest: all2D)
  with assms show ?thesis
    by (auto simp: vote_mgr_wf_def add_vote_def Let_def prod.case_eq_if
        dest: subsetD [OF set_update] intro!: all2_insert2 qc_maker_append_wf new_wf split: option.splits if_splits)
qed

lemma add_timeout_wf:
  assumes "vote_mgr_wf vm"
  shows "vote_mgr_wf (snd (add_timeout E timeout vm))"
proof -
  have "tc_maker_wf (tv_round timeout) (tv_group_shell_id timeout) m"
    if "entry2 (vm_timeouts vm) (tv_round timeout) (tv_group_shell_id timeout) = Some m" for m
    using assms that by (auto simp: vote_mgr_wf_def dest: all2D)
  with assms show ?thesis
    by (auto simp: vote_mgr_wf_def add_timeout_def Let_def prod.case_eq_if
        intro!: all2_insert2 tc_maker_append_wf new_wf split: option.splits)
qed

lemma vm_cleanup_wf: "vote_mgr_wf vm \<Longrightarrow> vote_mgr_wf (vm_cleanup r vm)"
  by (auto simp: vote_mgr_wf_def vm_cleanup_def all2_filter)

lemma vote_mgr_new_wf: "vote_mgr_wf (vote_mgr_new r)"
  by (simp add: vote_mgr_wf_def vote_mgr_new_def)

subsection \<open>Certificates\<close>

text \<open>Votes and timeouts of members of the sample committee.\<close>

definition sample_vote :: "object_id option \<Rightarrow> object_id \<Rightarrow> qc_vote" where
  "sample_vote prev v = \<lparr>qv_block_id = 2, qv_prev_block_id = prev, qv_round = 2, qv_voter = v,
     qv_signature = [ucast v] @ vote_content 2 prev 2\<rparr>"

definition sample_timeout :: "object_id \<Rightarrow> timeout_vote" where
  "sample_timeout v = \<lparr>tv_high_qc = None, tv_round = 2, tv_voter = v, tv_signature = [ucast v] @ timeout_content 0 2 3,
     tv_group_shell_id = 3\<rparr>"

definition sample_votes :: vote_mgr where
  "sample_votes =
     fold (\<lambda>v vm. snd (add_timeout sample_committee (sample_timeout v)
       (snd (add_vote sample_committee (sample_vote (Some 1) v) (Some (sample_block 2)) vm)))) [11, 12] (vote_mgr_new 2)"

lemmas sample_vote_defs = sample_committee_def sample_vote_def sample_timeout_def

lemmas vote_ops = add_vote_def add_timeout_def
  qc_maker_append_def qc_maker_on_block_def tc_maker_append_def tc_maker_on_block_def qc_maker_new_def tc_maker_new_def
  vote_mgr_new_def entry2_def insert2_def quorum_threshold_def verify_vote_def verify_sign_def vote_hash_def timeout_hash_def
  qc_round_of_def Let_def

lemma sample_block_2 [simp]:
  "gb_id (sample_block 2) = 2" "block_round (sample_block 2) = 2" "prev_block_id (sample_block 2) = Some 1"
  "block_shell (sample_block 2) = 3"
  by (simp_all add: sample_block_def block_defs)

lemma sample_votes_eval:
  "sample_votes = \<lparr>vm_round = 2, vm_blocks = [(2, sample_block 2)],
     vm_votes = [(2, [(2, \<lparr>qm_votes = map (\<lambda>v. (v, [ucast v] @ vote_content 2 (Some 1) 2)) [11, 12], qm_used = {12, 11},
       qm_thresholded = False\<rparr>)])],
     vm_timeouts = [(2, [(3, \<lparr>tm_round = 2, tm_votes = map sample_timeout [11, 12], tm_group_shell_id = 3, tm_used = {12, 11},
       tm_thresholded = False\<rparr>)])]\<rparr>"
proof -
  let ?step = "\<lambda>v vm. snd (add_timeout sample_committee (sample_timeout v)
    (snd (add_vote sample_committee (sample_vote (Some 1) v) (Some (sample_block 2)) vm)))"
  have first: "?step 11 (vote_mgr_new 2) = \<lparr>vm_round = 2, vm_blocks = [(2, sample_block 2)],
     vm_votes = [(2, [(2, \<lparr>qm_votes = [(11, [ucast (11 :: object_id)] @ vote_content 2 (Some 1) 2)], qm_used = {11}, qm_thresholded = False\<rparr>)])],
     vm_timeouts = [(2, [(3, \<lparr>tm_round = 2, tm_votes = [sample_timeout 11], tm_group_shell_id = 3, tm_used = {11}, tm_thresholded = False\<rparr>)])]\<rparr>"
    by (simp add: sample_vote_defs vote_ops)
  have "sample_votes = ?step 12 (?step 11 (vote_mgr_new 2))" by (simp add: sample_votes_def)
  then show ?thesis unfolding first by (simp add: sample_vote_defs vote_ops)
qed

lemma first_error_Inr: "first_error rs = Inr () \<longleftrightarrow> (\<forall>r\<in>set rs. r = Inr ())"
  by (induction rs) (auto split: sum.splits)

lemma quorum_True:
  "quorum_threshold E voters shell = Inr True \<longleftrightarrow>
     (\<exists>g. ce_group E shell = Inr g \<and> length (gi_oods g) * 2 div 3 + 1 \<le> card (set voters \<inter> set (gi_oods g)))"
proof -
  have "length (filter (\<lambda>v. v \<in> set mem) (remdups voters)) = card (set voters \<inter> set mem)" for mem
  proof -
    have "distinct (filter (\<lambda>v. v \<in> set mem) (remdups voters))" by simp
    from distinct_card [OF this] show ?thesis by (simp add: Int_def)
  qed
  then show ?thesis by (auto simp: quorum_threshold_def rbind_eq_Inr Let_def)
qed

lemma qc_maker_on_block_Some:
  assumes "fst (qc_maker_on_block E b m) = Inr (Some qc)"
  shows "quorum_threshold E (qc_voters m) (Some (block_shell b)) = Inr True"
    "qc = \<lparr>qc_block_id = gb_id b, qc_prev_block_id = prev_block_id b, qc_round = block_round b,
       qc_votes = map (\<lambda>(v, s). \<lparr>qs_voter = v, qs_signature = s\<rparr>) (qm_votes m)\<rparr>"
  using assms by (auto simp: qc_maker_on_block_def qc_voters_def Let_def split: if_splits sum.splits)

text \<open>The votes collected for a block in a round, and a signature of a member that covers the block.\<close>

definition collected :: "vote_mgr \<Rightarrow> nat \<Rightarrow> object_id \<Rightarrow> (object_id \<times> bytes) list" where
  "collected vm r k = (case entry2 (vm_votes vm) r k of Some m \<Rightarrow> qm_votes m | None \<Rightarrow> [])"

definition covers :: "'e committee_env_scheme \<Rightarrow> group_block \<Rightarrow> object_id \<times> bytes \<Rightarrow> bool" where
  "covers E b vs =
     (verify_sign E (ce_sha256 E (vote_content (gb_id b) (prev_block_id b) (block_round b))) (fst vs) (snd vs) = Inr ())"

definition timeouts_valid :: "'e committee_env_scheme \<Rightarrow> vote_mgr \<Rightarrow> bool" where
  "timeouts_valid E vm =
     all2 (\<lambda>_ _ m. \<forall>v\<in>set (tm_votes m). verify_sign E (timeout_hash (ce_sha256 E) v) (tv_voter v) (tv_signature v) = Inr ())
       (vm_timeouts vm)"

text \<open>What decides whether a vote is accepted: the block given with it, its voter, and the threshold over the
  voters; neither its predecessor nor its signature.\<close>

definition maker_of :: "vote_mgr \<Rightarrow> nat \<Rightarrow> object_id \<Rightarrow> qc_maker" where
  "maker_of vm r k = (case entry2 (vm_votes vm) r k of Some m \<Rightarrow> m | None \<Rightarrow> qc_maker_new)"

lemma collected_maker: "collected vm r k = qm_votes (maker_of vm r k)"
  by (simp add: collected_def maker_of_def qc_maker_new_def split: option.split)

lemma add_vote_steps:
  "fst (add_vote E v block vm) =
     (if \<not> (case block of None \<Rightarrow> True | Some b \<Rightarrow> gb_id b = qv_block_id v) then Inl Panic
      else rbind (fst (qc_maker_append E v (case block of Some b \<Rightarrow> Some b | None \<Rightarrow> map_of (vm_blocks vm) (qv_block_id v))
          (maker_of vm (qv_round v) (qv_block_id v))))
        (\<lambda>qc. case qc of None \<Rightarrow> Inr None | Some qc \<Rightarrow> (case block of Some b \<Rightarrow> Inr (Some (qc, b)) | None \<Rightarrow> Inl Panic)))"
  "maker_of (snd (add_vote E v block vm)) r k =
     (if (case block of None \<Rightarrow> True | Some b \<Rightarrow> gb_id b = qv_block_id v) \<and> r = qv_round v \<and> k = qv_block_id v
      then snd (qc_maker_append E v (case block of Some b \<Rightarrow> Some b | None \<Rightarrow> map_of (vm_blocks vm) (qv_block_id v)) (maker_of vm r k))
      else maker_of vm r k)"
  by (cases block; auto simp: add_vote_def Let_def maker_of_def prod.case_eq_if entry2_insert2)+

lemma add_vote_accepted:
  assumes "fst (add_vote E vote block vm) = Inr r"
  shows "case block of None \<Rightarrow> True | Some b \<Rightarrow> gb_id b = qv_block_id vote"
    "qv_voter vote \<notin> qm_used (maker_of vm (qv_round vote) (qv_block_id vote))"
  using assms unfolding add_vote_steps(1) by (auto simp: qc_maker_append_def split: if_splits)

definition same_outcome :: "'a option result \<Rightarrow> 'b option result \<Rightarrow> bool" where
  "same_outcome x y = (case x of Inl e \<Rightarrow> y = Inl e | Inr a \<Rightarrow> \<exists>b. y = Inr b \<and> (a = None) = (b = None))"

lemma qc_maker_on_block_outcome:
  assumes "map fst (qm_votes m) = map fst (qm_votes m')" and "qm_thresholded m = qm_thresholded m'"
  shows "same_outcome (fst (qc_maker_on_block E b m)) (fst (qc_maker_on_block E b m'))"
  using assms by (auto simp: same_outcome_def qc_maker_on_block_def Let_def split: sum.splits)

lemma qc_maker_append_outcome:
  "same_outcome (fst (qc_maker_append E vote block m)) (fst (qc_maker_append E (vote\<lparr>qv_prev_block_id := p, qv_signature := s\<rparr>) block m))"
proof -
  let ?m = "\<lambda>s. m\<lparr>qm_used := insert (qv_voter vote) (qm_used m), qm_votes := qm_votes m @ [(qv_voter vote, s)]\<rparr>"
  have "same_outcome (fst (qc_maker_on_block E b (?m (qv_signature vote)))) (fst (qc_maker_on_block E b (?m s)))" for b
    by (rule qc_maker_on_block_outcome) simp_all
  then show ?thesis by (simp add: qc_maker_append_def Let_def same_outcome_def [where x = "Inl _"] same_outcome_def [where x = "Inr None"]
      split: option.split)
qed

lemma add_vote_outcome:
  "same_outcome (fst (add_vote E vote block vm)) (fst (add_vote E (vote\<lparr>qv_prev_block_id := p, qv_signature := s\<rparr>) block vm))"
proof -
  let ?a = "\<lambda>v. fst (qc_maker_append E v (case block of Some b \<Rightarrow> Some b | None \<Rightarrow> map_of (vm_blocks vm) (qv_block_id vote))
    (maker_of vm (qv_round vote) (qv_block_id vote)))"
  have "same_outcome (?a vote) (?a (vote\<lparr>qv_prev_block_id := p, qv_signature := s\<rparr>))" by (rule qc_maker_append_outcome)
  then show ?thesis
    unfolding add_vote_steps(1) by (cases block) (auto simp: same_outcome_def rbind_def split: sum.splits option.splits)
qed

text \<open>The votes a maker holds after a vote was accepted.\<close>

lemma add_vote_Some:
  assumes "add_vote E vote block vm = (Inr (Some (qc, b)), vm')"
  obtains m where "block = Some b" "gb_id b = qv_block_id vote"
    "m = (case entry2 (vm_votes vm) (qv_round vote) (qv_block_id vote) of Some m \<Rightarrow> m | None \<Rightarrow> qc_maker_new)"
    "qv_voter vote \<notin> qm_used m"
    "fst (qc_maker_on_block E b (m\<lparr>qm_used := insert (qv_voter vote) (qm_used m),
       qm_votes := qm_votes m @ [(qv_voter vote, qv_signature vote)]\<rparr>)) = Inr (Some qc)"
  using assms
  by (auto simp: add_vote_def qc_maker_append_def Let_def rbind_eq_Inr prod.case_eq_if split: if_splits option.splits)


lemma add_timeout_Some:
  assumes "add_timeout E timeout vm = (Inr (Some tc), vm')"
  obtains m where
    "m = (case entry2 (vm_timeouts vm) (tv_round timeout) (tv_group_shell_id timeout) of
       Some m \<Rightarrow> m | None \<Rightarrow> tc_maker_new (tv_round timeout) (tv_group_shell_id timeout))"
    "tm_round m = tv_round timeout" "tv_voter timeout \<notin> tm_used m"
    "quorum_threshold E (tc_voters m @ [tv_voter timeout]) (Some (tm_group_shell_id m)) = Inr True"
    "tc = \<lparr>tc_round = tm_round m, tc_votes = map (\<lambda>v. \<lparr>ts_voter = tv_voter v, ts_high_qc_round = qc_round_of (tv_high_qc v),
        ts_signature = tv_signature v\<rparr>) (tm_votes m @ [timeout]), tc_group_shell_id = Some (tm_group_shell_id m)\<rparr>"
  using assms
  by (auto simp: add_timeout_def tc_maker_append_def tc_maker_on_block_def tc_voters_def Let_def prod.case_eq_if
      split: if_splits sum.splits)

lemma add_vote_collected:
  "collected (snd (add_vote E vote block vm)) r k =
     collected vm r k @ (if r = qv_round vote \<and> k = qv_block_id vote \<and>
       (case block of None \<Rightarrow> True | Some b \<Rightarrow> gb_id b = qv_block_id vote) \<and> qv_voter vote \<notin> qm_used (maker_of vm r k)
       then [(qv_voter vote, qv_signature vote)] else [])"
  unfolding collected_maker add_vote_steps(2) qc_maker_append_def Let_def by (simp add: qc_on_block_keeps split: option.split)

lemma add_votes_collected:
  "set (collected vm r k) \<subseteq> set (collected (fold (\<lambda>(w, block) vm. snd (add_vote E w block vm)) ws vm) r k)"
proof (induction ws arbitrary: vm)
  case (Cons w ws)
  have "set (collected vm r k) \<subseteq> set (collected (snd (add_vote E (fst w) (snd w) vm)) r k)"
    by (simp add: add_vote_collected)
  with Cons.IH show ?case by (fastforce simp: case_prod_unfold)
qed simp

text \<open>A certificate holds the collected votes and the last one, for the content of the block.\<close>

lemma add_vote_qc:
  assumes "add_vote E vote block vm = (Inr (Some (qc, b)), vm')"
  shows "qc = \<lparr>qc_block_id = gb_id b, qc_prev_block_id = prev_block_id b, qc_round = block_round b,
       qc_votes = map (\<lambda>(v, s). \<lparr>qs_voter = v, qs_signature = s\<rparr>)
         (collected vm (qv_round vote) (qv_block_id vote) @ [(qv_voter vote, qv_signature vote)])\<rparr>"
proof -
  from assms obtain m where
    m: "m = (case entry2 (vm_votes vm) (qv_round vote) (qv_block_id vote) of Some m \<Rightarrow> m | None \<Rightarrow> qc_maker_new)"
    and made: "fst (qc_maker_on_block E b (m\<lparr>qm_used := insert (qv_voter vote) (qm_used m),
       qm_votes := qm_votes m @ [(qv_voter vote, qv_signature vote)]\<rparr>)) = Inr (Some qc)" by (rule add_vote_Some)
  have "collected vm (qv_round vote) (qv_block_id vote) = qm_votes m"
    by (simp add: collected_def m qc_maker_new_def split: option.split)
  with qc_maker_on_block_Some(2) [OF made] show ?thesis by simp
qed

lemma verify_qc_covers:
  "verify_qc E \<lparr>qc_block_id = gb_id b, qc_prev_block_id = prev_block_id b, qc_round = block_round b,
       qc_votes = map (\<lambda>(v, s). \<lparr>qs_voter = v, qs_signature = s\<rparr>) vs\<rparr> b = Inr () \<longleftrightarrow>
     quorum_threshold E (map fst vs) (Some (block_shell b)) = Inr True \<and> (\<forall>x\<in>set vs. covers E b x)"
proof -
  let ?s = "\<lambda>(v, s). \<lparr>qs_voter = v, qs_signature = s\<rparr>"
  have voters: "map qs_voter (map ?s vs) = map fst vs" by (simp add: case_prod_unfold)
  have sigs: "first_error (map (\<lambda>s. verify_vote E \<lparr>qv_block_id = gb_id b, qv_prev_block_id = prev_block_id b,
      qv_round = block_round b, qv_voter = qs_voter s, qv_signature = qs_signature s\<rparr>) (map ?s vs)) = Inr () \<longleftrightarrow>
      (\<forall>x\<in>set vs. covers E b x)"
    unfolding first_error_Inr by (simp add: verify_vote_def vote_hash_def covers_def case_prod_unfold)
  show ?thesis
    unfolding verify_qc_def verify_qc_with_desc_def block_qc.select_convs voters
    by (cases "quorum_threshold E (map fst vs) (Some (block_shell b))")
      (simp_all add: block_round_def [symmetric] block_shell_def [symmetric] sigs del: map_map)
qed

text \<open>C26: the vote manager keeps every voter at most once per round and block, and per round and group; every
  operation preserves this, also one that returns an error.\<close>

theorem vote_mgr_well_formed:
  "vote_mgr_wf (vote_mgr_new r) \<and>
   (vote_mgr_wf vm \<longrightarrow>
     vote_mgr_wf (snd (add_voting_block E b vm)) \<and> vote_mgr_wf (snd (add_vote E vote block vm)) \<and>
     vote_mgr_wf (snd (add_timeout E timeout vm)) \<and> vote_mgr_wf (vm_cleanup r' vm))"
  by (simp add: vote_mgr_new_wf add_voting_block_wf add_vote_wf add_timeout_wf vm_cleanup_wf)

theorem vote_mgr_well_formed_witness: "vote_mgr_wf sample_votes"
  using vote_mgr_well_formed [of 2 "vote_mgr_new 2" sample_committee "sample_block 2"] by (simp add: sample_votes_def add_vote_wf add_timeout_wf)

text \<open>C14: a certificate that adding a vote produces is about the block of the vote, carries every voter
  once and the votes of more than two thirds of the members. It holds exactly the votes collected for
  the round and block, and it verifies if and only if each of their signatures covers the block with
  its predecessor and its round.\<close>

theorem add_vote_certificate:
  assumes "vote_mgr_wf vm" "add_vote E vote block vm = (Inr (Some (qc, b)), vm')"
  shows "block = Some b \<and> qc_block_id qc = qv_block_id vote \<and> distinct (map qs_voter (qc_votes qc)) \<and>
    (\<exists>g. ce_group E (Some (block_shell b)) = Inr g \<and>
       2 * length (gi_oods g) < 3 * card (set (map qs_voter (qc_votes qc)) \<inter> set (gi_oods g))) \<and>
    map (\<lambda>s. (qs_voter s, qs_signature s)) (qc_votes qc) = collected vm' (qv_round vote) (qv_block_id vote) \<and>
    (verify_qc E qc b = Inr () \<longleftrightarrow> (\<forall>x\<in>set (collected vm' (qv_round vote) (qv_block_id vote)). covers E b x))"
proof -
  from assms(2) obtain m where m: "block = Some b" "gb_id b = qv_block_id vote"
    "m = (case entry2 (vm_votes vm) (qv_round vote) (qv_block_id vote) of Some m \<Rightarrow> m | None \<Rightarrow> qc_maker_new)"
    "qv_voter vote \<notin> qm_used m"
    and made: "fst (qc_maker_on_block E b (m\<lparr>qm_used := insert (qv_voter vote) (qm_used m),
       qm_votes := qm_votes m @ [(qv_voter vote, qv_signature vote)]\<rparr>)) = Inr (Some qc)" by (rule add_vote_Some)
  have wf: "qc_maker_wf m"
    using assms(1) m(3) new_wf by (auto simp: vote_mgr_wf_def dest: all2D split: option.splits)
  note some = qc_maker_on_block_Some [OF made]
  have voters: "map qs_voter (qc_votes qc) = qc_voters m @ [qv_voter vote]"
    by (simp add: some(2) qc_voters_def case_prod_unfold)
  from some(1) obtain g where g: "ce_group E (Some (block_shell b)) = Inr g"
    "length (gi_oods g) * 2 div 3 + 1 \<le> card (set (map qs_voter (qc_votes qc)) \<inter> set (gi_oods g))"
    unfolding quorum_True voters by (auto simp: qc_voters_def)
  have vs: "collected vm' (qv_round vote) (qv_block_id vote) =
      collected vm (qv_round vote) (qv_block_id vote) @ [(qv_voter vote, qv_signature vote)]" (is "_ = ?vs")
    using add_vote_collected [of E vote block vm "qv_round vote" "qv_block_id vote"] add_vote_accepted [of E vote block vm] assms(2)
    by simp
  have "map fst ?vs = map qs_voter (qc_votes qc)" by (simp add: add_vote_qc [OF assms(2)] case_prod_unfold)
  then have "quorum_threshold E (map fst ?vs) (Some (block_shell b)) = Inr True"
    using some(1) by (simp add: voters qc_voters_def)
  then have "verify_qc E qc b = Inr () \<longleftrightarrow> (\<forall>x\<in>set ?vs. covers E b x)"
    unfolding add_vote_qc [OF assms(2)] verify_qc_covers by blast
  moreover have "map (\<lambda>s. (qs_voter s, qs_signature s)) (qc_votes qc) = ?vs"
    by (simp add: add_vote_qc [OF assms(2)] comp_def case_prod_unfold)
  moreover have "2 * length (gi_oods g) < 3 * card (set (map qs_voter (qc_votes qc)) \<inter> set (gi_oods g))"
    using g(2) by linarith
  moreover have "distinct (map qs_voter (qc_votes qc))" "qc_block_id qc = qv_block_id vote"
    using m(2,4) wf voters by (auto simp: qc_maker_wf_def) (simp add: some(2))
  ultimately show ?thesis using m(1) g(1) vs by simp
qed

lemma sample_votes_wf: "vote_mgr_wf sample_votes"
  by (simp add: sample_votes_def add_vote_wf add_timeout_wf vote_mgr_new_wf)

lemma sample_votes_valid: "timeouts_valid sample_committee sample_votes"
  by (auto simp: timeouts_valid_def all2_def sample_votes_eval sample_vote_defs vote_ops split: if_splits)

theorem add_vote_certificate_witness:
  "\<exists>qc vm. add_vote sample_committee (sample_vote (Some 1) 13) (Some (sample_block 2)) sample_votes = (Inr (Some (qc, sample_block 2)), vm) \<and>
     verify_qc sample_committee qc (sample_block 2) = Inr ()"
proof -
  let ?r = "add_vote sample_committee (sample_vote (Some 1) 13) (Some (sample_block 2)) sample_votes"
  have "\<exists>qc vm. ?r = (Inr (Some (qc, sample_block 2)), vm)" by (simp add: sample_votes_eval sample_vote_defs vote_ops)
  then obtain qc vm where r: "?r = (Inr (Some (qc, sample_block 2)), vm)" by blast
  have "\<forall>x\<in>set (collected (snd ?r) 2 2). covers sample_committee (sample_block 2) x"
    unfolding add_vote_collected by (simp add: collected_def covers_def sample_votes_eval sample_vote_defs vote_ops)
  with add_vote_certificate [OF sample_votes_wf r] r
  have "verify_qc sample_committee qc (sample_block 2) = Inr ()" by (simp add: sample_vote_def)
  with r show ?thesis by blast
qed

text \<open>C37: one member can spoil a certificate. Whenever a vote is collected, so is the same vote with any
  other predecessor and signature, and it completes a certificate exactly when the first one does. Every
  certificate that is made with it, at once or after any further votes, is refused by every node that
  does not find the signature to cover the block, its predecessor and its round.\<close>

theorem add_vote_spoiled_certificate:
  assumes "fst (add_vote E vote block vm) = Inr r"
  shows "\<exists>r' vm1. add_vote E (vote\<lparr>qv_prev_block_id := p, qv_signature := s\<rparr>) block vm = (Inr r', vm1) \<and>
    (r' = None \<longleftrightarrow> r = None) \<and>
    (\<forall>qc b. r' = Some (qc, b) \<longrightarrow> (\<forall>E'. \<not> covers E' b (qv_voter vote, s) \<longrightarrow> verify_qc E' qc b \<noteq> Inr ())) \<and>
    (\<forall>ws w block' qc b vm2. qv_round w = qv_round vote \<longrightarrow> qv_block_id w = qv_block_id vote \<longrightarrow>
       add_vote E w block' (fold (\<lambda>(w, block) vm. snd (add_vote E w block vm)) ws vm1) = (Inr (Some (qc, b)), vm2) \<longrightarrow>
       (\<forall>E'. \<not> covers E' b (qv_voter vote, s) \<longrightarrow> verify_qc E' qc b \<noteq> Inr ()))"
proof -
  let ?v = "vote\<lparr>qv_prev_block_id := p, qv_signature := s\<rparr>"
  from add_vote_outcome [of E vote block vm s p] obtain r' vm1 where
    r': "add_vote E ?v block vm = (Inr r', vm1)" "r' = None \<longleftrightarrow> r = None"
    unfolding assms same_outcome_def by (cases "add_vote E ?v block vm") auto
  have "fst (add_vote E ?v block vm) = Inr r'" by (simp add: r'(1))
  from add_vote_accepted [OF this]
  have in1: "(qv_voter vote, s) \<in> set (collected vm1 (qv_round vote) (qv_block_id vote))"
    using add_vote_collected [of E ?v block vm "qv_round vote" "qv_block_id vote"] r'(1)
    by simp
  have "verify_qc E' qc b \<noteq> Inr ()" if "r' = Some (qc, b)" "\<not> covers E' b (qv_voter vote, s)" for qc b and E' :: "'d committee_env_scheme"
    using r'(1) that add_vote_qc [of E ?v block vm qc b vm1] by (simp add: verify_qc_covers del: map_append list.map)
  moreover have "verify_qc E' qc b \<noteq> Inr ()"
    if w: "qv_round w = qv_round vote" "qv_block_id w = qv_block_id vote"
      "add_vote E w block' (fold (\<lambda>(w, block) vm. snd (add_vote E w block vm)) ws vm1) = (Inr (Some (qc, b)), vm2)"
      and bad: "\<not> covers E' b (qv_voter vote, s)" for ws w block' qc b vm2 and E' :: "'d committee_env_scheme"
  proof -
    have "(qv_voter vote, s) \<in> set (collected (fold (\<lambda>(w, block) vm. snd (add_vote E w block vm)) ws vm1) (qv_round vote) (qv_block_id vote))"
      using in1 add_votes_collected by blast
    with bad show ?thesis
      unfolding add_vote_qc [OF w(3)] verify_qc_covers w(1,2) by auto
  qed
  ultimately show ?thesis using r' by blast
qed

theorem add_vote_spoiled_certificate_witness:
  "\<exists>qc vm. verify_vote sample_committee (sample_vote None 13) = Inr () \<and>
     add_vote sample_committee (sample_vote None 13) (Some (sample_block 2)) sample_votes = (Inr (Some (qc, sample_block 2)), vm) \<and>
     verify_qc sample_committee qc (sample_block 2) \<noteq> Inr ()"
proof -
  let ?add = "\<lambda>v. add_vote sample_committee v (Some (sample_block 2)) sample_votes"
  have "\<exists>qc vm. ?add (sample_vote None 13) = (Inr (Some (qc, sample_block 2)), vm)"
    by (simp add: sample_votes_eval sample_vote_defs vote_ops)
  then obtain qc vm where r: "?add (sample_vote None 13) = (Inr (Some (qc, sample_block 2)), vm)" by blast
  have "\<exists>x. fst (?add (sample_vote (Some 1) 13)) = Inr x" by (simp add: sample_votes_eval sample_vote_defs vote_ops)
  then obtain x where x: "fst (?add (sample_vote (Some 1) 13)) = Inr x" by blast
  have same: "sample_vote (Some 1) 13\<lparr>qv_prev_block_id := None, qv_signature := qv_signature (sample_vote None 13)\<rparr> = sample_vote None 13"
    by (simp add: sample_vote_def)
  have "length (vote_content 2 (Some 1) 2) \<noteq> length (vote_content 2 None 2)" by (simp add: vote_content_def length_to_be_bytes)
  then have "vote_content 2 (Some 1) 2 \<noteq> vote_content 2 None 2" by metis
  then have "\<not> covers sample_committee (sample_block 2) (13, qv_signature (sample_vote None 13))"
    by (simp add: covers_def sample_vote_defs verify_sign_def)
  then have "verify_qc sample_committee qc (sample_block 2) \<noteq> Inr ()"
    using add_vote_spoiled_certificate [OF x, where p = None and s = "qv_signature (sample_vote None 13)"] r
    unfolding same by (auto simp: sample_vote_def)
  moreover have "verify_vote sample_committee (sample_vote None 13) = Inr ()" by (simp add: sample_votes_eval sample_vote_defs vote_ops)
  ultimately show ?thesis using r by blast
qed

text \<open>a certificate of a timed out round carries every voter once and more than two thirds of the
  members, and every node verifies it when the collected timeouts were verified.\<close>

theorem add_timeout_certificate:
  assumes "vote_mgr_wf vm" "timeouts_valid E vm" "add_timeout E timeout vm = (Inr (Some tc), vm')"
    "verify_sign E (timeout_hash (ce_sha256 E) timeout) (tv_voter timeout) (tv_signature timeout) = Inr ()"
  shows "tc_round tc = tv_round timeout \<and> distinct (map ts_voter (tc_votes tc)) \<and>
    (\<exists>g. ce_group E (Some (tv_group_shell_id timeout)) = Inr g \<and>
       2 * length (gi_oods g) < 3 * card (set (map ts_voter (tc_votes tc)) \<inter> set (gi_oods g))) \<and>
    verify_tc E tc shell = Inr ()"
proof -
  from assms(3) obtain m where m:
    "m = (case entry2 (vm_timeouts vm) (tv_round timeout) (tv_group_shell_id timeout) of
       Some m \<Rightarrow> m | None \<Rightarrow> tc_maker_new (tv_round timeout) (tv_group_shell_id timeout))"
    "tm_round m = tv_round timeout" "tv_voter timeout \<notin> tm_used m"
    and q: "quorum_threshold E (tc_voters m @ [tv_voter timeout]) (Some (tm_group_shell_id m)) = Inr True"
    and tc: "tc = \<lparr>tc_round = tm_round m, tc_votes = map (\<lambda>v. \<lparr>ts_voter = tv_voter v, ts_high_qc_round = qc_round_of (tv_high_qc v),
        ts_signature = tv_signature v\<rparr>) (tm_votes m @ [timeout]), tc_group_shell_id = Some (tm_group_shell_id m)\<rparr>"
    by (rule add_timeout_Some)
  have wf: "tc_maker_wf (tv_round timeout) (tv_group_shell_id timeout) m"
    using assms(1) m(1) new_wf by (auto simp: vote_mgr_wf_def dest: all2D split: option.splits)
  have old: "\<forall>v\<in>set (tm_votes m). verify_sign E (timeout_hash (ce_sha256 E) v) (tv_voter v) (tv_signature v) = Inr ()"
    using assms(2) m(1) by (auto simp: timeouts_valid_def tc_maker_new_def dest: all2D split: option.splits)
  have voters: "map ts_voter (tc_votes tc) = tc_voters m @ [tv_voter timeout]" by (simp add: tc tc_voters_def)
  from q wf obtain g where g: "ce_group E (Some (tv_group_shell_id timeout)) = Inr g"
    "length (gi_oods g) * 2 div 3 + 1 \<le> card (set (map ts_voter (tc_votes tc)) \<inter> set (gi_oods g))"
    unfolding quorum_True voters by (auto simp: tc_maker_wf_def)
  have "verify_tc E tc shell = Inr ()"
    using q old wf assms(4)
    by (auto simp: verify_tc_def Let_def tc first_error_Inr tc_maker_wf_def tc_voters_def timeout_hash_def comp_def)
  moreover have "2 * length (gi_oods g) < 3 * card (set (map ts_voter (tc_votes tc)) \<inter> set (gi_oods g))"
    using g(2) by linarith
  moreover have "distinct (map ts_voter (tc_votes tc))" "tc_round tc = tv_round timeout"
    using m(2,3) wf voters by (auto simp: tc_maker_wf_def) (simp add: tc)
  ultimately show ?thesis using g(1) by blast
qed

theorem add_timeout_certificate_witness:
  "\<exists>tc vm. add_timeout sample_committee (sample_timeout 13) sample_votes = (Inr (Some tc), vm) \<and>
     verify_tc sample_committee tc 3 = Inr ()"
proof -
  let ?r = "add_timeout sample_committee (sample_timeout 13) sample_votes"
  have "\<exists>tc vm. ?r = (Inr (Some tc), vm)" by (simp add: sample_votes_eval sample_vote_defs vote_ops)
  then obtain tc vm where r: "?r = (Inr (Some tc), vm)" by blast
  have "verify_tc sample_committee tc 3 = Inr ()"
    using add_timeout_certificate [OF sample_votes_wf sample_votes_valid r, of 3] by (simp add: sample_votes_eval sample_vote_defs vote_ops)
  with r show ?thesis by blast
qed

end
