(* ===== verification/GroupStorage.thy ===== *)
theory GroupStorage
  imports VoteMgr
begin

text \<open>
  The chain of a group state as one node keeps it, \<^verbatim>\<open>cyfs-group/src/storage/group_storage.rs\<close>: the last
  committed block (the header), the blocks with a quorum on top of it (pre-commits), the blocks without
  one (prepares), and the proposals of the committed blocks. Every change is written by a storage
  writer before the cache in memory is changed; the writer is the parameter \<open>w\<close>, the result of a
  sequence of calls on a new writer.
\<close>

subsection \<open>Arithmetic\<close>

text \<open>The release profile of \<^verbatim>\<open>src/src/Cargo.toml\<close> switches the overflow checks off: a difference, sum or
  product of \<^verbatim>\<open>u64\<close> values that does not fit wraps around. A division by zero still panics.\<close>

definition wrap64 :: "nat \<Rightarrow> nat" where
  "wrap64 n = n mod 2 ^ 64"

definition wrapping_sub :: "nat \<Rightarrow> nat \<Rightarrow> nat" where
  "wrapping_sub a b = (if b \<le> a then a - b else a + 2 ^ 64 - b)"

subsection \<open>State\<close>

record finish_proposal_mgr =
  fp_flip_timestamp :: nat
  fp_over :: "object_id set"
  fp_adding :: "object_id set"

record storage_cache =
  sc_dec_state_id :: "object_id option"
  sc_last_vote_round :: nat
  sc_last_qc :: "block_qc option"
  sc_last_tc :: "hotstuff_timeout option"
  sc_header_block :: "group_block option"
  sc_first_block :: "group_block option"
  sc_prepares :: "(object_id \<times> group_block) list"
  sc_pre_commits :: "(object_id \<times> group_block) list"
  sc_finish_proposals :: finish_proposal_mgr

definition storage_cache_new :: "object_id option \<Rightarrow> storage_cache" where
  "storage_cache_new dec_state_id =
     \<lparr>sc_dec_state_id = dec_state_id, sc_last_vote_round = 0, sc_last_qc = None, sc_last_tc = None,
      sc_header_block = None, sc_first_block = None, sc_prepares = [], sc_pre_commits = [],
      sc_finish_proposals = \<lparr>fp_flip_timestamp = 0, fp_over = {}, fp_adding = {}\<rparr>\<rparr>"

datatype storage_op =
    CreateWriter
  | InsertPrepares object_id "object_id option"
  | InsertPreCommit object_id "object_id option" bool
  | PushCommit nat object_id "object_id option" "object_id option" nat
  | RemovePrepares "object_id list"
  | PushProposals "object_id list" "(nat \<times> nat) option"
  | SetLastVoteRound nat nat
  | SaveLastQc block_qc
  | SaveLastTc hotstuff_timeout
  | CommitWriter

datatype block_link_state =
    LinkExpired
  | LinkDuplicate
  | LinkTo "group_block option"
  | LinkPending
  | LinkInvalidBranch

definition PROPOSAL_MAX_TIMEOUT_AS_MICRO_SEC :: nat where
  "PROPOSAL_MAX_TIMEOUT_AS_MICRO_SEC = 3600 * 1000000"

subsection \<open>Reading the cache\<close>

definition header_round :: "storage_cache \<Rightarrow> nat" where
  "header_round c = (case sc_header_block c of None \<Rightarrow> 0 | Some b \<Rightarrow> block_round b)"

definition header_height :: "storage_cache \<Rightarrow> nat" where
  "header_height c = (case sc_header_block c of None \<Rightarrow> 0 | Some b \<Rightarrow> block_height b)"

definition max_height :: "storage_cache \<Rightarrow> nat" where
  "max_height c = header_height c + (if length (sc_prepares c) > 0 then 1 else 0) +
     (if length (sc_pre_commits c) > 0 then 1 else 0)"

definition find_value :: "(group_block \<Rightarrow> bool) \<Rightarrow> (object_id \<times> group_block) list \<Rightarrow> group_block option" where
  "find_value P m = map_option snd (find (\<lambda>(_, b). P b) m)"

definition option_or :: "'a option \<Rightarrow> 'a option \<Rightarrow> 'a option" where
  "option_or a b = (case a of Some x \<Rightarrow> Some x | None \<Rightarrow> b)"

definition ok_or_not_found :: "'a option \<Rightarrow> 'a result" where
  "ok_or_not_found r = (case r of Some x \<Rightarrow> Inr x | None \<Rightarrow> Inl (Err NotFound))"

definition get_block_by_height :: "(nat \<Rightarrow> object_id result) \<Rightarrow> (object_id \<Rightarrow> group_block result) \<Rightarrow> storage_cache \<Rightarrow>
    nat \<Rightarrow> group_block result" where
  "get_block_by_height find_height get_block c height =
     (let hh = header_height c in
      if height < hh then
        if height = (case sc_first_block c of None \<Rightarrow> 0 | Some b \<Rightarrow> block_height b)
        then ok_or_not_found (sc_first_block c)
        else rbind (find_height height) get_block
      else if height = hh then ok_or_not_found (sc_header_block c)
      else if height = hh + 1 then
        ok_or_not_found (option_or (find_value (\<lambda>b. block_height b = height) (sc_pre_commits c))
          (find_value (\<lambda>b. block_height b = height) (sc_prepares c)))
      else if height = hh + 2 then
        ok_or_not_found (find_value (\<lambda>b. block_height b = height) (sc_prepares c))
      else Inl (Err NotFound))"

definition find_block_in_cache :: "storage_cache \<Rightarrow> object_id \<Rightarrow> group_block result" where
  "find_block_in_cache c block_id =
     (case sc_header_block c of
        Some b \<Rightarrow>
          if gb_id b = block_id then Inr b
          else ok_or_not_found (option_or (map_of (sc_prepares c) block_id) (map_of (sc_pre_commits c) block_id))
      | None \<Rightarrow> ok_or_not_found (option_or (map_of (sc_prepares c) block_id) (map_of (sc_pre_commits c) block_id)))"

definition find_block_in_cache_by_round :: "storage_cache \<Rightarrow> nat \<Rightarrow> group_block result" where
  "find_block_in_cache_by_round c round =
     (let hr = header_round c in
      if round < hr then Inl (Err NotFound)
      else if round = hr then ok_or_not_found (sc_header_block c)
      else if round = hr + 1 then
        ok_or_not_found (option_or (find_value (\<lambda>b. block_round b = round) (sc_pre_commits c))
          (find_value (\<lambda>b. block_round b = round) (sc_prepares c)))
      else
        ok_or_not_found (option_or (find_value (\<lambda>b. block_round b = round) (sc_prepares c))
          (find_value (\<lambda>b. block_round b = round) (sc_pre_commits c))))"

definition has_proposal :: "object_id \<Rightarrow> group_block \<Rightarrow> bool" where
  "has_proposal proposal_id b = (proposal_id \<in> set (map bp_proposal (block_proposals b)))"

definition is_proposal_finished :: "storage_cache \<Rightarrow> object_id \<Rightarrow> object_id \<Rightarrow> bool" where
  "is_proposal_finished c proposal_id prev_id =
     ((case find_block_in_cache c prev_id of
         Inr prev_block \<Rightarrow>
           has_proposal proposal_id prev_block \<or>
           (case prev_block_id prev_block of
              Some prev_prev_id \<Rightarrow>
                (case find_block_in_cache c prev_prev_id of
                   Inr prev_prev_block \<Rightarrow> has_proposal proposal_id prev_prev_block
                 | Inl _ \<Rightarrow> False)
            | None \<Rightarrow> False)
       | Inl _ \<Rightarrow> False) \<or>
      proposal_id \<in> fp_adding (sc_finish_proposals c) \<or> proposal_id \<in> fp_over (sc_finish_proposals c))"

fun max_round_block :: "(object_id \<times> group_block) list \<Rightarrow> nat \<times> group_block option \<Rightarrow> nat \<times> group_block option" where
  "max_round_block [] acc = acc"
| "max_round_block ((_, b) # bs) (max_round, max_block) =
     max_round_block bs (if block_round b > max_round then (block_round b, Some b) else (max_round, max_block))"

definition block_with_max_round :: "storage_cache \<Rightarrow> group_block option" where
  "block_with_max_round c = snd (max_round_block (sc_pre_commits c) (max_round_block (sc_prepares c) (0, None)))"

definition store_max_round :: "storage_cache \<Rightarrow> nat" where
  "store_max_round c = (case block_with_max_round c of None \<Rightarrow> 0 | Some b \<Rightarrow> block_round b)"

subsection \<open>Where a block fits\<close>

definition block_linked :: "storage_cache \<Rightarrow> group_block \<Rightarrow> block_link_state result" where
  "block_linked c b =
     (let hh = header_height c; hr = header_round c in
      if block_height b \<le> hh \<or> block_round b \<le> hr \<or> qc_round_of (block_qc_of b) < hr then Inr LinkExpired
      else if block_height b > hh + 3 then Inr LinkPending
      else if (case find_block_in_cache c (gb_id b) of Inr _ \<Rightarrow> True | Inl _ \<Rightarrow> False) then Inr LinkDuplicate
      else
        let check_qc = (\<lambda>prev_block.
              if (case prev_block of None \<Rightarrow> 0 | Some p \<Rightarrow> block_round p) \<noteq> qc_round_of (block_qc_of b)
              then Inl (Err Failed) else Inr (LinkTo prev_block))
        in case prev_block_id b of
             Some prev_id \<Rightarrow>
               (case find_block_in_cache c prev_id of
                  Inr prev_block \<Rightarrow>
                    if block_height prev_block + 1 \<noteq> block_height b then Inl (Err Failed)
                    else if block_round prev_block \<ge> block_round b then Inl (Err Failed)
                    else check_qc (Some prev_block)
                | Inl _ \<Rightarrow> if block_height b = hh + 1 then Inr LinkInvalidBranch else Inr LinkPending)
           | None \<Rightarrow>
               if block_height b \<noteq> 1 then Inl (Err Failed)
               else if hh \<noteq> 0 then Inr LinkInvalidBranch
               else check_qc None)"

subsection \<open>Pushing a block\<close>

text \<open>What the block changes: the block that gets a quorum, the block that is committed, and the
  prepared blocks of other branches.\<close>

record push_plan =
  pp_pre_commit :: "(object_id \<times> group_block) option"
  pp_header :: "group_block option"
  pp_remove :: "object_id list"

definition rem_prepares :: "object_id \<Rightarrow> object_id \<Rightarrow> (object_id \<times> group_block) list \<Rightarrow> object_id list result" where
  "rem_prepares new_header_id prev_id prepares =
     (if \<exists>(_, b)\<in>set prepares. prev_block_id b = Some prev_id then Inl Panic
      else Inr (map fst (filter (\<lambda>(k, b). prev_block_id b \<noteq> Some new_header_id \<and> k \<noteq> prev_id) prepares)))"

definition plan_push :: "storage_cache \<Rightarrow> group_block \<Rightarrow> push_plan result" where
  "plan_push c b =
     (let hh = header_height c; nothing = \<lparr>pp_pre_commit = None, pp_header = None, pp_remove = []\<rparr> in
      rbind (rassert (block_height b > hh \<and> block_height b \<le> hh + 3)) (\<lambda>_.
      case prev_block_id b of
        None \<Rightarrow> Inr nothing
      | Some prev_id \<Rightarrow>
          (case map_of (sc_prepares c) prev_id of
             None \<Rightarrow> rbind (rassert (block_height b \<noteq> hh + 3)) (\<lambda>_. Inr nothing)
           | Some prev_block \<Rightarrow>
               let pre = nothing\<lparr>pp_pre_commit := Some (prev_id, prev_block)\<rparr> in
               (case prev_block_id prev_block of
                  None \<Rightarrow> Inr pre
                | Some prev_prev_id \<Rightarrow>
                    (case map_of (sc_pre_commits c) prev_prev_id of
                       None \<Rightarrow> rbind (rassert (block_height b = hh + 2)) (\<lambda>_. Inr pre)
                     | Some prev_prev_block \<Rightarrow>
                         rbind (rassert (block_height b = hh + 3 \<and> block_height prev_prev_block = hh + 1 \<and>
                           prev_block_id prev_prev_block = map_option gb_id (sc_header_block c))) (\<lambda>_.
                         rbind (rem_prepares (gb_id prev_prev_block) prev_id (sc_prepares c)) (\<lambda>rem.
                         Inr (pre\<lparr>pp_header := Some prev_prev_block, pp_remove := rem\<rparr>))))))))"

definition proposal_ids :: "group_block \<Rightarrow> object_id list" where
  "proposal_ids b = map bp_proposal (block_proposals b)"

definition block_ops :: "storage_cache \<Rightarrow> group_block \<Rightarrow> push_plan \<Rightarrow> storage_op list" where
  "block_ops c b p =
     [CreateWriter, InsertPrepares (gb_id b) (result_state_id b)] @
     (case pp_pre_commit p of
        Some (pc_id, pc) \<Rightarrow> [InsertPreCommit pc_id (result_state_id pc) (pp_header p \<noteq> None)]
      | None \<Rightarrow> []) @
     (case pp_header p of
        Some h \<Rightarrow>
          [PushCommit (block_height h) (gb_id h) (result_state_id h)
             (case sc_header_block c of None \<Rightarrow> None | Some b \<Rightarrow> result_state_id b)
             (case sc_first_block c of None \<Rightarrow> 0 | Some b \<Rightarrow> block_height b),
           RemovePrepares (pp_remove p)]
      | None \<Rightarrow> [])"

text \<open>Whether the proposals of the committed block start a new period of an hour.\<close>

definition flips :: "finish_proposal_mgr \<Rightarrow> group_block \<Rightarrow> bool" where
  "flips fp h = (wrapping_sub (block_time h) (fp_flip_timestamp fp) > PROPOSAL_MAX_TIMEOUT_AS_MICRO_SEC)"

definition write_push :: "(storage_op list \<Rightarrow> unit result) \<Rightarrow> storage_cache \<Rightarrow> group_block \<Rightarrow> push_plan \<Rightarrow> unit result" where
  "write_push w c b p =
     (let ops = block_ops c b p; fp = sc_finish_proposals c in
      case pp_header p of
        Some h \<Rightarrow>
          if length (block_proposals h) > 0 then
            rbind (w ops) (\<lambda>_.
            w (ops @ [PushProposals (proposal_ids h) (if flips fp h then Some (block_time h, fp_flip_timestamp fp) else None),
                 CommitWriter]))
          else w (ops @ [CommitWriter])
      | None \<Rightarrow> w (ops @ [CommitWriter]))"

fun add_finished :: "object_id list \<Rightarrow> object_id set \<Rightarrow> object_id set result" where
  "add_finished [] adding = Inr adding"
| "add_finished (p # ps) adding =
     rbind (rassert (p \<notin> adding)) (\<lambda>_. add_finished ps (insert p adding))"

definition finish_header :: "finish_proposal_mgr \<Rightarrow> group_block \<Rightarrow> finish_proposal_mgr result" where
  "finish_header fp h =
     (if length (block_proposals h) > 0 then
        (let fp = (if flips fp h then fp\<lparr>fp_over := fp_adding fp, fp_adding := {}, fp_flip_timestamp := block_time h\<rparr> else fp) in
        rbind (add_finished (proposal_ids h) (fp_adding fp)) (\<lambda>adding. Inr (fp\<lparr>fp_adding := adding\<rparr>)))
      else Inr fp)"

fun take_blocks :: "object_id list \<Rightarrow> (object_id \<times> group_block) list \<Rightarrow>
    (group_block list \<times> (object_id \<times> group_block) list) result" where
  "take_blocks [] m = Inr ([], m)"
| "take_blocks (k # ks) m =
     (case map_of m k of
        None \<Rightarrow> Inl Panic
      | Some b \<Rightarrow> rbind (take_blocks ks (AList.delete k m)) (\<lambda>(bs, m). Inr (b # bs, m)))"

type_synonym push_result = "(group_block \<times> group_block option \<times> group_block list) option"

definition update_memory :: "storage_cache \<Rightarrow> group_block \<Rightarrow> push_plan \<Rightarrow> (push_result \<times> storage_cache) result" where
  "update_memory c b p =
     rbind (rassert (map_of (sc_prepares c) (gb_id b) = None)) (\<lambda>_.
     let c = c\<lparr>sc_prepares := AList.update (gb_id b) b (sc_prepares c)\<rparr> in
     case pp_header p of
       Some h \<Rightarrow>
         (case pp_pre_commit p of
            None \<Rightarrow> Inl Panic
          | Some (pc_id, pc) \<Rightarrow>
              rbind (take_blocks (pp_remove p) (AList.delete pc_id (sc_prepares c))) (\<lambda>(removed, prepares).
              rbind (finish_header (sc_finish_proposals c) h) (\<lambda>fp.
              Inr (Some (h, sc_header_block c, map snd (sc_pre_commits c) @ removed),
                c\<lparr>sc_dec_state_id := result_state_id h, sc_prepares := prepares, sc_pre_commits := [(pc_id, pc)],
                  sc_first_block := (case sc_first_block c of None \<Rightarrow> Some h | Some f \<Rightarrow> Some f),
                  sc_finish_proposals := fp, sc_header_block := Some h\<rparr>))))
     | None \<Rightarrow>
         (case pp_pre_commit p of
            None \<Rightarrow> Inr (None, c)
          | Some (pc_id, pc) \<Rightarrow>
              rbind (rassert (pp_remove p = [] \<and> map_of (sc_pre_commits c) pc_id = None \<and>
                map_of (sc_prepares c) pc_id \<noteq> None)) (\<lambda>_.
              Inr (None, c\<lparr>sc_pre_commits := AList.update pc_id pc (sc_pre_commits c),
                sc_prepares := AList.delete pc_id (sc_prepares c)\<rparr>))))"

text \<open>After a panic the task of the runner is gone and its cache with it: the cache that is returned then
  stands for no state of the source, which may have changed some of its maps already.\<close>

definition push_block :: "(storage_op list \<Rightarrow> unit result) \<Rightarrow> group_block \<Rightarrow> storage_cache \<Rightarrow>
    push_result result \<times> storage_cache" where
  "push_block w b c =
     (case rbind (plan_push c b) (\<lambda>p. rbind (write_push w c b p) (\<lambda>_. update_memory c b p)) of
        Inl e \<Rightarrow> (Inl e, c)
      | Inr (r, c') \<Rightarrow> (Inr r, c'))"

subsection \<open>Rounds and certificates\<close>

definition set_last_vote_round :: "(storage_op list \<Rightarrow> unit result) \<Rightarrow> nat \<Rightarrow> storage_cache \<Rightarrow> unit result \<times> storage_cache" where
  "set_last_vote_round w round c =
     (if round \<le> sc_last_vote_round c then (Inr (), c)
      else case w [CreateWriter, SetLastVoteRound round (sc_last_vote_round c), CommitWriter] of
        Inl e \<Rightarrow> (Inl e, c)
      | Inr _ \<Rightarrow> (Inr (), c\<lparr>sc_last_vote_round := round\<rparr>))"

text \<open>\<open>put_qc\<close> stores the certificate as an object.\<close>

definition save_qc :: "(storage_op list \<Rightarrow> unit result) \<Rightarrow> (block_qc + hotstuff_timeout \<Rightarrow> unit result) \<Rightarrow> block_qc \<Rightarrow>
    storage_cache \<Rightarrow> unit result \<times> storage_cache" where
  "save_qc w put_qc qc c =
     (if qc_round qc < sc_last_vote_round c \<or> qc_round qc \<le> qc_round_of (sc_last_qc c) then (Inr (), c)
      else case rbind (put_qc (Inl qc)) (\<lambda>_. w [CreateWriter, SaveLastQc qc, CommitWriter]) of
        Inl e \<Rightarrow> (Inl e, c)
      | Inr _ \<Rightarrow> (Inr (), c\<lparr>sc_last_qc := Some qc\<rparr>))"

definition save_tc :: "(storage_op list \<Rightarrow> unit result) \<Rightarrow> (block_qc + hotstuff_timeout \<Rightarrow> unit result) \<Rightarrow>
    hotstuff_timeout \<Rightarrow> object_id \<Rightarrow> storage_cache \<Rightarrow> unit result \<times> storage_cache" where
  "save_tc w put_qc tc shell c =
     (if tc_round tc < sc_last_vote_round c \<or>
         tc_round tc \<le> (case sc_last_tc c of None \<Rightarrow> 0 | Some t \<Rightarrow> tc_round t) then (Inr (), c)
      else
        let tc = (if tc_group_shell_id tc = None then tc\<lparr>tc_group_shell_id := Some shell\<rparr> else tc) in
        case rbind (put_qc (Inr tc)) (\<lambda>_. w [CreateWriter, SaveLastTc tc, CommitWriter]) of
          Inl e \<Rightarrow> (Inl e, c)
        | Inr _ \<Rightarrow> (Inr (), c\<lparr>sc_last_tc := Some tc\<rparr>))"

subsection \<open>Searching a committed block by its round\<close>

definition search_height :: "nat \<Rightarrow> nat \<Rightarrow> nat \<Rightarrow> nat \<Rightarrow> nat \<Rightarrow> nat result" where
  "search_height round min_height min_round top_height max_round =
     (let e = wrapping_sub max_round min_round in
      if e = 0 then Inl Panic
      else Inr (wrap64 (min_height + wrap64 (wrapping_sub round min_round * wrapping_sub top_height min_height) div e)))"

partial_function (option) search_round :: "(nat \<Rightarrow> group_block result) \<Rightarrow> nat \<Rightarrow> group_block \<Rightarrow> nat \<Rightarrow> nat \<Rightarrow> nat \<Rightarrow> nat \<Rightarrow>
    group_block list \<Rightarrow> (group_block result \<times> group_block list) option" where
  "search_round get round b min_height min_round top_height max_round blocks =
     (if min_height < top_height then
        (if block_round b = round then Some (Inr b, blocks @ [b])
         else if block_round b < round then
           (case rbind (search_height round (wrap64 (block_height b + 1)) (wrap64 (block_round b + 1)) top_height max_round) get of
              Inl e \<Rightarrow> Some (Inl e, blocks @ [b])
            | Inr b' \<Rightarrow> search_round get round b' (wrap64 (block_height b + 1)) (wrap64 (block_round b + 1)) top_height max_round (blocks @ [b]))
         else
           (case rbind (search_height round min_height min_round (wrapping_sub (block_height b) 1) (wrapping_sub (block_round b) 1)) get of
              Inl e \<Rightarrow> Some (Inl e, blocks @ [b])
            | Inr b' \<Rightarrow> search_round get round b' min_height min_round (wrapping_sub (block_height b) 1) (wrapping_sub (block_round b) 1) (blocks @ [b])))
      else if block_round b = round then Some (Inr b, blocks)
      else Some (Inl (Err NotFound), blocks))"

declare search_round.simps [code]

definition find_block_by_round :: "(nat \<Rightarrow> object_id result) \<Rightarrow> (object_id \<Rightarrow> group_block result) \<Rightarrow> storage_cache \<Rightarrow> nat \<Rightarrow>
    (group_block result \<times> group_block list) option" where
  "find_block_by_round find_height get_block c round =
     (case sc_header_block c of
        None \<Rightarrow> Some (Inl (Err NotFound), [])
      | Some b \<Rightarrow>
          search_round (get_block_by_height find_height get_block c) round b 1 1 (block_height b) (block_round b) [])"

text \<open>The certificate that the answer to a query of the state carries.\<close>

definition state_certificate :: "storage_cache \<Rightarrow> (block_desc \<times> block_qc) result" where
  "state_certificate c =
     (case sc_header_block c of
        None \<Rightarrow> Inl (Err NotFound)
      | Some b \<Rightarrow>
          (case sc_pre_commits c of
             [] \<Rightarrow> Inl Panic
           | (_, qc_block) # _ \<Rightarrow>
               rbind (rassert (prev_block_id qc_block = Some (gb_id b))) (\<lambda>_.
               case block_qc_of qc_block of Some qc \<Rightarrow> Inr (gb_desc b, qc) | None \<Rightarrow> Inl Panic)))"

end
