(* ===== verification/Hotstuff.thy ===== *)
theory Hotstuff
  imports GroupStorage
begin

text \<open>
  The consensus of a group state, \<^verbatim>\<open>cyfs-group/src/consensus/hotstuff/hotstuff.rs\<close>: the state of the
  runner, its handlers, and the loop that takes a message, a generated block, a timeout or new
  proposals at a time. A handler is a state transformer that returns, returns an error, panics, or
  never returns. What the runner asks of the outside, devices, objects of other nodes, signatures,
  the application and the storage writer, is a record of functions; each step of the loop may see
  another one. What it tells the outside is appended to two logs, of messages and of other effects.
\<close>

subsection \<open>Messages and effects\<close>

datatype sync_bound = BoundHeight nat | BoundRound nat

datatype hs_message =
    MBlock group_block
  | MBlockVote qc_vote
  | MTimeoutVote timeout_vote
  | MTimeout hotstuff_timeout
  | MSyncRequest sync_bound sync_bound
  | MLastStateRequest
  | MStateChangeNotify group_block block_qc
  | MProposalResult object_id
  | MQueryState bytes
  | MVerifiableState bytes "(block_desc \<times> block_qc) result"

datatype hs_effect =
    CastVote object_id "object_id option" nat
  | SignTimeout nat nat object_id
  | SignBlock block_desc
  | Committed "object_id option" group_block
  | NotifyCommit group_block group_block
  | ReplyProposal object_id "bytes option result"
  | NotifyProposalErr object_id bucky_error_code
  | RemoveProposals "object_id list"
  | TimerReset nat
  | SyncPopBlock nat nat object_id
  | SyncWithRound nat nat object_id
  | SyncPushBlock nat group_block object_id

record group_proposal =
  gp_id :: object_id
  gp_create_time :: nat
  gp_effective_ending :: "nat option"

record execute_result =
  er_result_state_id :: "object_id option"
  er_receipt :: "bytes option"
  er_context :: "bytes option"

record hotstuff_env = committee_env +
  he_write :: "storage_op list \<Rightarrow> unit result"
  he_put_qc :: "block_qc + hotstuff_timeout \<Rightarrow> unit result"
  he_put_block :: "group_block \<Rightarrow> unit result"
  he_owner_ood :: "object_id \<Rightarrow> object_id result"
  he_get_proposal :: "object_id \<Rightarrow> object_id \<Rightarrow> group_proposal result"
  he_sub_tree :: "object_id \<Rightarrow> object_id \<Rightarrow> unit result"
  he_on_verify :: "group_proposal \<Rightarrow> object_id option \<Rightarrow> execute_result \<Rightarrow> unit result"
  he_on_execute :: "group_proposal \<Rightarrow> object_id option \<Rightarrow> execute_result result"
  he_decode_receipt :: "bytes \<Rightarrow> (bytes \<times> bytes) result"
  he_sign :: "bytes \<Rightarrow> bytes result"
  he_desc_hash :: "block_desc \<Rightarrow> bytes result"
  he_body_hash :: "block_body \<Rightarrow> bytes"
  he_calc_id :: "block_desc \<Rightarrow> object_id"
  he_now :: nat
  he_query_proposals :: "group_proposal list result"
  he_remove_proposals :: "object_id list \<Rightarrow> unit result"
  he_wait_proposals :: bool
  he_find_block_by_height :: "nat \<Rightarrow> object_id result"

type_synonym proposal_map = "(object_id \<times> group_proposal) list"

definition CHANNEL_CAPACITY :: nat where
  "CHANNEL_CAPACITY = 1000"

definition BLOCK_COUNT_REST_TO_SYNC :: nat where
  "BLOCK_COUNT_REST_TO_SYNC = 8"

definition GROUP_DEFAULT_CONSENSUS_INTERVAL :: nat where
  "GROUP_DEFAULT_CONSENSUS_INTERVAL = 5000"

definition HOTSTUFF_TIMEOUT_DEFAULT :: nat where
  "HOTSTUFF_TIMEOUT_DEFAULT = 5000"

text \<open>Times are in microseconds.\<close>

definition TIME_PRECISION :: nat where
  "TIME_PRECISION = 60000 * 1000"

definition PROPOSAL_MAX_TIMEOUT :: nat where
  "PROPOSAL_MAX_TIMEOUT = 3600 * 1000000"

subsection \<open>The runner\<close>

record hotstuff =
  hs_local_id :: object_id
  hs_local_device_id :: object_id
  hs_rpath :: group_rpath
  hs_store :: storage_cache
  hs_round :: nat
  hs_high_qc :: "block_qc option"
  hs_tc :: "hotstuff_timeout option"
  hs_max_quorum_round :: nat
  hs_max_quorum_height :: nat
  hs_vote_mgr :: vote_mgr
  hs_rx_message :: "(hs_message \<times> object_id) list"
  hs_rx_inner :: "(group_block \<times> object_id) list"
  hs_rx_block_gen :: "(group_block \<times> proposal_map) list"
  hs_rx_proposal_waiter :: "nat option"
  hs_noc :: "group_block list"
  hs_out :: "(object_id list \<times> hs_message) list"
  hs_effects :: "hs_effect list"

definition hotstuff_new :: "object_id \<Rightarrow> object_id \<Rightarrow> group_rpath \<Rightarrow> storage_cache \<Rightarrow> hotstuff" where
  "hotstuff_new local_id local_device_id rpath store =
     (let max_round_block = block_with_max_round store;
          block_quorum_round = qc_round_of (sc_last_qc store);
          timeout_quorum_round = (case sc_last_tc store of None \<Rightarrow> 0 | Some tc \<Rightarrow> tc_round tc);
          quorum_round = max block_quorum_round timeout_quorum_round;
          max_round_block_round = (case max_round_block of None \<Rightarrow> 0 | Some b \<Rightarrow> block_round b);
          max_round_qc_round = (case max_round_block of None \<Rightarrow> 0 | Some b \<Rightarrow> qc_round_of (block_qc_of b));
          round = max (max (sc_last_vote_round store) (quorum_round + 1)) max_round_block_round
      in \<lparr>hs_local_id = local_id, hs_local_device_id = local_device_id, hs_rpath = rpath, hs_store = store,
          hs_round = round,
          hs_high_qc = (if max_round_qc_round \<ge> block_quorum_round
            then Option.bind max_round_block block_qc_of else sc_last_qc store),
          hs_tc = sc_last_tc store, hs_max_quorum_round = round - 1,
          hs_max_quorum_height = (if header_height store = 0 then 0 else header_height store + 1),
          hs_vote_mgr = vote_mgr_new round, hs_rx_message = [], hs_rx_inner = [], hs_rx_block_gen = [],
          hs_rx_proposal_waiter = None, hs_noc = [], hs_out = [], hs_effects = []\<rparr>)"

text \<open>A handler gives None when it never returns.\<close>

type_synonym 'a hs = "hotstuff \<Rightarrow> 'a result option \<times> hotstuff"

definition hret :: "'a \<Rightarrow> 'a hs" where
  "hret x = (\<lambda>s. (Some (Inr x), s))"

definition hlift :: "'a result \<Rightarrow> 'a hs" where
  "hlift r = (\<lambda>s. (Some r, s))"

definition hlift_opt :: "'a result option \<Rightarrow> 'a hs" where
  "hlift_opt r = (\<lambda>s. (r, s))"

definition hget :: "(hotstuff \<Rightarrow> 'a) \<Rightarrow> 'a hs" where
  "hget f = (\<lambda>s. (Some (Inr (f s)), s))"

definition hmod :: "(hotstuff \<Rightarrow> hotstuff) \<Rightarrow> unit hs" where
  "hmod f = (\<lambda>s. (Some (Inr ()), f s))"

definition hbind :: "'a hs \<Rightarrow> ('a \<Rightarrow> 'b hs) \<Rightarrow> 'b hs" where
  "hbind m f = (\<lambda>s. case m s of
     (r, s') \<Rightarrow> (case r of None \<Rightarrow> (None, s') | Some (Inl e) \<Rightarrow> (Some (Inl e), s') | Some (Inr x) \<Rightarrow> f x s'))"

text \<open>A call whose error is inspected and not returned.\<close>

definition htry :: "'a hs \<Rightarrow> (bucky_error_code + 'a) hs" where
  "htry m = (\<lambda>s. case m s of
     (r, s') \<Rightarrow> (case r of
        None \<Rightarrow> (None, s')
      | Some (Inr x) \<Rightarrow> (Some (Inr (Inr x)), s')
      | Some (Inl (Err e)) \<Rightarrow> (Some (Inr (Inl e)), s')
      | Some (Inl Panic) \<Rightarrow> (Some (Inl Panic), s')
      | Some (Inl UB) \<Rightarrow> (Some (Inl UB), s')))"

definition on_store :: "(storage_cache \<Rightarrow> 'a result \<times> storage_cache) \<Rightarrow> 'a hs" where
  "on_store f = (\<lambda>s. case f (hs_store s) of (r, c) \<Rightarrow> (Some r, s\<lparr>hs_store := c\<rparr>))"

definition on_votes :: "(vote_mgr \<Rightarrow> 'a result \<times> vote_mgr) \<Rightarrow> 'a hs" where
  "on_votes f = (\<lambda>s. case f (hs_vote_mgr s) of (r, vm) \<Rightarrow> (Some r, s\<lparr>hs_vote_mgr := vm\<rparr>))"

definition emit :: "hs_effect \<Rightarrow> hotstuff \<Rightarrow> hotstuff" where
  "emit e s = s\<lparr>hs_effects := hs_effects s @ [e]\<rparr>"

definition post_message :: "hs_message \<Rightarrow> object_id \<Rightarrow> hotstuff \<Rightarrow> hotstuff" where
  "post_message msg target s = s\<lparr>hs_out := hs_out s @ [([target], msg)]\<rparr>"

definition broadcast :: "hs_message \<Rightarrow> group_info \<Rightarrow> hotstuff \<Rightarrow> hotstuff" where
  "broadcast msg g s =
     s\<lparr>hs_out := hs_out s @ [(filter (\<lambda>ood. ood \<noteq> hs_local_device_id s) (gi_oods g), msg)]\<rparr>"

text \<open>The runner sends to one of its own channels: it is the only receiver and does not receive while it
  waits for room, so it never returns from sending to a full one.\<close>

definition send_message :: "hs_message \<times> object_id \<Rightarrow> unit hs" where
  "send_message m = (\<lambda>s.
     if length (hs_rx_message s) < CHANNEL_CAPACITY
     then (Some (Inr ()), s\<lparr>hs_rx_message := hs_rx_message s @ [m]\<rparr>) else (None, s))"

definition send_inner :: "group_block \<times> object_id \<Rightarrow> unit hs" where
  "send_inner m = (\<lambda>s.
     if length (hs_rx_inner s) < CHANNEL_CAPACITY
     then (Some (Inr ()), s\<lparr>hs_rx_inner := hs_rx_inner s @ [m]\<rparr>) else (None, s))"

definition send_block_gen :: "group_block \<times> proposal_map \<Rightarrow> unit hs" where
  "send_block_gen m = (\<lambda>s.
     if length (hs_rx_block_gen s) < 1
     then (Some (Inr ()), s\<lparr>hs_rx_block_gen := hs_rx_block_gen s @ [m]\<rparr>) else (None, s))"

subsection \<open>Checks on a block\<close>

definition check_block_result_state :: "group_block \<Rightarrow> unit result" where
  "check_block_result_state b =
     (if block_proposals b \<noteq> [] \<and> bp_result_state (last (block_proposals b)) \<noteq> result_state_id b
      then Inl (Err Unmatch) else Inr ())"

definition check_empty_block_result_state_with_prev :: "group_block \<Rightarrow> group_block option \<Rightarrow> unit result" where
  "check_empty_block_result_state_with_prev b prev_block =
     (if block_proposals b = [] then
        (case prev_block of
           Some p \<Rightarrow> if result_state_id b \<noteq> result_state_id p then Inl (Err Unmatch) else Inr ()
         | None \<Rightarrow> Inl (Err Ignored))
      else Inr ())"

definition calc_time_delta :: "nat \<Rightarrow> nat \<Rightarrow> nat" where
  "calc_time_delta t1 t2 = (if t2 \<le> t1 then t1 - t2 else t2 - t1)"

fun check_proposal_times :: "nat \<Rightarrow> block_proposal list \<Rightarrow> proposal_map \<Rightarrow> bool result" where
  "check_proposal_times block_timestamp [] proposals = Inr True"
| "check_proposal_times block_timestamp (p # ps) proposals =
     (case map_of proposals (bp_proposal p) of
        None \<Rightarrow> Inl Panic
      | Some proposal \<Rightarrow>
          if calc_time_delta block_timestamp (gp_create_time proposal) > TIME_PRECISION then Inr False
          else check_proposal_times block_timestamp ps proposals)"

definition check_timestamp_precision :: "nat \<Rightarrow> group_block \<Rightarrow> group_block option \<Rightarrow> proposal_map \<Rightarrow> bool result" where
  "check_timestamp_precision now b prev_block proposals =
     (if calc_time_delta now (block_time b) > TIME_PRECISION then Inr False
      else if (case prev_block of
                 Some p \<Rightarrow> block_time p \<ge> block_time b \<and> block_time p - block_time b > TIME_PRECISION
               | None \<Rightarrow> False) then Inr False
      else check_proposal_times (block_time b) (block_proposals b) proposals)"

fun make_sure_result_state :: "hotstuff_env \<Rightarrow> object_id \<Rightarrow> object_id list \<Rightarrow> unit result" where
  "make_sure_result_state E state_id [] = Inr ()"
| "make_sure_result_state E state_id [remote] = he_sub_tree E state_id remote"
| "make_sure_result_state E state_id (remote # remotes) =
     (case he_sub_tree E state_id remote of
        Inl (Err _) \<Rightarrow> make_sure_result_state E state_id remotes
      | r \<Rightarrow> r)"

text \<open>The proposals of a block, the last one first.\<close>

fun load_proposals :: "hotstuff_env \<Rightarrow> object_id \<Rightarrow> block_proposal list \<Rightarrow> proposal_map \<Rightarrow> proposal_map result" where
  "load_proposals E remote [] m = Inr m"
| "load_proposals E remote (p # ps) m =
     rbind (he_get_proposal E (bp_proposal p) remote) (\<lambda>proposal.
     rbind (rassert (bp_proposal p = gp_id proposal)) (\<lambda>_.
     load_proposals E remote ps (AList.update (bp_proposal p) proposal m)))"

definition load_all_proposals_for_block :: "hotstuff_env \<Rightarrow> group_block \<Rightarrow> proposal_map result" where
  "load_all_proposals_for_block E b =
     rbind (block_owner b) (\<lambda>owner.
     rbind (he_owner_ood E owner) (\<lambda>remote. load_proposals E remote (rev (block_proposals b)) []))"

fun get_proposals :: "hotstuff_env \<Rightarrow> object_id \<Rightarrow> block_proposal list \<Rightarrow> proposal_map \<Rightarrow> proposal_map result" where
  "get_proposals E remote [] m = Inr m"
| "get_proposals E remote (p # ps) m =
     rbind (he_get_proposal E (bp_proposal p) remote) (\<lambda>proposal.
     get_proposals E remote ps (AList.update (bp_proposal p) proposal m))"

fun verify_proposals :: "hotstuff_env \<Rightarrow> storage_cache \<Rightarrow> group_block \<Rightarrow> proposal_map \<Rightarrow> block_proposal list \<Rightarrow>
    object_id option \<Rightarrow> object_id option result" where
  "verify_proposals E c b proposals [] prev_state_id = Inr prev_state_id"
| "verify_proposals E c b proposals (p # ps) prev_state_id =
     (if (case prev_block_id b of Some prev_id \<Rightarrow> is_proposal_finished c (bp_proposal p) prev_id | None \<Rightarrow> False)
      then Inl (Err ErrorState)
      else case map_of proposals (bp_proposal p) of
        None \<Rightarrow> Inl Panic
      | Some proposal \<Rightarrow>
          rbind (case bp_receipt p of
                   Some r \<Rightarrow> rbind (he_decode_receipt E r) (\<lambda>(receipt, _). Inr (Some receipt))
                 | None \<Rightarrow> Inr None) (\<lambda>receipt.
          rbind (he_on_verify E proposal prev_state_id
                   \<lparr>er_result_state_id = bp_result_state p, er_receipt = receipt, er_context = bp_context p\<rparr>) (\<lambda>_.
          verify_proposals E c b proposals ps (bp_result_state p))))"

text \<open>The state of the previous block is rebuilt first when it cannot be loaded.\<close>

partial_function (option) check_block_proposal_result_state_by_app ::
    "hotstuff_env \<Rightarrow> storage_cache \<Rightarrow> object_id \<Rightarrow> group_block \<Rightarrow> proposal_map \<Rightarrow> group_block option \<Rightarrow>
     unit result option" where
  "check_block_proposal_result_state_by_app E c remote b proposals prev_block =
     Option.bind
       (case prev_block of
          None \<Rightarrow> Some (Inr None)
        | Some prev \<Rightarrow>
            (case result_state_id prev of
               None \<Rightarrow> Some (Inr None)
             | Some state_id \<Rightarrow>
                 (case rbind (block_owner prev) (\<lambda>owner. make_sure_result_state E state_id [owner, remote]) of
                    Inr _ \<Rightarrow> Some (Inr (Some state_id))
                  | Inl f \<Rightarrow>
                      (case f of
                         Err e \<Rightarrow>
                           (case prev_block_id prev of
                              None \<Rightarrow> Some (Inl (Err e))
                            | Some prev_prev_id \<Rightarrow>
                                (case rbind (ce_get_block E prev_prev_id) (\<lambda>prev_prev.
                                        rbind (block_owner prev) (\<lambda>owner.
                                        rbind (get_proposals E owner (block_proposals prev) []) (\<lambda>prev_proposals.
                                        Inr (prev_prev, prev_proposals)))) of
                                   Inl f \<Rightarrow> Some (Inl f)
                                 | Inr x \<Rightarrow>
                                     Option.bind
                                       (check_block_proposal_result_state_by_app E c remote prev (snd x) (Some (fst x)))
                                       (\<lambda>r. Some (rbind r (\<lambda>_. Inr (Some state_id))))))
                       | Panic \<Rightarrow> Some (Inl Panic)
                       | UB \<Rightarrow> Some (Inl UB)))))
       (\<lambda>r. Some (rbind r (\<lambda>prev_state_id.
          rbind (verify_proposals E c b proposals (block_proposals b) prev_state_id) (\<lambda>state_id.
          rassert (state_id = result_state_id b)))))"

declare check_block_proposal_result_state_by_app.simps [code]

subsection \<open>Leaders, groups and channels\<close>

definition get_leader_owner :: "hotstuff_env \<Rightarrow> object_id option \<Rightarrow> nat \<Rightarrow> object_id result" where
  "get_leader_owner E shell round =
     rbind (get_leader E shell round) (\<lambda>leader.
     rbind (ce_device E leader) (\<lambda>device.
     case dev_owner device of Some owner \<Rightarrow> Inr owner | None \<Rightarrow> Inl (Err InvalidTarget)))"

definition is_same_ood_list :: "group_info \<Rightarrow> group_info \<Rightarrow> bool" where
  "is_same_ood_list g other =
     (length (gi_oods g) = length (gi_oods other) \<and> list_all (\<lambda>i. i \<in> set (gi_oods other)) (gi_oods g))"

definition check_group_is_latest :: "hotstuff_env \<Rightarrow> object_id \<Rightarrow> bool result" where
  "check_group_is_latest E shell =
     (if gi_shell_id (ce_local_group E) = shell then Inr True
      else rbind (ce_group E None) (\<lambda>latest. Inr (gi_shell_id latest = shell)))"

definition fetch_block :: "hotstuff_env \<Rightarrow> object_id \<Rightarrow> object_id \<Rightarrow> unit hs" where
  "fetch_block E block_id remote =
     hbind (hlift (ce_get_block E block_id)) (\<lambda>b. send_inner (b, remote))"

text \<open>The blocks between the header and a block, fetched from the block backwards.\<close>

fun fetch_prev_blocks :: "hotstuff_env \<Rightarrow> storage_cache \<Rightarrow> nat \<Rightarrow> nat \<Rightarrow> object_id option \<Rightarrow> group_block list \<Rightarrow>
    group_block list result" where
  "fetch_prev_blocks E c 0 expected fetching blocks = Inr blocks"
| "fetch_prev_blocks E c (Suc n) expected fetching blocks =
     (case fetching of
        None \<Rightarrow> Inl (Err Failed)
      | Some block_id \<Rightarrow>
          if (case find_block_in_cache c block_id of Inr _ \<Rightarrow> True | Inl _ \<Rightarrow> False) then Inr blocks
          else
            rbind (ce_get_block E block_id) (\<lambda>b.
            if block_height b \<noteq> expected then Inl (Err Unmatch)
            else fetch_prev_blocks E c n (expected - 1) (prev_block_id b) (b # blocks)))"

fun send_inner_all :: "(group_block \<times> object_id) list \<Rightarrow> unit hs" where
  "send_inner_all [] = hret ()"
| "send_inner_all (m # ms) = hbind (send_inner m) (\<lambda>_. send_inner_all ms)"

definition sync_to_block_by_get_prev :: "hotstuff_env \<Rightarrow> group_block \<Rightarrow> object_id \<Rightarrow> unit hs" where
  "sync_to_block_by_get_prev E latest_block remote =
     hbind (hget hs_store) (\<lambda>c.
     if block_height latest_block \<le> header_height c then hret ()
     else
       hbind (hlift (fetch_prev_blocks E c (block_height latest_block - header_height c - 1)
         (block_height latest_block - 1) (prev_block_id latest_block) [latest_block])) (\<lambda>blocks.
       send_inner_all (map (\<lambda>b. (b, remote)) blocks)))"

definition sync_to_block :: "hotstuff_env \<Rightarrow> group_block \<Rightarrow> object_id \<Rightarrow> unit hs" where
  "sync_to_block E latest_block remote =
     hbind (hget hs_store) (\<lambda>c.
     let fetch_height_immediate = header_height c + 3 in
     if block_height latest_block \<le> fetch_height_immediate then
       hbind (htry (sync_to_block_by_get_prev E latest_block remote)) (\<lambda>r.
       case r of
         Inr _ \<Rightarrow> hret ()
       | Inl _ \<Rightarrow>
           hmod (\<lambda>s. emit (SyncPushBlock fetch_height_immediate latest_block remote)
             (post_message (MSyncRequest (BoundHeight (header_height c + 1)) (BoundHeight (wrapping_sub (block_height latest_block) 1)))
               remote s)))
     else
       hmod (\<lambda>s. emit (SyncPushBlock fetch_height_immediate latest_block remote)
         (if max_height c + 1 \<le> fetch_height_immediate - 1
          then post_message (MSyncRequest (BoundHeight (max_height c + 1)) (BoundHeight (fetch_height_immediate - 1))) remote s
          else s)))"

text \<open>The error case is the value that \<^verbatim>\<open>handle_block\<close> returns at once.\<close>

definition check_block_linked :: "hotstuff_env \<Rightarrow> group_block \<Rightarrow> object_id \<Rightarrow> (unit result + group_block option) hs" where
  "check_block_linked E b remote =
     hbind (hget hs_store) (\<lambda>c.
     case block_linked c b of
       Inl e \<Rightarrow> hret (Inl (Inl e))
     | Inr LinkExpired \<Rightarrow> hret (Inl (Inl (Err Ignored)))
     | Inr LinkDuplicate \<Rightarrow> hret (Inl (Inl (Err AlreadyExists)))
     | Inr (LinkTo prev_block) \<Rightarrow>
         (case check_empty_block_result_state_with_prev b prev_block of
            Inl e \<Rightarrow> hret (Inl (Inl e))
          | Inr _ \<Rightarrow> hret (Inr prev_block))
     | Inr LinkPending \<Rightarrow> hbind (sync_to_block E b remote) (\<lambda>_. hret (Inl (Inr ())))
     | Inr LinkInvalidBranch \<Rightarrow> hret (Inl (Inl (Err Conflict))))"

subsection \<open>Rounds and certificates\<close>

definition update_max_quorum_round :: "nat \<Rightarrow> hotstuff \<Rightarrow> hotstuff" where
  "update_max_quorum_round r s = (if r > hs_max_quorum_round s then s\<lparr>hs_max_quorum_round := r\<rparr> else s)"

definition update_max_quorum_height :: "nat \<Rightarrow> hotstuff \<Rightarrow> hotstuff" where
  "update_max_quorum_height h s = (if h > hs_max_quorum_height s then s\<lparr>hs_max_quorum_height := h\<rparr> else s)"

definition update_high_qc :: "block_qc option \<Rightarrow> hotstuff \<Rightarrow> hotstuff" where
  "update_high_qc qc s = (if qc_round_of qc > qc_round_of (hs_high_qc s) then s\<lparr>hs_high_qc := qc\<rparr> else s)"

definition advance_round :: "nat \<Rightarrow> hotstuff \<Rightarrow> hotstuff" where
  "advance_round r s =
     (if r < hs_round s then s
      else (emit (TimerReset GROUP_DEFAULT_CONSENSUS_INTERVAL) s)
        \<lparr>hs_round := r + 1, hs_vote_mgr := vm_cleanup (r + 1) (hs_vote_mgr s), hs_tc := None\<rparr>)"

definition process_qc :: "block_qc option \<Rightarrow> hotstuff \<Rightarrow> hotstuff" where
  "process_qc qc s = update_high_qc qc (advance_round (qc_round_of qc) (update_max_quorum_round (qc_round_of qc) s))"

definition with_tc :: "hotstuff \<Rightarrow> hotstuff_timeout option" where
  "with_tc s = (case hs_tc s of Some tc \<Rightarrow> if tc_round tc + 1 = hs_round s then Some tc else None | None \<Rightarrow> None)"

definition is_synchronizing :: "hotstuff \<Rightarrow> bool" where
  "is_synchronizing s = (hs_max_quorum_height s > max_height (hs_store s) + BLOCK_COUNT_REST_TO_SYNC)"

subsection \<open>Generating a block\<close>

record exec_sort =
  xs_remove :: "object_id list"
  xs_adjust :: "group_proposal list"
  xs_timeout :: "group_proposal list"
  xs_failed :: "(group_proposal \<times> bucky_error_code) list"
  xs_executed :: "(group_proposal \<times> execute_result) list"
  xs_state :: "object_id option"

fun exec_proposals :: "hotstuff_env \<Rightarrow> storage_cache \<Rightarrow> block_qc option \<Rightarrow> group_proposal list \<Rightarrow> exec_sort \<Rightarrow> exec_sort result" where
  "exec_proposals E c high_qc [] x = Inr x"
| "exec_proposals E c high_qc (p # ps) x =
     (if (case high_qc of Some qc \<Rightarrow> is_proposal_finished c (gp_id p) (qc_block_id qc) | None \<Rightarrow> False)
      then exec_proposals E c high_qc ps (x\<lparr>xs_remove := xs_remove x @ [gp_id p]\<rparr>)
      else if calc_time_delta (he_now E) (gp_create_time p) > TIME_PRECISION
      then exec_proposals E c high_qc ps (x\<lparr>xs_remove := xs_remove x @ [gp_id p], xs_adjust := xs_adjust x @ [p]\<rparr>)
      else if he_now E \<ge> (case gp_effective_ending p of None \<Rightarrow> he_now E + PROPOSAL_MAX_TIMEOUT | Some ending \<Rightarrow> ending)
      then exec_proposals E c high_qc ps (x\<lparr>xs_remove := xs_remove x @ [gp_id p], xs_timeout := xs_timeout x @ [p]\<rparr>)
      else case he_on_execute E p (xs_state x) of
        Inr r \<Rightarrow> exec_proposals E c high_qc ps (x\<lparr>xs_state := er_result_state_id r, xs_executed := xs_executed x @ [(p, r)]\<rparr>)
      | Inl (Err e) \<Rightarrow>
          exec_proposals E c high_qc ps (x\<lparr>xs_remove := xs_remove x @ [gp_id p], xs_failed := xs_failed x @ [(p, e)]\<rparr>)
      | Inl Panic \<Rightarrow> Inl Panic
      | Inl UB \<Rightarrow> Inl UB)"

definition notify_sorted :: "exec_sort \<Rightarrow> hotstuff \<Rightarrow> hotstuff" where
  "notify_sorted x s =
     s\<lparr>hs_effects := hs_effects s @
         map (\<lambda>p. NotifyProposalErr (gp_id p) ErrorTimestamp) (xs_adjust x) @
         map (\<lambda>p. NotifyProposalErr (gp_id p) Timeout) (xs_timeout x) @
         map (\<lambda>(p, e). NotifyProposalErr (gp_id p) e) (xs_failed x) @ [RemoveProposals (xs_remove x)]\<rparr>"

definition try_wait_proposals :: "hotstuff_env \<Rightarrow> nat \<Rightarrow> group_block option \<Rightarrow> bool hs" where
  "try_wait_proposals E proposal_count pre_block =
     hbind (hget hs_store) (\<lambda>c.
     let will_wait =
       (if proposal_count = 0 then
          (case pre_block of
             None \<Rightarrow> True
           | Some b \<Rightarrow>
               if length (block_proposals b) = 0 then
                 (case prev_block_id b of
                    Some pre_pre_id \<Rightarrow>
                      (case find_block_in_cache c pre_pre_id of
                         Inr pp \<Rightarrow> length (block_proposals pp) = 0
                       | Inl _ \<Rightarrow> False)
                  | None \<Rightarrow> True)
               else False)
        else False)
     in if will_wait \<and> he_wait_proposals E
        then hbind (hmod (\<lambda>s. s\<lparr>hs_rx_proposal_waiter := Some (hs_round s)\<rparr>)) (\<lambda>_. hret True)
        else hret False)"

definition sign_block :: "hotstuff_env \<Rightarrow> group_block \<Rightarrow> group_block hs" where
  "sign_block E b =
     hbind (hlift (he_desc_hash E (gb_desc b))) (\<lambda>hash.
     hbind (hmod (emit (SignBlock (gb_desc b)))) (\<lambda>_.
     hbind (hlift (he_sign E hash)) (\<lambda>sig.
     hbind (hget hs_local_device_id) (\<lambda>device.
     hret (b\<lparr>gb_signs := Some [\<lparr>bs_source = SsObject device, bs_data = sig\<rparr>]\<rparr>)))))"

definition put_block :: "hotstuff_env \<Rightarrow> group_block \<Rightarrow> unit hs" where
  "put_block E b =
     hbind (hlift (he_put_block E b)) (\<lambda>_. hmod (\<lambda>s. s\<lparr>hs_noc := hs_noc s @ [b]\<rparr>))"

definition package_block_with_proposals :: "hotstuff_env \<Rightarrow> (group_proposal \<times> execute_result) list \<Rightarrow> group_info \<Rightarrow>
    object_id option \<Rightarrow> group_block option \<Rightarrow> hotstuff_timeout option \<Rightarrow> group_block hs" where
  "package_block_with_proposals E executed g result_state prev_block tc =
     hbind (hget (\<lambda>s. block_create (he_body_hash E) (he_calc_id E) (he_now E) (hs_rpath s)
       (map (\<lambda>(p, r). \<lparr>bp_proposal = gp_id p, bp_result_state = er_result_state_id r, bp_receipt = er_receipt r,
          bp_context = er_context r\<rparr>) executed)
       result_state ((case prev_block of None \<Rightarrow> 0 | Some b \<Rightarrow> block_height b) + 1) 0 (hs_round s)
       (gi_shell_id g) (hs_high_qc s) tc (hs_local_id s))) (\<lambda>b.
     hbind (sign_block E b) (\<lambda>b.
     hbind (put_block E b) (\<lambda>_. hret b)))"

definition generate_block :: "hotstuff_env \<Rightarrow> hotstuff_timeout option \<Rightarrow> unit hs" where
  "generate_block E tc =
     hbind (hlift (he_query_proposals E)) (\<lambda>proposals.
     hbind (hget hs_high_qc) (\<lambda>high_qc.
     hbind (hget hs_store) (\<lambda>c.
     hbind (hlift (case high_qc of
              Some qc \<Rightarrow>
                rbind (find_block_in_cache c (qc_block_id qc)) (\<lambda>prev.
                rbind (case result_state_id prev of
                         Some st \<Rightarrow> rbind (block_owner prev) (\<lambda>owner. make_sure_result_state E st [owner])
                       | None \<Rightarrow> Inr ()) (\<lambda>_. Inr (Some prev)))
            | None \<Rightarrow> Inr None)) (\<lambda>prev_block.
     hbind (hlift (ce_group E None)) (\<lambda>latest_group.
     hbind (hlift (exec_proposals E c high_qc (sort_key gp_create_time proposals)
              \<lparr>xs_remove = [], xs_adjust = [], xs_timeout = [], xs_failed = [], xs_executed = [],
               xs_state = (case prev_block of Some b \<Rightarrow> result_state_id b | None \<Rightarrow> sc_dec_state_id c)\<rparr>)) (\<lambda>x.
     hbind (hmod (notify_sorted x)) (\<lambda>_.
     hbind (htry (hlift (he_remove_proposals E (xs_remove x)))) (\<lambda>_.
     hbind (try_wait_proposals E (length (xs_executed x)) prev_block) (\<lambda>waits.
     if waits then hret ()
     else
       hbind (package_block_with_proposals E (xs_executed x) latest_group (xs_state x) prev_block tc) (\<lambda>b.
       hbind (hmod (broadcast (MBlock b) latest_group)) (\<lambda>_.
       hbind (send_block_gen (b, fold (\<lambda>(p, _). AList.update (gp_id p) p) (xs_executed x) [])) (\<lambda>_.
       hmod (\<lambda>s. s\<lparr>hs_rx_proposal_waiter := None\<rparr>)))))))))))))"

subsection \<open>Voting\<close>

text \<open>An error counts as a negative answer.\<close>

definition ok_or_false :: "bool result \<Rightarrow> bool result" where
  "ok_or_false r = (case r of Inl (Err _) \<Rightarrow> Inr False | _ \<Rightarrow> r)"

text \<open>Whether the block is already decided without this vote, and then whether its result state must
  still be computed.\<close>

definition vote_mode :: "hotstuff_env \<Rightarrow> group_block \<Rightarrow> object_id \<Rightarrow> hotstuff \<Rightarrow> bool option result" where
  "vote_mode E b remote s =
     (if hs_max_quorum_height s \<ge> max_height (hs_store s) then
        (case result_state_id b of
           Some st \<Rightarrow>
             rbind (block_owner b) (\<lambda>owner.
             case make_sure_result_state E st [owner, remote] of
               Inr _ \<Rightarrow> Inr None
             | Inl (Err _) \<Rightarrow> Inr (Some True)
             | Inl Panic \<Rightarrow> Inl Panic
             | Inl UB \<Rightarrow> Inl UB)
         | None \<Rightarrow> Inr None)
      else Inr (Some False))"

definition is_valid_round :: "group_block \<Rightarrow> bool" where
  "is_valid_round b =
     (block_round b = qc_round_of (block_qc_of b) + 1 \<or>
      (case block_tc_of b of Some tc \<Rightarrow> block_round b = tc_round tc + 1 | None \<Rightarrow> False))"

definition vote_prev_block :: "storage_cache \<Rightarrow> group_block \<Rightarrow> group_block option option" where
  "vote_prev_block c b =
     (case prev_block_id b of
        Some prev_id \<Rightarrow> (case find_block_in_cache c prev_id of Inr p \<Rightarrow> Some (Some p) | Inl _ \<Rightarrow> None)
      | None \<Rightarrow> Some None)"

definition vote_proposals :: "hotstuff_env \<Rightarrow> group_block \<Rightarrow> proposal_map \<Rightarrow> proposal_map option result" where
  "vote_proposals E b proposals =
     (if length proposals = 0 \<and> length (block_proposals b) > 0 then
        (case load_all_proposals_for_block E b of
           Inr m \<Rightarrow> Inr (Some m)
         | Inl (Err _) \<Rightarrow> Inr None
         | Inl Panic \<Rightarrow> Inl Panic
         | Inl UB \<Rightarrow> Inl UB)
      else rbind (rassert (length proposals = length (block_proposals b))) (\<lambda>_. Inr (Some proposals)))"

text \<open>The checks before a vote is signed: None when the block is not voted for.\<close>

definition vote_checks :: "hotstuff_env \<Rightarrow> group_block \<Rightarrow> proposal_map \<Rightarrow> object_id \<Rightarrow> hotstuff \<Rightarrow> bool result option" where
  "vote_checks E b proposals remote s =
     (let c = hs_store s in
      if block_round b \<le> sc_last_vote_round c then Some (Inr False)
      else case vote_mode E b remote s of
        Inl e \<Rightarrow> Some (Inl e)
      | Inr None \<Rightarrow> Some (Inr False)
      | Inr (Some only_rebuild) \<Rightarrow>
          (case vote_prev_block c b of
             None \<Rightarrow> Some (Inr False)
           | Some prev_block \<Rightarrow>
               if block_height b \<noteq> max_height c then Some (Inr False)
               else if qc_round_of (block_qc_of b) \<noteq> (case prev_block of None \<Rightarrow> 0 | Some p \<Rightarrow> block_round p)
               then Some (Inr False)
               else if \<not> is_valid_round b then Some (Inr False)
               else
                 (case rbind (if only_rebuild then Inr True else ok_or_false (check_group_is_latest E (block_shell b))) (\<lambda>latest.
                         if \<not> latest then Inr None
                         else
                           rbind (vote_proposals E b proposals) (\<lambda>loaded.
                           case loaded of
                             None \<Rightarrow> Inr None
                           | Some m \<Rightarrow>
                               rbind (if only_rebuild then Inr True
                                      else check_timestamp_precision (he_now E) b prev_block m) (\<lambda>in_time.
                               if \<not> in_time then Inr None
                               else if \<not> only_rebuild \<and> length m \<noteq> length (block_proposals b) then Inr None
                               else Inr (Some m)))) of
                    Inl e \<Rightarrow> Some (Inl e)
                  | Inr None \<Rightarrow> Some (Inr False)
                  | Inr (Some m) \<Rightarrow>
                      map_option (\<lambda>r. ok_or_false (rbind r (\<lambda>_. Inr (\<not> only_rebuild))))
                        (check_block_proposal_result_state_by_app E c remote b m prev_block))))"

definition make_vote :: "hotstuff_env \<Rightarrow> group_block \<Rightarrow> proposal_map \<Rightarrow> object_id \<Rightarrow> qc_vote option hs" where
  "make_vote E b proposals remote =
     hbind (\<lambda>s. (vote_checks E b proposals remote s, s)) (\<lambda>ok.
     if \<not> ok then hret None
     else
       hbind (hget hs_local_device_id) (\<lambda>device.
       hbind (htry (hlift (qc_vote_new (ce_sha256 E) (he_sign E) b device))) (\<lambda>vote.
       case vote of
         Inl _ \<Rightarrow> hret None
       | Inr vote \<Rightarrow>
           hbind (htry (on_store (set_last_vote_round (he_write E) (block_round b)))) (\<lambda>r.
           case r of
             Inl _ \<Rightarrow> hret None
           | Inr _ \<Rightarrow>
               hbind (hmod (emit (CastVote (gb_id b) (prev_block_id b) (block_round b)))) (\<lambda>_. hret (Some vote))))))"

subsection \<open>Certificates and votes\<close>

definition process_block_qc :: "hotstuff_env \<Rightarrow> block_qc \<Rightarrow> group_block \<Rightarrow> object_id \<Rightarrow> unit hs" where
  "process_block_qc E qc prev_block remote =
     hbind (on_store (save_qc (he_write E) (he_put_qc E) qc)) (\<lambda>_.
     hbind (hmod (\<lambda>s. update_max_quorum_height (block_height prev_block) (process_qc (Some qc) s))) (\<lambda>_.
     hbind (hget hs_round) (\<lambda>round.
     hbind (hlift (get_leader E None round)) (\<lambda>new_leader.
     hbind (hget hs_local_device_id) (\<lambda>device.
     if device = new_leader then
       hbind (hget with_tc) (\<lambda>tc. hbind (htry (generate_block E tc)) (\<lambda>_. hret ()))
     else hret ())))))"

definition handle_vote :: "hotstuff_env \<Rightarrow> qc_vote \<Rightarrow> group_block option \<Rightarrow> object_id \<Rightarrow> unit hs" where
  "handle_vote E vote prev_block remote =
     hbind (hget hs_round) (\<lambda>round.
     if qv_round vote < round then hret ()
     else
       hbind (hlift (verify_vote E vote)) (\<lambda>_.
       hbind (hget hs_store) (\<lambda>c.
       let prev_block = (case prev_block of
             Some b \<Rightarrow> Some b
           | None \<Rightarrow> (case find_block_in_cache c (qv_block_id vote) of Inr b \<Rightarrow> Some b | Inl _ \<Rightarrow> None)) in
       hbind (on_votes (add_vote E vote prev_block)) (\<lambda>qc.
       case qc of
         Some (qc, b) \<Rightarrow> process_block_qc E qc b remote
       | None \<Rightarrow>
           if qv_round vote > round \<and> prev_block = None then fetch_block E (qv_block_id vote) remote else hret ()))))"

subsection \<open>Blocks\<close>

definition notify_block_committed :: "hotstuff_env \<Rightarrow> group_block \<Rightarrow> group_block option \<Rightarrow> unit hs" where
  "notify_block_committed E new_header old_header =
     hbind (hlift (rassert (prev_block_id new_header = map_option gb_id old_header))) (\<lambda>_.
     hbind (hlift (case result_state_id new_header of
              Some st \<Rightarrow> rbind (block_owner new_header) (\<lambda>owner. make_sure_result_state E st [owner])
            | None \<Rightarrow> Inr ())) (\<lambda>_.
     hbind (hlift (case old_header of
              Some old \<Rightarrow>
                (case result_state_id old of
                   Some st \<Rightarrow> rbind (block_owner old) (\<lambda>owner. rbind (make_sure_result_state E st [owner]) (\<lambda>_. Inr (Some st)))
                 | None \<Rightarrow> Inr None)
            | None \<Rightarrow> Inr None)) (\<lambda>prev_state_id.
     hmod (emit (Committed prev_state_id new_header)))))"

fun reply_proposals :: "hotstuff_env \<Rightarrow> block_proposal list \<Rightarrow> unit hs" where
  "reply_proposals E [] = hret ()"
| "reply_proposals E (p # ps) =
     hbind (hlift (case bp_receipt p of
              Some receipt \<Rightarrow>
                (case he_decode_receipt E receipt of
                   Inr (r, remain) \<Rightarrow> rbind (rassert (length remain = 0)) (\<lambda>_. Inr (Inr (Some r)))
                 | Inl (Err e) \<Rightarrow> Inr (Inl (Err e))
                 | Inl Panic \<Rightarrow> Inl Panic
                 | Inl UB \<Rightarrow> Inl UB)
            | None \<Rightarrow> Inr (Inr None))) (\<lambda>reply.
     hbind (hmod (emit (ReplyProposal (bp_proposal p) reply))) (\<lambda>_. reply_proposals E ps))"

definition on_new_block_commit :: "hotstuff_env \<Rightarrow> group_block \<Rightarrow> group_block option \<Rightarrow> unit hs" where
  "on_new_block_commit E new_header old_header =
     hbind (hget hs_max_quorum_height) (\<lambda>max_quorum_height.
     if block_height new_header \<le> wrapping_sub max_quorum_height 2 then hret ()
     else
       hbind (hmod (emit (RemoveProposals (proposal_ids new_header)))) (\<lambda>_.
       hbind (htry (hlift (he_remove_proposals E (proposal_ids new_header)))) (\<lambda>_.
       hbind (hget (\<lambda>s. sc_pre_commits (hs_store s))) (\<lambda>pre_commits.
       case pre_commits of
         [] \<Rightarrow> hlift (Inl Panic)
       | (_, qc_block) # _ \<Rightarrow>
           hbind (htry (notify_block_committed E new_header old_header)) (\<lambda>_.
           hbind (hget hs_local_id) (\<lambda>local_id.
           hbind (hlift (block_owner new_header)) (\<lambda>owner.
           if local_id = owner then
             hbind (hmod (emit (NotifyCommit new_header qc_block))) (\<lambda>_. reply_proposals E (block_proposals new_header))
           else hret ())))))))"

definition process_block :: "hotstuff_env \<Rightarrow> group_block \<Rightarrow> object_id \<Rightarrow> proposal_map \<Rightarrow> unit hs" where
  "process_block E b remote proposals =
     hbind (hget hs_store) (\<lambda>c.
     if block_height b \<le> header_height c then hlift (Inl (Err Expired))
     else
       hbind (htry (put_block E b)) (\<lambda>r.
       hbind (hlift (case r of
                Inl e \<Rightarrow> if e \<noteq> AlreadyExists \<and> e \<noteq> NotChange then Inl (Err e) else Inr ()
              | Inr _ \<Rightarrow> Inr ())) (\<lambda>_.
       hbind (on_store (push_block (he_write E) b)) (\<lambda>new_header.
       hbind (case new_header of
                Some (header, old_header, _) \<Rightarrow> on_new_block_commit E header old_header
              | None \<Rightarrow> hret ()) (\<lambda>_.
       hbind (on_votes (add_voting_block E b)) (\<lambda>qc.
       case qc of
         Some qc \<Rightarrow> process_block_qc E qc b remote
       | None \<Rightarrow>
           hbind (hget hs_round) (\<lambda>round.
           if block_round b \<noteq> round then hret ()
           else
             hbind (make_vote E b proposals remote) (\<lambda>vote.
             case vote of
               None \<Rightarrow> hret ()
             | Some vote \<Rightarrow>
                 hbind (hlift (get_leader E None (round + 1))) (\<lambda>next_leader.
                 hbind (hget hs_local_device_id) (\<lambda>device.
                 if device = next_leader then handle_vote E vote (Some b) device
                 else hmod (post_message (MBlockVote vote) next_leader)))))))))))"

text \<open>What follows once the block is linked.\<close>

definition process_linked_block :: "hotstuff_env \<Rightarrow> storage_cache \<Rightarrow> group_block \<Rightarrow> object_id \<Rightarrow> group_block option \<Rightarrow> unit hs" where
  "process_linked_block E c b remote prev_block =
     hbind (hlift (load_all_proposals_for_block E b)) (\<lambda>proposals.
     hbind (hlift_opt (check_block_proposal_result_state_by_app E c remote b proposals prev_block)) (\<lambda>_.
     hbind (hmod (\<lambda>s.
       let s = process_qc (block_qc_of b) (emit (SyncPopBlock (block_height b) (block_round b) (gb_id b)) s)
       in case block_tc_of b of Some tc \<Rightarrow> advance_round (tc_round tc) s | None \<Rightarrow> s)) (\<lambda>_.
     process_block E b remote [])))"

definition handle_block :: "hotstuff_env \<Rightarrow> group_block \<Rightarrow> object_id \<Rightarrow> unit hs" where
  "handle_block E b remote =
     hbind (hget hs_store) (\<lambda>c.
     if block_height b \<le> header_height c then hlift (Inl (Err Expired))
     else
       hbind (hlift (ce_group E None)) (\<lambda>latest_group.
       if remote \<notin> set (gi_oods latest_group) then hret ()
       else
         hbind (hlift (check_block_result_state b)) (\<lambda>_.
         hbind (hlift (get_leader_owner E (Some (block_shell b)) (block_round b))) (\<lambda>leader_owner.
         hbind (hlift (block_owner b)) (\<lambda>owner.
         if leader_owner \<noteq> owner then hlift (Inl (Err Ignored))
         else
           hbind (hlift (verify_block E b)) (\<lambda>_.
           hbind (hmod (\<lambda>s. update_max_quorum_height (block_height b - 1)
             (update_max_quorum_round (qc_round_of (block_qc_of b)) s))) (\<lambda>_.
           hbind (check_block_linked E b remote) (\<lambda>link.
           case link of
             Inl r \<Rightarrow> hlift r
           | Inr prev_block \<Rightarrow> process_linked_block E c b remote prev_block))))))))"

subsection \<open>Timeouts\<close>

definition process_timeout_qc :: "hotstuff_env \<Rightarrow> hotstuff_timeout \<Rightarrow> object_id \<Rightarrow> unit hs" where
  "process_timeout_qc E tc remote =
     hbind (hmod (update_max_quorum_round (tc_round tc))) (\<lambda>_.
     hbind (hlift (case tc_group_shell_id tc of Some shell \<Rightarrow> Inr shell | None \<Rightarrow> Inl Panic)) (\<lambda>shell.
     hbind (on_store (save_tc (he_write E) (he_put_qc E) tc shell)) (\<lambda>_.
     hbind (hmod (\<lambda>s. (advance_round (tc_round tc) s)\<lparr>hs_tc := Some tc\<rparr>)) (\<lambda>_.
     hbind (hget hs_round) (\<lambda>round.
     hbind (hlift (get_leader E None round)) (\<lambda>new_leader.
     hbind (hget hs_local_device_id) (\<lambda>device.
     if device = new_leader then hbind (htry (generate_block E (Some tc))) (\<lambda>_. hret ())
     else hmod (broadcast (MTimeout tc) (ce_local_group E)))))))))"

definition handle_timeout :: "hotstuff_env \<Rightarrow> timeout_vote \<Rightarrow> object_id \<Rightarrow> unit hs" where
  "handle_timeout E timeout remote =
     hbind (hget hs_round) (\<lambda>round.
     hbind (hget hs_tc) (\<lambda>tc.
     if tv_round timeout < round then
       (case tc of
          Some tc \<Rightarrow> if tc_round tc + 1 = round then hmod (post_message (MTimeout tc) remote) else hret ()
        | None \<Rightarrow> hret ())
     else if qc_round_of (tv_high_qc timeout) \<ge> tv_round timeout then hret ()
     else
       hbind (hlift (ok_or_false (check_group_is_latest E (tv_group_shell_id timeout)))) (\<lambda>latest.
       if \<not> latest then hret ()
       else
         hbind (hget hs_store) (\<lambda>c.
         case (case tv_high_qc timeout of
                 Some qc \<Rightarrow> (case find_block_in_cache c (qc_block_id qc) of Inr b \<Rightarrow> Inr (Some b) | Inl _ \<Rightarrow> Inl (qc_block_id qc))
               | None \<Rightarrow> Inr None) of
           Inl block_id \<Rightarrow> hbind (htry (fetch_block E block_id remote)) (\<lambda>_. hret ())
         | Inr b \<Rightarrow>
             hbind (hlift (verify_timeout E timeout b)) (\<lambda>_.
             hbind (hmod (process_qc (tv_high_qc timeout))) (\<lambda>_.
             hbind (on_votes (add_timeout E timeout)) (\<lambda>tc.
             case tc of Some tc \<Rightarrow> process_timeout_qc E tc remote | None \<Rightarrow> hret ())))))))"

definition handle_tc :: "hotstuff_env \<Rightarrow> hotstuff_timeout \<Rightarrow> object_id \<Rightarrow> unit hs" where
  "handle_tc E tc remote =
     (if tc_votes tc = [] then hret ()
      else
        let max_high_qc = foldr max (map ts_high_qc_round (tc_votes tc)) 0 in
        hbind (hget hs_round) (\<lambda>round.
        if tc_round tc < round then hret ()
        else if max_high_qc \<ge> tc_round tc then hret ()
        else case tc_group_shell_id tc of
          None \<Rightarrow> hret ()
        | Some shell \<Rightarrow>
            hbind (hget hs_store) (\<lambda>c.
            hbind (if max_high_qc > 0 \<and> (case find_block_in_cache_by_round c max_high_qc of Inl _ \<Rightarrow> True | Inr _ \<Rightarrow> False)
                   then
                     (let min_height = (case block_with_max_round c of None \<Rightarrow> 1 | Some b \<Rightarrow> block_height b + 1) in
                      if min_height > max_high_qc then hret () else hmod (emit (SyncWithRound min_height max_high_qc remote)))
                   else hret ()) (\<lambda>_.
            hbind (hlift (verify_tc E tc shell)) (\<lambda>_.
            hbind (hmod (update_max_quorum_round (tc_round tc))) (\<lambda>_.
            hbind (on_store (save_tc (he_write E) (he_put_qc E) tc shell)) (\<lambda>_.
            hbind (hmod (\<lambda>s. (advance_round (tc_round tc) s)\<lparr>hs_tc := Some tc\<rparr>)) (\<lambda>_.
            hbind (hget hs_round) (\<lambda>round.
            hbind (hlift (get_leader E None round)) (\<lambda>new_leader.
            hbind (hget hs_local_device_id) (\<lambda>device.
            if device = new_leader then hbind (htry (generate_block E (Some tc))) (\<lambda>_. hret ())
            else hret ())))))))))))"

definition local_timeout_round :: "hotstuff_env \<Rightarrow> unit hs" where
  "local_timeout_round E =
     hbind (hget is_synchronizing) (\<lambda>synchronizing.
     if synchronizing then hret ()
     else case ce_group E None of
       Inl e \<Rightarrow> hbind (hmod (emit (TimerReset HOTSTUFF_TIMEOUT_DEFAULT))) (\<lambda>_. hlift (Inl e))
     | Inr latest_group \<Rightarrow>
         hbind (hmod (emit (TimerReset GROUP_DEFAULT_CONSENSUS_INTERVAL))) (\<lambda>_.
         hbind (hget hs_high_qc) (\<lambda>high_qc.
         hbind (hget hs_round) (\<lambda>round.
         hbind (hget hs_local_device_id) (\<lambda>device.
         hbind (hmod (emit (SignTimeout (qc_round_of high_qc) round (gi_shell_id latest_group)))) (\<lambda>_.
         hbind (hlift (timeout_vote_new (ce_sha256 E) (he_sign E) (gi_shell_id latest_group) high_qc round device)) (\<lambda>timeout.
         hbind (on_store (set_last_vote_round (he_write E) round)) (\<lambda>_.
         hbind (hmod (broadcast (MTimeoutVote timeout) latest_group)) (\<lambda>_.
         send_message (MTimeoutVote timeout, device))))))))))"

subsection \<open>Answering other nodes\<close>

definition within_bound :: "sync_bound \<Rightarrow> group_block \<Rightarrow> bool" where
  "within_bound bound b =
     (case bound of BoundRound r \<Rightarrow> block_round b \<le> r | BoundHeight h \<Rightarrow> block_height b \<le> h)"

fun load_range :: "(nat \<Rightarrow> group_block result) \<Rightarrow> sync_bound \<Rightarrow> nat \<Rightarrow> nat \<Rightarrow> nat \<Rightarrow> group_block list \<Rightarrow> group_block list result" where
  "load_range get max_bound 0 height pos blocks = Inr blocks"
| "load_range get max_bound (Suc n) height pos blocks =
     (if pos < length blocks \<and> block_height (blocks ! pos) < height then Inl Panic
      else if pos < length blocks \<and> block_height (blocks ! pos) = height
      then load_range get max_bound n (height + 1) (pos + 1) blocks
      else case get height of
        Inr b \<Rightarrow>
          if \<not> within_bound max_bound b then Inr blocks
          else load_range get max_bound n (height + 1) (pos + 1) (take pos blocks @ [b] @ drop pos blocks)
      | Inl _ \<Rightarrow> load_range get max_bound n (height + 1) pos blocks)"

definition process_sync_request :: "hotstuff_env \<Rightarrow> sync_bound \<Rightarrow> sync_bound \<Rightarrow> object_id \<Rightarrow> unit hs" where
  "process_sync_request E min_bound max_bound remote =
     hbind (hget hs_store) (\<lambda>c.
     let get = get_block_by_height (he_find_block_by_height E) (ce_get_block E) c;
         respond = (\<lambda>min_height blocks.
           hbind (hlift (case min_height of
                    Some h \<Rightarrow> load_range get max_bound (header_height c + 1 - h) h 0 blocks
                  | None \<Rightarrow> Inr blocks)) (\<lambda>blocks.
           hmod (fold (\<lambda>b. post_message (MBlock b) remote) blocks)))
     in case sc_header_block c of
          None \<Rightarrow> hret ()
        | Some header \<Rightarrow>
            (case min_bound of
               BoundHeight height \<Rightarrow> if height > block_height header then hret () else respond (Some height) []
             | BoundRound round \<Rightarrow>
                 if round > block_round header then hret ()
                 else case find_block_by_round (he_find_block_by_height E) (ce_get_block E) c round of
                   None \<Rightarrow> hlift_opt None
                 | Some (ret, cached) \<Rightarrow>
                     hbind (case ret of
                              Inr found \<Rightarrow> hret (Some (block_height found))
                            | Inl (Err _) \<Rightarrow> hret None
                            | Inl f \<Rightarrow> hlift (Inl f)) (\<lambda>min_height.
                     respond min_height
                       (sort_key block_height (filter (\<lambda>b. block_round b \<ge> round \<and> within_bound max_bound b) cached)))))"

definition handle_query_state :: "bytes \<Rightarrow> object_id \<Rightarrow> unit hs" where
  "handle_query_state sub_path remote =
     hbind (hget hs_store) (\<lambda>c.
     case state_certificate c of
       Inl Panic \<Rightarrow> hlift (Inl Panic)
     | r \<Rightarrow> hmod (post_message (MVerifiableState sub_path r) remote))"

subsection \<open>The loop\<close>

definition handle_proposal_waiting :: "hotstuff_env \<Rightarrow> unit hs" where
  "handle_proposal_waiting E =
     hbind (hget hs_round) (\<lambda>round.
     hbind (hlift (get_leader E None round)) (\<lambda>leader.
     hbind (hget hs_local_device_id) (\<lambda>device.
     hbind (hlift (rassert (leader = device))) (\<lambda>_.
     hbind (hget with_tc) (\<lambda>tc. generate_block E tc)))))"

definition recover :: "hotstuff_env \<Rightarrow> unit hs" where
  "recover E =
     hbind (hget (\<lambda>s. block_with_max_round (hs_store s))) (\<lambda>max_round_block.
     let last_group = ce_group E (map_option block_shell max_round_block);
         latest_group = (case max_round_block of Some _ \<Rightarrow> ce_group E None | None \<Rightarrow> last_group)
     in
     hbind (hmod (emit (TimerReset (case latest_group of
       Inl _ \<Rightarrow> HOTSTUFF_TIMEOUT_DEFAULT | Inr _ \<Rightarrow> GROUP_DEFAULT_CONSENSUS_INTERVAL)))) (\<lambda>_.
     hbind (hget hs_round) (\<lambda>round.
     hbind (htry (hlift (get_leader E None round))) (\<lambda>leader.
     hbind (hget hs_local_device_id) (\<lambda>device.
     if leader \<noteq> Inr device then hret ()
     else
       hbind (hget hs_local_id) (\<lambda>local_id.
       hbind (hlift (case max_round_block of
                Some b \<Rightarrow>
                  rbind (block_owner b) (\<lambda>owner.
                  Inr (if owner = local_id \<and> block_round b = round then
                         (case (latest_group, last_group) of
                            (Inr latest, Inr last_g) \<Rightarrow> if is_same_ood_list last_g latest then Some (b, latest) else None
                          | _ \<Rightarrow> None)
                       else None))
              | None \<Rightarrow> Inr None)) (\<lambda>again.
       case again of
         Some (b, latest) \<Rightarrow> hmod (broadcast (MBlock b) latest)
       | None \<Rightarrow> hbind (hget with_tc) (\<lambda>tc. hbind (htry (generate_block E tc)) (\<lambda>_. hret ())))))))))"

definition on_rx_block :: "hotstuff_env \<Rightarrow> group_block \<Rightarrow> object_id \<Rightarrow> unit hs" where
  "on_rx_block E b remote =
     hbind (hget hs_local_device_id) (\<lambda>device.
     if remote = device then process_block E b remote [] else handle_block E b remote)"

definition on_rx_message :: "hotstuff_env \<Rightarrow> hs_message \<Rightarrow> object_id \<Rightarrow> unit hs" where
  "on_rx_message E m remote =
     (case m of
        MBlock b \<Rightarrow> on_rx_block E b remote
      | MBlockVote vote \<Rightarrow> handle_vote E vote None remote
      | MTimeoutVote timeout \<Rightarrow> handle_timeout E timeout remote
      | MTimeout tc \<Rightarrow> handle_tc E tc remote
      | MSyncRequest min_bound max_bound \<Rightarrow> process_sync_request E min_bound max_bound remote
      | MQueryState sub_path \<Rightarrow> handle_query_state sub_path remote
      | MLastStateRequest \<Rightarrow> hlift (Inl Panic)
      | MStateChangeNotify _ _ \<Rightarrow> hlift (Inl Panic)
      | MProposalResult _ \<Rightarrow> hlift (Inl Panic)
      | MVerifiableState _ _ \<Rightarrow> hlift (Inl Panic))"

text \<open>The branches of the \<^verbatim>\<open>select!\<close>; a branch that is not ready is None.\<close>

datatype hs_input = RxMessage | RxInner | RxBlockGen | TimerFired | ProposalsReady

definition hs_step :: "hotstuff_env \<Rightarrow> hs_input \<Rightarrow> hotstuff \<Rightarrow> (unit result option \<times> hotstuff) option" where
  "hs_step E i s =
     (case i of
        RxMessage \<Rightarrow>
          (case hs_rx_message s of
             [] \<Rightarrow> None
           | (m, remote) # ms \<Rightarrow> Some (on_rx_message E m remote (s\<lparr>hs_rx_message := ms\<rparr>)))
      | RxInner \<Rightarrow>
          (case hs_rx_inner s of
             [] \<Rightarrow> None
           | (b, remote) # ms \<Rightarrow> Some (on_rx_block E b remote (s\<lparr>hs_rx_inner := ms\<rparr>)))
      | RxBlockGen \<Rightarrow>
          (case hs_rx_block_gen s of
             [] \<Rightarrow> None
           | (b, proposals) # ms \<Rightarrow>
               Some (process_block E b (hs_local_device_id s) proposals (s\<lparr>hs_rx_block_gen := ms\<rparr>)))
      | TimerFired \<Rightarrow> Some (local_timeout_round E s)
      | ProposalsReady \<Rightarrow>
          (case hs_rx_proposal_waiter s of
             None \<Rightarrow> None
           | Some wait_round \<Rightarrow>
               let s = s\<lparr>hs_rx_proposal_waiter := None\<rparr> in
               Some (if wait_round = hs_round s then handle_proposal_waiting E s else (Some (Inr ()), s))))"

text \<open>What the network task does with a message of another node. While the queue is full it waits, until the
  runner has taken a message: the message cannot be delivered yet.\<close>

definition on_message :: "hs_message \<Rightarrow> object_id \<Rightarrow> hotstuff \<Rightarrow> (unit result \<times> hotstuff) option" where
  "on_message m remote s =
     (case (case m of MBlock b \<Rightarrow> rbind (block_owner b) (\<lambda>_. Inr ()) | _ \<Rightarrow> Inr ()) of
        Inl e \<Rightarrow> Some (Inl e, s)
      | Inr _ \<Rightarrow>
          if length (hs_rx_message s) < CHANNEL_CAPACITY
          then Some (Inr (), s\<lparr>hs_rx_message := hs_rx_message s @ [(m, remote)]\<rparr>) else None)"

end
