(* ===== verification/Cluster.thy ===== *)
theory Cluster
  imports Hotstuff
begin

text \<open>
  Runners that exchange messages. A cluster is the list of its runners; a step is a step of one
  runner's loop or the delivery of a message that a runner has sent, in any order and after any
  delay. Blocks are fetched from the object caches of the runners.
\<close>

subsection \<open>Schedules\<close>

type_synonym cluster = "hotstuff list"

datatype net_event = Run nat hs_input | Deliver nat nat nat

definition cluster_get_block :: "cluster \<Rightarrow> object_id \<Rightarrow> group_block result" where
  "cluster_get_block cl block_id =
     ok_or_not_found (find (\<lambda>b. gb_id b = block_id) (concat (map hs_noc cl)))"

definition node_env :: "(nat \<Rightarrow> hotstuff_env) \<Rightarrow> cluster \<Rightarrow> nat \<Rightarrow> hotstuff_env" where
  "node_env base cl i = (base i)\<lparr>ce_get_block := cluster_get_block cl\<rparr>"

text \<open>A runner that panics or never returns takes no further step.\<close>

definition returned :: "unit result option \<Rightarrow> bool" where
  "returned r = (case r of Some (Inr _) \<Rightarrow> True | Some (Inl (Err _)) \<Rightarrow> True | _ \<Rightarrow> False)"

definition net_step :: "(nat \<Rightarrow> hotstuff_env) \<Rightarrow> net_event \<Rightarrow> cluster \<Rightarrow> cluster option" where
  "net_step base ev cl =
     (case ev of
        Run i input \<Rightarrow>
          if i < length cl then
            (case hs_step (node_env base cl i) input (cl ! i) of
               Some (r, s) \<Rightarrow> if returned r then Some (cl[i := s]) else None
             | None \<Rightarrow> None)
          else None
      | Deliver i k j \<Rightarrow>
          if i < length cl \<and> j < length cl \<and> k < length (hs_out (cl ! i)) then
            (case hs_out (cl ! i) ! k of
               (targets, m) \<Rightarrow>
                 if hs_local_device_id (cl ! j) \<in> set targets then
                   (case on_message m (hs_local_device_id (cl ! i)) (cl ! j) of
                      Some (r, s) \<Rightarrow> if returned (Some r) then Some (cl[j := s]) else None
                    | None \<Rightarrow> None)
                 else None)
          else None)"

fun net_run :: "(nat \<Rightarrow> hotstuff_env) \<Rightarrow> net_event list \<Rightarrow> cluster \<Rightarrow> cluster option" where
  "net_run base [] cl = Some cl"
| "net_run base (ev # evs) cl = Option.bind (net_step base ev cl) (net_run base evs)"

definition start_node :: "(nat \<Rightarrow> hotstuff_env) \<Rightarrow> nat \<Rightarrow> hotstuff \<Rightarrow> hotstuff" where
  "start_node base i s = snd (recover (base i) s)"

end
