(* ===== verification/HotstuffInv.thy ===== *)
theory HotstuffInv
  imports Hotstuff "HOL-Library.Sublist"
begin

text \<open>
  Invariants of the runner. A locale takes a preorder on its states that the primitive updates respect and
  lifts it to every handler and to every step of the loop; it is interpreted for the votes that were
  cast, for the rounds and logs, which only grow, and for the vote manager. From these come the facts
  about a run: one vote per round, and what a verified certificate says about the votes of a member.
\<close>

subsection \<open>What every handler keeps\<close>

text \<open>The fields that only the primitive updates below change.\<close>

definition quiet :: "hotstuff \<Rightarrow> hotstuff \<Rightarrow> bool" where
  "quiet s t =
     (hs_local_id t = hs_local_id s \<and> hs_local_device_id t = hs_local_device_id s \<and> hs_rpath t = hs_rpath s \<and>
      hs_store t = hs_store s \<and> hs_round t = hs_round s \<and> hs_max_quorum_round t = hs_max_quorum_round s \<and>
      hs_vote_mgr t = hs_vote_mgr s \<and> hs_effects t = hs_effects s)"

definition is_cast :: "hs_effect \<Rightarrow> bool" where
  "is_cast e = (case e of CastVote _ _ _ \<Rightarrow> True | _ \<Rightarrow> False)"

text \<open>A preorder on the states of a runner that holds when only other fields change and when the log is
  extended: it holds between the states before and after everything that is composed of such
  updates, which includes generating a block and asking other nodes for blocks.\<close>

locale handler_frame =
  fixes R :: "hotstuff \<Rightarrow> hotstuff \<Rightarrow> bool"
  assumes R_refl: "R s s"
    and R_trans: "R s t \<Longrightarrow> R t u \<Longrightarrow> R s u"
    and R_quiet: "quiet s t \<Longrightarrow> R s t"
    and R_effects: "list_all (\<lambda>e. \<not> is_cast e) es \<Longrightarrow> R s (s\<lparr>hs_effects := hs_effects s @ es\<rparr>)"
begin

definition keeps :: "'a hs \<Rightarrow> bool" where
  "keeps m = (\<forall>s. R s (snd (m s)))"

lemma keepsD: "keeps m \<Longrightarrow> R s (snd (m s))"
  by (simp add: keeps_def)

lemma keeps_hbind: "keeps m \<Longrightarrow> (\<And>x. keeps (f x)) \<Longrightarrow> keeps (hbind m f)"
  unfolding keeps_def hbind_def
proof
  fix s
  assume m: "\<forall>s. R s (snd (m s))" and f: "\<And>x. \<forall>s. R s (snd (f x s))"
  obtain r t where t: "m s = (r, t)" by (cases "m s")
  with m have st: "R s t" by (metis snd_conv)
  have "R t (snd (f x t))" for x using f by blast
  with st t show "R s (snd (case m s of (r, s') \<Rightarrow>
      case r of None \<Rightarrow> (None, s') | Some (Inl e) \<Rightarrow> (Some (Inl e), s') | Some (Inr x) \<Rightarrow> f x s'))"
    by (auto split: option.splits sum.splits intro: R_trans)
qed

lemma keeps_htry: "keeps m \<Longrightarrow> keeps (htry m)"
proof -
  have "snd (htry m s) = snd (m s)" for s
    by (auto simp: htry_def split: option.splits sum.splits fault.splits prod.splits)
  then show "keeps m \<Longrightarrow> keeps (htry m)" by (simp add: keeps_def)
qed

lemma keeps_pure: "keeps (hret x)" "keeps (hlift r)" "keeps (hlift_opt q)" "keeps (hget g)"
  by (simp_all add: keeps_def hret_def hlift_def hlift_opt_def hget_def R_refl)

lemma keeps_hmod: "(\<And>s. R s (f s)) \<Longrightarrow> keeps (hmod f)"
  by (simp add: keeps_def hmod_def)

lemma keeps_store: "(\<And>s. R s (s\<lparr>hs_store := snd (f (hs_store s))\<rparr>)) \<Longrightarrow> keeps (on_store f)"
  by (simp add: keeps_def on_store_def prod.case_eq_if)

lemma keeps_votes: "(\<And>s. R s (s\<lparr>hs_vote_mgr := snd (f (hs_vote_mgr s))\<rparr>)) \<Longrightarrow> keeps (on_votes f)"
  by (simp add: keeps_def on_votes_def prod.case_eq_if)

lemma keeps_case:
  "keeps a \<Longrightarrow> keeps b \<Longrightarrow> keeps (if P then a else b)"
  "keeps a \<Longrightarrow> (\<And>x. keeps (f x)) \<Longrightarrow> keeps (case z of None \<Rightarrow> a | Some x \<Rightarrow> f x)"
  "(\<And>x. keeps (g x)) \<Longrightarrow> (\<And>x. keeps (h x)) \<Longrightarrow> keeps (case y of Inl x \<Rightarrow> g x | Inr x \<Rightarrow> h x)"
  "(\<And>x y. keeps (k x y)) \<Longrightarrow> keeps (case p of (x, y) \<Rightarrow> k x y)"
  "keeps a \<Longrightarrow> (\<And>x y. keeps (l x y)) \<Longrightarrow> keeps (case xs of [] \<Rightarrow> a | x # y \<Rightarrow> l x y)"
  "(\<And>e. keeps (i e)) \<Longrightarrow> keeps j \<Longrightarrow> keeps j' \<Longrightarrow> keeps (case q of Err e \<Rightarrow> i e | Panic \<Rightarrow> j | UB \<Rightarrow> j')"
  subgoal by (cases P) simp_all
  subgoal by (cases z) simp_all
  subgoal by (cases y) simp_all
  subgoal by (cases p) simp_all
  subgoal by (cases xs) simp_all
  subgoal by (cases q) simp_all
  done

lemma keeps_Let: "(\<And>x. keeps (f x)) \<Longrightarrow> keeps (Let z f)"
  by simp

text \<open>Updates, one after the other.\<close>

lemma R_step:
  assumes "R s t"
  shows "list_all (\<lambda>e. \<not> is_cast e) es \<Longrightarrow> R s (t\<lparr>hs_effects := hs_effects t @ es\<rparr>)" "quiet t u \<Longrightarrow> R s u"
  by (rule R_trans [OF assms R_effects], assumption, rule R_trans [OF assms R_quiet])

lemma R_emit: "R s t \<Longrightarrow> \<not> is_cast e \<Longrightarrow> R s (emit e t)"
  using R_step(1) [of s t "[e]"] by (simp add: emit_def)

lemma R_quiet_updates:
  assumes "R s t"
  shows "R s (update_max_quorum_height h t)" "R s (update_high_qc qc t)" "R s (post_message m to t)"
    "R s (broadcast m g t)" "R s (t\<lparr>hs_tc := tc\<rparr>)" "R s (t\<lparr>hs_rx_proposal_waiter := w\<rparr>)" "R s (t\<lparr>hs_noc := noc\<rparr>)"
    "R s (t\<lparr>hs_rx_message := msgs\<rparr>)" "R s (t\<lparr>hs_rx_inner := inner\<rparr>)" "R s (t\<lparr>hs_rx_block_gen := gen\<rparr>)"
  by (rule R_step(2) [OF assms], simp add: quiet_def update_max_quorum_height_def update_high_qc_def post_message_def broadcast_def)+

lemma R_fold: "R s t \<Longrightarrow> (\<And>x t. R s t \<Longrightarrow> R s (f x t)) \<Longrightarrow> R s (fold f xs t)"
  by (induction xs arbitrary: t) auto

lemma R_notify_sorted: "R s t \<Longrightarrow> R s (notify_sorted x t)"
  unfolding notify_sorted_def by (rule R_step(1)) (auto simp: is_cast_def list_all_iff)

lemmas R_intros = R_refl R_notify_sorted R_emit R_quiet_updates

lemmas keeps_intros = keeps_hbind keeps_htry keeps_pure keeps_case keeps_Let

lemma keeps_send: "keeps (send_message m)" "keeps (send_inner n)" "keeps (send_block_gen b)"
  by (auto simp: keeps_def send_message_def send_inner_def send_block_gen_def intro: R_quiet_updates R_refl)

lemma keeps_fetch_block: "keeps (fetch_block E k remote)"
  unfolding fetch_block_def by (intro keeps_intros keeps_send)

lemma keeps_send_inner_all: "keeps (send_inner_all ms)"
  by (induction ms) (auto intro!: keeps_intros keeps_send)

lemma keeps_sync_prev: "keeps (sync_to_block_by_get_prev E b remote)"
  unfolding sync_to_block_by_get_prev_def by (intro keeps_intros keeps_send_inner_all)

lemma keeps_sync: "keeps (sync_to_block E b remote)"
  unfolding sync_to_block_def
  by (intro keeps_intros keeps_sync_prev keeps_hmod) (auto intro!: R_intros simp: is_cast_def)

lemma keeps_link_case:
  "keeps a \<Longrightarrow> keeps b \<Longrightarrow> (\<And>p. keeps (c p)) \<Longrightarrow> keeps d \<Longrightarrow> keeps e \<Longrightarrow>
   keeps (case l of LinkExpired \<Rightarrow> a | LinkDuplicate \<Rightarrow> b | LinkTo p \<Rightarrow> c p | LinkPending \<Rightarrow> d | LinkInvalidBranch \<Rightarrow> e)"
  by (cases l) simp_all

lemma keeps_linked: "keeps (check_block_linked E b remote)"
  unfolding check_block_linked_def by (intro keeps_intros keeps_link_case keeps_sync)

lemma keeps_wait: "keeps (try_wait_proposals E n pre)"
  unfolding try_wait_proposals_def
  by (intro keeps_intros keeps_hmod) (auto intro!: R_intros)

lemma keeps_put_block: "keeps (put_block E b)"
  unfolding put_block_def by (intro keeps_intros keeps_hmod) (auto intro!: R_intros)

lemma keeps_package: "keeps (package_block_with_proposals E x g st prev tc)"
  unfolding package_block_with_proposals_def sign_block_def
  by (intro keeps_intros keeps_put_block keeps_hmod) (auto intro!: R_intros simp: is_cast_def)

lemma keeps_generate: "keeps (generate_block E tc)"
  unfolding generate_block_def
  by (intro keeps_intros keeps_wait keeps_package keeps_send keeps_hmod) (auto intro!: R_intros)

lemma keeps_reply: "keeps (reply_proposals E ps)"
  by (induction ps) (auto intro!: keeps_intros keeps_hmod R_intros simp: is_cast_def)

lemma keeps_notify: "keeps (notify_block_committed E h old)"
  unfolding notify_block_committed_def
  by (intro keeps_intros keeps_hmod) (auto intro!: R_intros simp: is_cast_def)

lemma keeps_commit: "keeps (on_new_block_commit E h old)"
  unfolding on_new_block_commit_def
  by (intro keeps_intros keeps_notify keeps_reply keeps_hmod) (auto intro!: R_intros simp: is_cast_def)

lemma keeps_query_state: "keeps (handle_query_state p remote)"
  unfolding handle_query_state_def
  by (intro keeps_intros keeps_hmod) (auto intro!: R_intros)

end

text \<open>A preorder that the other primitive updates respect too holds between the states before and after
  every handler.\<close>

locale runner_order = handler_frame +
  assumes R_quorum_round: "R s (update_max_quorum_round r s)"
    and R_advance: "R s (advance_round r s)"
    and R_push: "R s (s\<lparr>hs_store := snd (push_block w b (hs_store s))\<rparr>)"
    and R_vote_round: "R s (s\<lparr>hs_store := snd (set_last_vote_round w r (hs_store s))\<rparr>)"
    and R_save_qc: "R s (s\<lparr>hs_store := snd (save_qc w p qc (hs_store s))\<rparr>)"
    and R_save_tc: "R s (s\<lparr>hs_store := snd (save_tc w p tc shell (hs_store s))\<rparr>)"
    and R_add_block: "R s (s\<lparr>hs_vote_mgr := snd (add_voting_block E b (hs_vote_mgr s))\<rparr>)"
    and R_add_vote: "R s (s\<lparr>hs_vote_mgr := snd (add_vote E vote block (hs_vote_mgr s))\<rparr>)"
    and R_add_timeout: "R s (s\<lparr>hs_vote_mgr := snd (add_timeout E timeout (hs_vote_mgr s))\<rparr>)"
    and R_make_vote: "R s (snd (make_vote E b proposals remote s))"
begin

lemma R_rounds:
  assumes "R s t"
  shows "R s (update_max_quorum_round r t)" "R s (advance_round r t)"
  by (rule R_trans [OF assms R_quorum_round], rule R_trans [OF assms R_advance])

lemma R_process_qc: "R s t \<Longrightarrow> R s (process_qc qc t)"
  unfolding process_qc_def by (intro R_quiet_updates R_rounds)

lemmas R_updates = R_intros R_process_qc R_rounds

lemma keeps_process_block_qc: "keeps (process_block_qc E qc prev remote)"
  unfolding process_block_qc_def
  by (intro keeps_intros keeps_generate keeps_hmod keeps_store R_save_qc) (auto intro!: R_updates)

lemma keeps_handle_vote: "keeps (handle_vote E vote prev remote)"
  unfolding handle_vote_def
  by (intro keeps_intros keeps_process_block_qc keeps_fetch_block keeps_votes R_add_vote)

lemma keeps_make_vote: "keeps (make_vote E b proposals remote)"
  by (simp add: keeps_def R_make_vote)

lemma keeps_process_block: "keeps (process_block E b remote proposals)"
  unfolding process_block_def
  by (intro keeps_intros keeps_put_block keeps_commit keeps_process_block_qc keeps_make_vote keeps_handle_vote
      keeps_store R_push keeps_votes R_add_block keeps_hmod) (auto intro!: R_updates)

lemma keeps_linked_block: "keeps (process_linked_block E c b remote prev)"
  unfolding process_linked_block_def
  by (intro keeps_intros keeps_process_block keeps_hmod)
    (auto intro!: R_updates simp: is_cast_def Let_def split: option.split)

lemma keeps_handle_block: "keeps (handle_block E b remote)"
  unfolding handle_block_def
  by (intro keeps_intros keeps_linked keeps_linked_block keeps_hmod) (auto intro!: R_updates)

lemma keeps_process_timeout: "keeps (process_timeout_qc E tc remote)"
  unfolding process_timeout_qc_def
  by (intro keeps_intros keeps_generate keeps_store R_save_tc keeps_hmod) (auto intro!: R_updates)

lemma keeps_handle_timeout: "keeps (handle_timeout E timeout remote)"
  unfolding handle_timeout_def
  by (intro keeps_intros keeps_fetch_block keeps_process_timeout keeps_votes R_add_timeout keeps_hmod)
    (auto intro!: R_updates)

lemma keeps_handle_tc: "keeps (handle_tc E tc remote)"
  unfolding handle_tc_def
  by (intro keeps_intros keeps_generate keeps_store R_save_tc keeps_hmod) (auto intro!: R_updates simp: is_cast_def)

lemma keeps_timer: "keeps (local_timeout_round E)"
  unfolding local_timeout_round_def
  by (intro keeps_intros keeps_send keeps_store R_vote_round keeps_hmod) (auto intro!: R_updates simp: is_cast_def)

lemma keeps_sync_request: "keeps (process_sync_request E lo hi remote)"
proof -
  have post: "keeps (hmod (fold (\<lambda>b. post_message (MBlock b) remote) bs))" for bs
    by (intro keeps_hmod R_fold R_refl R_quiet_updates)
  have bound: "keeps (case lo of BoundHeight h \<Rightarrow> f h | BoundRound r \<Rightarrow> g r)" if "\<And>h. keeps (f h)" "\<And>r. keeps (g r)"
    for f g using that by (cases lo) simp_all
  show ?thesis
    unfolding process_sync_request_def Let_def by (intro keeps_intros bound post)
qed

lemma keeps_waiting: "keeps (handle_proposal_waiting E)"
  unfolding handle_proposal_waiting_def by (intro keeps_intros keeps_generate)

lemma keeps_recover: "keeps (recover E)"
  unfolding recover_def
  by (intro keeps_intros keeps_generate keeps_hmod) (auto intro!: R_updates simp: is_cast_def)

lemma keeps_rx_block: "keeps (on_rx_block E b remote)"
  unfolding on_rx_block_def by (intro keeps_intros keeps_process_block keeps_handle_block)

lemma keeps_rx_message: "keeps (on_rx_message E m remote)"
  unfolding on_rx_message_def
  by (cases m) (simp_all add: keeps_rx_block keeps_handle_vote keeps_handle_timeout keeps_handle_tc keeps_sync_request
      keeps_query_state keeps_pure)

lemma R_message: "on_message m remote s = Some (r, t) \<Longrightarrow> R s t"
  by (auto simp: on_message_def intro: R_quiet_updates R_refl split: sum.splits if_splits)

lemma R_hs_step:
  assumes "hs_step E i s = Some (r, t)"
  shows "R s t"
proof -
  have rx: "R s t" if "keeps m" "m u = (r, t)" "R s u" for m and u :: hotstuff
    using keepsD [OF that(1), of u] that(2,3) R_trans by (metis snd_conv)
  show ?thesis
    using assms rx [OF keeps_rx_message] rx [OF keeps_rx_block] rx [OF keeps_process_block] rx [OF keeps_timer]
      rx [OF keeps_waiting] R_quiet_updates [OF R_refl]
    by (cases i) (auto simp: hs_step_def Let_def R_refl split: list.splits prod.splits option.splits if_splits)
qed

end

subsection \<open>Handlers that leave the store alone\<close>

definition same_store :: "hotstuff \<Rightarrow> hotstuff \<Rightarrow> bool" where
  "same_store s t = (hs_store t = hs_store s)"

interpretation alone: handler_frame same_store
  by unfold_locales (simp_all add: same_store_def quiet_def)

lemma check_block_linked_store: "check_block_linked E b remote s = (r, t) \<Longrightarrow> hs_store t = hs_store s"
  using alone.keepsD [OF alone.keeps_linked, of s E b remote] by (simp add: same_store_def)

lemma check_block_linked_Inr:
  assumes "check_block_linked E b remote s = (Some (Inr (Inr p)), t)"
  shows "block_linked (hs_store s) b = Inr (LinkTo p)" "check_empty_block_result_state_with_prev b p = Inr ()"
  using assms
  by (auto simp: check_block_linked_def hbind_def hget_def hret_def split: sum.splits block_link_state.splits option.splits prod.splits)

text \<open>The parts of a handler that returned.\<close>

lemma hbind_result:
  assumes "hbind m f s = (r, t)"
  obtains (stop) "snd (m s) = t" | (go) x s' where "m s = (Some (Inr x), s')" "f x s' = (r, t)"
  using assms by (auto simp: hbind_def split: prod.splits option.splits sum.splits)

lemma hbind_simps:
  "hbind (hget g) f s = f (g s) s" "hbind (hmod h) k s = k () (h s)"
  "hbind (hlift (Inr x)) f s = f x s" "hbind (hlift (Inl e)) f s = (Some (Inl e), s)"
  "hbind (hlift_opt (Some (Inr x))) f s = f x s" "hbind (hlift_opt (Some (Inl e))) f s = (Some (Inl e), s)"
  "hbind (hlift_opt None) f s = (None, s)" "hlift v s = (Some v, s)" "hret y s = (Some (Inr y), s)"
  by (simp_all add: hbind_def hget_def hmod_def hlift_def hlift_opt_def hret_def)

subsection \<open>Votes, rounds and logs\<close>

definition cast_votes :: "hotstuff \<Rightarrow> (object_id \<times> object_id option \<times> nat) list" where
  "cast_votes s = List.map_filter (\<lambda>e. case e of CastVote b p r \<Rightarrow> Some (b, p, r) | _ \<Rightarrow> None) (hs_effects s)"

definition vote_inv :: "hotstuff \<Rightarrow> bool" where
  "vote_inv s =
     (sorted_wrt (<) (map (snd \<circ> snd) (cast_votes s)) \<and>
      (\<forall>(_, _, r)\<in>set (cast_votes s). r \<le> sc_last_vote_round (hs_store s)))"

definition vote_inv_kept :: "hotstuff \<Rightarrow> hotstuff \<Rightarrow> bool" where
  "vote_inv_kept s t = (vote_inv s \<longrightarrow> vote_inv t)"

definition grows :: "hotstuff \<Rightarrow> hotstuff \<Rightarrow> bool" where
  "grows s t =
     (hs_local_id t = hs_local_id s \<and> hs_local_device_id t = hs_local_device_id s \<and> hs_rpath t = hs_rpath s \<and>
      hs_round s \<le> hs_round t \<and> hs_max_quorum_round s \<le> hs_max_quorum_round t \<and>
      sc_last_vote_round (hs_store s) \<le> sc_last_vote_round (hs_store t) \<and> prefix (hs_effects s) (hs_effects t))"

definition votes_wf_kept :: "hotstuff \<Rightarrow> hotstuff \<Rightarrow> bool" where
  "votes_wf_kept s t = (vote_mgr_wf (hs_vote_mgr s) \<longrightarrow> vote_mgr_wf (hs_vote_mgr t))"

lemma update_memory_vote_round:
  assumes "update_memory c b p = Inr (r, c')"
  shows "sc_last_vote_round c' = sc_last_vote_round c"
proof (cases "pp_header p")
  case None
  with assms show ?thesis
    by (cases "pp_pre_commit p") (auto simp: update_memory_def rbind_eq_Inr Let_def)
next
  case (Some h)
  with assms show ?thesis
    by (cases "pp_pre_commit p") (auto simp: update_memory_def rbind_eq_Inr Let_def)
qed

lemma last_vote_round_kept:
  "sc_last_vote_round (snd (push_block w b c)) = sc_last_vote_round c"
  "sc_last_vote_round (snd (save_qc w p qc c)) = sc_last_vote_round c"
  "sc_last_vote_round (snd (save_tc w p tc shell c)) = sc_last_vote_round c"
  by (auto simp: push_block_def save_qc_def save_tc_def rbind_eq_Inr Let_def
      dest!: update_memory_vote_round split: sum.splits if_splits)

lemma last_vote_round_set: "sc_last_vote_round c \<le> sc_last_vote_round (snd (set_last_vote_round w r c))"
  by (auto simp: set_last_vote_round_def split: sum.splits)

text \<open>What a vote changes.\<close>

lemma vote_checks_round:
  "vote_checks E b proposals remote s = Some (Inr True) \<Longrightarrow> sc_last_vote_round (hs_store s) < block_round b"
  by (cases "block_round b \<le> sc_last_vote_round (hs_store s)") (simp_all add: vote_checks_def Let_def)

lemma make_vote_cases:
  obtains (none) "snd (make_vote E b proposals remote s) = s"
  | (cast) "sc_last_vote_round (hs_store s) < block_round b"
      "snd (make_vote E b proposals remote s) =
        emit (CastVote (gb_id b) (prev_block_id b) (block_round b)) (s\<lparr>hs_store := (hs_store s)\<lparr>sc_last_vote_round := block_round b\<rparr>\<rparr>)"
proof (cases "vote_checks E b proposals remote s = Some (Inr True)")
  case False
  then have "snd (make_vote E b proposals remote s) = s"
    by (auto simp: make_vote_def hbind_def hret_def split: option.splits sum.splits)
  then show ?thesis by (rule none)
next
  case True
  note r = vote_checks_round [OF True]
  obtain q where q: "qc_vote_new (ce_sha256 E) (he_sign E) b (hs_local_device_id s) = q" by blast
  obtain u where u: "he_write E [CreateWriter, SetLastVoteRound (block_round b) (sc_last_vote_round (hs_store s)), CommitWriter] = u" by blast
  show ?thesis
  proof (cases q)
    case (Inl e)
    with True q have "snd (make_vote E b proposals remote s) = s"
      by (cases e) (simp_all add: make_vote_def hbind_def hret_def hget_def hlift_def htry_def)
    then show ?thesis by (rule none)
  next
    case (Inr v)
    show ?thesis
    proof (cases u)
      case (Inl e)
      with True q u \<open>q = Inr v\<close> r have "snd (make_vote E b proposals remote s) = s"
        by (cases e) (simp_all add: make_vote_def hbind_def hret_def hget_def hlift_def htry_def on_store_def set_last_vote_round_def)
      then show ?thesis by (rule none)
    next
      case (Inr x)
      with True q u \<open>q = Inr v\<close> r show ?thesis
        by (intro cast)
          (simp_all add: make_vote_def hbind_def hret_def hget_def hmod_def hlift_def htry_def on_store_def set_last_vote_round_def)
    qed
  qed
qed

lemma cast_votes_append: "hs_effects t = hs_effects s @ es \<Longrightarrow> list_all (\<lambda>e. \<not> is_cast e) es \<Longrightarrow> cast_votes t = cast_votes s"
  by (induction es arbitrary: t rule: rev_induct)
    (auto simp: cast_votes_def map_filter_def is_cast_def filter_empty_conv list_all_iff split: hs_effect.splits)

lemma cast_votes_same: "hs_effects t = hs_effects s \<Longrightarrow> cast_votes t = cast_votes s"
  by (simp add: cast_votes_def)

lemma advance_round_fields:
  "hs_store (advance_round r s) = hs_store s" "cast_votes (advance_round r s) = cast_votes s"
  "hs_local_id (advance_round r s) = hs_local_id s" "hs_local_device_id (advance_round r s) = hs_local_device_id s"
  "hs_rpath (advance_round r s) = hs_rpath s" "hs_max_quorum_round (advance_round r s) = hs_max_quorum_round s"
  "hs_round s \<le> hs_round (advance_round r s)" "prefix (hs_effects s) (hs_effects (advance_round r s))"
  "hs_vote_mgr (advance_round r s) = hs_vote_mgr s \<or> hs_vote_mgr (advance_round r s) = vm_cleanup (r + 1) (hs_vote_mgr s)"
  by (auto simp: advance_round_def emit_def cast_votes_def map_filter_def)

lemma cast_votes_cast: "cast_votes (emit (CastVote b p r) s) = cast_votes s @ [(b, p, r)]"
  by (simp add: cast_votes_def emit_def map_filter_def)

lemma vote_inv_mono:
  "vote_inv s \<Longrightarrow> cast_votes t = cast_votes s \<Longrightarrow> sc_last_vote_round (hs_store s) \<le> sc_last_vote_round (hs_store t) \<Longrightarrow> vote_inv t"
  by (force simp: vote_inv_def)

lemma vote_inv_cast:
  assumes "vote_inv s" "sc_last_vote_round (hs_store s) < r"
  shows "vote_inv (emit (CastVote b p r) (s\<lparr>hs_store := (hs_store s)\<lparr>sc_last_vote_round := r\<rparr>\<rparr>))"
proof -
  have same: "cast_votes (s\<lparr>hs_store := c\<rparr>) = cast_votes s" for c by (simp add: cast_votes_def)
  have "hs_store (emit e u) = hs_store u" for e u by (simp add: emit_def)
  with assms show ?thesis
    by (fastforce simp: vote_inv_def cast_votes_cast same sorted_wrt_append)
qed

lemma make_vote_inv: "vote_inv s \<Longrightarrow> vote_inv (snd (make_vote E b proposals remote s))"
  by (cases E b proposals remote s rule: make_vote_cases) (simp_all add: vote_inv_cast)

lemma vote_mgr_kept: "snd (make_vote E b proposals remote s) = t \<Longrightarrow> hs_vote_mgr t = hs_vote_mgr s"
  by (cases E b proposals remote s rule: make_vote_cases) (auto simp: emit_def)

lemma cast_votes_fields [simp]:
  "cast_votes (s\<lparr>hs_store := c\<rparr>) = cast_votes s" "cast_votes (s\<lparr>hs_vote_mgr := vm\<rparr>) = cast_votes s"
  "cast_votes (update_max_quorum_round r s) = cast_votes s" "hs_store (update_max_quorum_round r s) = hs_store s"
  by (simp_all add: cast_votes_def update_max_quorum_round_def)

interpretation votes: runner_order vote_inv_kept
proof unfold_locales
  fix s t :: hotstuff
  assume "quiet s t"
  then show "vote_inv_kept s t"
    by (auto simp: vote_inv_kept_def quiet_def intro: vote_inv_mono cast_votes_same)
next
  fix es s
  assume "list_all (\<lambda>e. \<not> is_cast e) es"
  then have "cast_votes (s\<lparr>hs_effects := hs_effects s @ es\<rparr>) = cast_votes s" by (intro cast_votes_append) simp_all
  then show "vote_inv_kept s (s\<lparr>hs_effects := hs_effects s @ es\<rparr>)"
    by (auto simp: vote_inv_kept_def intro: vote_inv_mono)
qed (auto simp: vote_inv_kept_def advance_round_fields last_vote_round_kept last_vote_round_set make_vote_inv intro: vote_inv_mono)

interpretation logs: runner_order grows
proof unfold_locales
  fix E b proposals remote s
  show "grows s (snd (make_vote E b proposals remote s))"
    by (cases E b proposals remote s rule: make_vote_cases) (simp_all add: grows_def emit_def)
next
  fix s t u
  assume "grows s t" "grows t u"
  then show "grows s u" by (auto simp: grows_def intro: prefix_order.trans)
qed (simp_all add: grows_def quiet_def update_max_quorum_round_def advance_round_fields last_vote_round_kept last_vote_round_set)

interpretation makers: runner_order votes_wf_kept
proof unfold_locales
  fix r s
  show "votes_wf_kept s (advance_round r s)"
    using advance_round_fields(9) [of r s] by (auto simp: votes_wf_kept_def vm_cleanup_wf)
next
  fix E b proposals remote s
  show "votes_wf_kept s (snd (make_vote E b proposals remote s))"
    using vote_mgr_kept [OF refl, of E b proposals remote s] by (simp add: votes_wf_kept_def)
qed (simp_all add: votes_wf_kept_def quiet_def update_max_quorum_round_def add_voting_block_wf add_vote_wf add_timeout_wf)

subsection \<open>Runs\<close>

text \<open>The states of one runner, whatever its environment answers and whoever sends it messages. A restart
  keeps the logs. Only restarts that load a cache whose vote round is not behind the stored one are
  counted: the storage engine writes the round of a vote, but answers as if it were empty while no block
  is stored, and a node that restarts then begins again at round 0.\<close>

inductive runner_reach :: "hotstuff \<Rightarrow> bool" where
  start: "runner_reach (hotstuff_new local_id device rpath c)"
| step: "runner_reach s \<Longrightarrow> hs_step E i s = Some (r, t) \<Longrightarrow> runner_reach t"
| message: "runner_reach s \<Longrightarrow> on_message m remote s = Some (r, t) \<Longrightarrow> runner_reach t"
| recover: "runner_reach s \<Longrightarrow> runner_reach (snd (recover E s))"
| restart: "runner_reach s \<Longrightarrow> sc_last_vote_round (hs_store s) \<le> sc_last_vote_round c \<Longrightarrow>
    runner_reach ((hotstuff_new (hs_local_id s) (hs_local_device_id s) (hs_rpath s) c)\<lparr>hs_effects := hs_effects s\<rparr>)"

lemma reach_vote_inv: "runner_reach s \<Longrightarrow> vote_inv s"
proof (induction rule: runner_reach.induct)
  case (start local_id device rpath c)
  then show ?case by (simp add: vote_inv_def cast_votes_def hotstuff_new_def Let_def map_filter_def)
next
  case (step s E i r t)
  with votes.R_hs_step [of E i s r t] show ?case by (simp add: vote_inv_kept_def)
next
  case (message s m remote r t)
  with votes.R_message [of m remote s r t] show ?case by (simp add: vote_inv_kept_def)
next
  case (recover s E)
  with votes.keepsD [OF votes.keeps_recover] show ?case by (simp add: vote_inv_kept_def)
next
  case (restart s c)
  then show ?case by (elim vote_inv_mono) (simp_all add: cast_votes_def hotstuff_new_def Let_def)
qed

lemma reach_vote_mgr_wf: "runner_reach s \<Longrightarrow> vote_mgr_wf (hs_vote_mgr s)"
proof (induction rule: runner_reach.induct)
  case (step s E i r t)
  with makers.R_hs_step [of E i s r t] show ?case by (simp add: votes_wf_kept_def)
next
  case (message s m remote r t)
  with makers.R_message [of m remote s r t] show ?case by (simp add: votes_wf_kept_def)
next
  case (recover s E)
  with makers.keepsD [OF makers.keeps_recover] show ?case by (simp add: votes_wf_kept_def)
qed (simp_all add: hotstuff_new_def Let_def vote_mgr_new_wf)

lemma cast_once:
  assumes "vote_inv s" "(b, p, r) \<in> set (cast_votes s)" "(b', p', r) \<in> set (cast_votes s)"
  shows "b = b' \<and> p = p'"
proof -
  have "distinct (map (snd \<circ> snd) (cast_votes s))"
    using assms(1) by (simp add: vote_inv_def strict_sorted_iff)
  then have "inj_on (snd \<circ> snd) (set (cast_votes s))" by (simp add: distinct_map)
  from inj_onD [OF this _ assms(2,3)] show ?thesis by simp
qed

subsection \<open>Contents of votes\<close>

lemma to_be_bytes_inj:
  assumes "to_be_bytes (a :: object_id) = to_be_bytes b"
  shows "a = b"
proof -
  have d: "8 dvd LENGTH(256)" by simp
  have "a = from_be_bytes (to_be_bytes a)" by (rule from_to_be_bytes [OF d, symmetric])
  also have "\<dots> = from_be_bytes (to_be_bytes b)" by (simp only: assms)
  also have "\<dots> = b" by (rule from_to_be_bytes [OF d])
  finally show ?thesis .
qed

lemma round_bytes_inj:
  assumes "round_bytes a = round_bytes b" "a < 2 ^ 64" "b < 2 ^ 64"
  shows "a = b"
proof -
  have "to_be_bytes (word_of_nat a :: u64) = to_be_bytes (word_of_nat b :: u64)" using assms(1) by (simp add: round_bytes_def to_le_bytes_def)
  then have "(word_of_nat a :: u64) = word_of_nat b" by (metis from_to_be_bytes_simps(4))
  with assms(2,3) show ?thesis by (simp add: word_of_nat_eq_iff take_bit_nat_eq_self)
qed

lemma content_lengths [simp]:
  "length (to_be_bytes (k :: object_id)) = 32" "length (round_bytes r) = 8"
  by (simp_all add: length_to_be_bytes round_bytes_def)

lemma vote_content_inj:
  assumes "vote_content b p r = vote_content b' p' r'" "r < 2 ^ 64" "r' < 2 ^ 64"
  shows "b = b' \<and> p = p' \<and> r = r'"
proof -
  have ne: "to_be_bytes (k :: object_id) \<noteq> []" for k
    using content_lengths(1) [of k] by (metis list.size(3) zero_neq_numeral)
  from assms show ?thesis
    by (auto simp: vote_content_def ne ne [symmetric] dest: to_be_bytes_inj round_bytes_inj split: option.splits)
qed

lemma vote_not_timeout: "vote_content b p r \<noteq> timeout_content q r' shell"
proof
  assume "vote_content b p r = timeout_content q r' shell"
  then have "length (vote_content b p r) = length (timeout_content q r' shell)" by simp
  then show False by (simp add: vote_content_def timeout_content_def split: option.splits)
qed

subsection \<open>Agreement within a round\<close>

text \<open>The hashes that a runner has given a signature for.\<close>

definition signed_hashes :: "(bytes \<Rightarrow> bytes) \<Rightarrow> (block_desc \<Rightarrow> bytes result) \<Rightarrow> hotstuff \<Rightarrow> bytes set" where
  "signed_hashes sha256 desc_hash s =
     {sha256 (vote_content b p r) | b p r. CastVote b p r \<in> set (hs_effects s)} \<union>
     {sha256 (timeout_content q r shell) | q r shell. SignTimeout q r shell \<in> set (hs_effects s)} \<union>
     {h. \<exists>d. SignBlock d \<in> set (hs_effects s) \<and> desc_hash d = Inr h}"

definition verifies_only :: "'e committee_env_scheme \<Rightarrow> object_id \<Rightarrow> bytes set \<Rightarrow> bool" where
  "verifies_only E v hashes = (\<forall>hash sig. verify_sign E hash v sig = Inr () \<longrightarrow> hash \<in> hashes)"

lemma quorums_intersect:
  fixes n :: nat
  assumes "finite M" "card M = n" "A \<subseteq> M" "B \<subseteq> M" "n * 2 div 3 + 1 \<le> card A" "n * 2 div 3 + 1 \<le> card B"
    "3 * card (F \<inter> M) < n"
  shows "\<exists>v \<in> A \<inter> B. v \<notin> F"
proof (rule ccontr)
  assume "\<not> ?thesis"
  then have "A \<inter> B \<subseteq> F \<inter> M" using assms(3) by blast
  then have "card (A \<inter> B) \<le> card (F \<inter> M)" using assms(1) by (intro card_mono) auto
  moreover have "card (A \<union> B) \<le> n" using assms(1-4) card_mono [of M "A \<union> B"] by auto
  moreover have "card A + card B = card (A \<union> B) + card (A \<inter> B)"
    using assms(1,3,4) by (intro card_Un_Int) (auto intro: finite_subset)
  ultimately show False using assms(5-7) by linarith
qed

lemma verify_qc_votes:
  assumes "verify_qc_with_desc E qc d = Inr ()" "ce_group E (Some (gd_group_shell_id d)) = Inr g"
  shows "length (gi_oods g) * 2 div 3 + 1 \<le> card (set (map qs_voter (qc_votes qc)) \<inter> set (gi_oods g))"
    "v \<in> set (map qs_voter (qc_votes qc)) \<Longrightarrow>
     \<exists>sig. verify_sign E (ce_sha256 E (vote_content (qc_block_id qc) (qc_prev_block_id qc) (qc_round qc))) v sig = Inr ()"
proof -
  have q: "quorum_threshold E (map qs_voter (qc_votes qc)) (Some (gd_group_shell_id d)) = Inr True"
    and v: "\<forall>s\<in>set (qc_votes qc). verify_vote E \<lparr>qv_block_id = qc_block_id qc, qv_prev_block_id = qc_prev_block_id qc,
        qv_round = qc_round qc, qv_voter = qs_voter s, qv_signature = qs_signature s\<rparr> = Inr ()"
    using assms(1) by (auto simp: verify_qc_with_desc_def rbind_eq_Inr first_error_Inr split: if_splits)
  from q assms(2) show "length (gi_oods g) * 2 div 3 + 1 \<le> card (set (map qs_voter (qc_votes qc)) \<inter> set (gi_oods g))"
    unfolding quorum_True by auto
  assume "v \<in> set (map qs_voter (qc_votes qc))"
  with v show "\<exists>sig. verify_sign E (ce_sha256 E (vote_content (qc_block_id qc) (qc_prev_block_id qc) (qc_round qc))) v sig = Inr ()"
    by (auto simp: verify_vote_def vote_hash_def)
qed

lemma cast_votes_set: "(b, p, r) \<in> set (cast_votes s) \<longleftrightarrow> CastVote b p r \<in> set (hs_effects s)"
proof -
  have "(b, p, r) \<in> set (List.map_filter (\<lambda>e. case e of CastVote b p r \<Rightarrow> Some (b, p, r) | _ \<Rightarrow> None) es) \<longleftrightarrow>
      CastVote b p r \<in> set es" for es
  proof (induction es)
    case (Cons e es)
    then show ?case by (cases e) (auto simp: List.map_filter_simps)
  qed (simp add: List.map_filter_simps)
  then show ?thesis by (simp add: cast_votes_def)
qed

lemma signed_vote_cast:
  assumes inj: "inj sha256" and sep: "\<And>d h b p r. desc_hash d = Inr h \<Longrightarrow> h \<noteq> sha256 (vote_content b p r)"
    and fit: "\<forall>(_, _, r)\<in>set (cast_votes s). r < 2 ^ 64" "r < 2 ^ 64"
    and signed: "sha256 (vote_content b p r) \<in> signed_hashes sha256 desc_hash s"
  shows "(b, p, r) \<in> set (cast_votes s)"
proof -
  from signed consider (vote) b' p' r' where "sha256 (vote_content b p r) = sha256 (vote_content b' p' r')" "CastVote b' p' r' \<in> set (hs_effects s)"
    | (timeout) q r' shell where "sha256 (vote_content b p r) = sha256 (timeout_content q r' shell)"
    | (block) d where "desc_hash d = Inr (sha256 (vote_content b p r))"
    unfolding signed_hashes_def by blast
  then show ?thesis
  proof cases
    case vote
    then have c: "(b', p', r') \<in> set (cast_votes s)" "vote_content b p r = vote_content b' p' r'"
      using inj by (simp_all add: cast_votes_set inj_eq)
    moreover from fit(1) c(1) have "r' < 2 ^ 64" by blast
    ultimately show ?thesis using vote_content_inj [of b p r b' p' r'] fit(2) by simp
  next
    case timeout
    then show ?thesis using inj vote_not_timeout by (simp add: inj_eq)
  next
    case block
    then show ?thesis using sep by blast
  qed
qed

end
