(* ===== verification/ConsensusSample.thy ===== *)
theory ConsensusSample
  imports Cluster HotstuffInv
begin

text \<open>
  Evaluating runs of a cluster by rewriting, and a committee of four runners to evaluate them on: device
  \<open>100 + i\<close> of the owner \<open>200 + i\<close> has the one byte key of its number, a signature is the key and the
  hash, and every lookup and write succeeds. Runners 1 and 3 have a proposal each.
\<close>

subsection \<open>Rewriting\<close>

definition hcont :: "'a result option \<times> hotstuff \<Rightarrow> ('a \<Rightarrow> 'b hs) \<Rightarrow> 'b result option \<times> hotstuff" where
  "hcont p f = (case p of (r, s) \<Rightarrow> (case r of None \<Rightarrow> (None, s) | Some (Inl e) \<Rightarrow> (Some (Inl e), s) | Some (Inr x) \<Rightarrow> f x s))"

lemma hbind_eval: "hbind m f s = hcont (m s) f"
  by (simp add: hbind_def hcont_def)

lemma hcont_eval:
  "hcont (Some (Inr x), s) f = f x s"
  "hcont (Some (Inl e), s) f = (Some (Inl e), s)"
  "hcont (None, s) f = (None, s)"
  by (simp_all add: hcont_def)

lemma basic_eval:
  "hret x s = (Some (Inr x), s)"
  "hlift r s = (Some r, s)"
  "hlift_opt r' s = (r', s)"
  "hget g s = (Some (Inr (g s)), s)"
  "hmod h s = (Some (Inr ()), h s)"
  by (simp_all add: hret_def hlift_def hlift_opt_def hget_def hmod_def)

definition htry_out :: "'a result option \<times> hotstuff \<Rightarrow> (bucky_error_code + 'a) result option \<times> hotstuff" where
  "htry_out p = (case p of (r, s) \<Rightarrow> (case r of None \<Rightarrow> (None, s) | Some (Inr x) \<Rightarrow> (Some (Inr (Inr x)), s)
      | Some (Inl (Err e)) \<Rightarrow> (Some (Inr (Inl e)), s) | Some (Inl Panic) \<Rightarrow> (Some (Inl Panic), s) | Some (Inl UB) \<Rightarrow> (Some (Inl UB), s)))"

lemma htry_eval: "htry m s = htry_out (m s)"
  by (simp add: htry_def htry_out_def)

lemma htry_out_eval:
  "htry_out (None, s) = (None, s)"
  "htry_out (Some (Inr x), s) = (Some (Inr (Inr x)), s)"
  "htry_out (Some (Inl (Err e)), s) = (Some (Inr (Inl e)), s)"
  by (simp_all add: htry_out_def)

text \<open>Continuations are not rewritten before they are entered.\<close>

lemma hbind_weak: "s = s' \<Longrightarrow> hbind m f s = hbind m f s'"
  by simp

lemma hcont_weak: "p = q \<Longrightarrow> hcont p f = hcont q f"
  by simp

lemma rbind_weak: "p = q \<Longrightarrow> rbind p f = rbind q f"
  by simp

lemma let_weak: "p = q \<Longrightarrow> Let p f = Let q f"
  by simp

lemma obind_weak: "p = q \<Longrightarrow> Option.bind p f = Option.bind q f"
  by simp


lemma node_env_sel:
  "ce_get_block (node_env base cl i) = cluster_get_block cl"
  "ce_group (node_env base cl i) = ce_group (base i)"
  "ce_local_group (node_env base cl i) = ce_local_group (base i)"
  "ce_device (node_env base cl i) = ce_device (base i)"
  "ce_verify (node_env base cl i) = ce_verify (base i)"
  "ce_verify_desc (node_env base cl i) = ce_verify_desc (base i)"
  "ce_sha256 (node_env base cl i) = ce_sha256 (base i)"
  "he_write (node_env base cl i) = he_write (base i)"
  "he_put_qc (node_env base cl i) = he_put_qc (base i)"
  "he_put_block (node_env base cl i) = he_put_block (base i)"
  "he_owner_ood (node_env base cl i) = he_owner_ood (base i)"
  "he_get_proposal (node_env base cl i) = he_get_proposal (base i)"
  "he_sub_tree (node_env base cl i) = he_sub_tree (base i)"
  "he_on_verify (node_env base cl i) = he_on_verify (base i)"
  "he_on_execute (node_env base cl i) = he_on_execute (base i)"
  "he_decode_receipt (node_env base cl i) = he_decode_receipt (base i)"
  "he_sign (node_env base cl i) = he_sign (base i)"
  "he_desc_hash (node_env base cl i) = he_desc_hash (base i)"
  "he_body_hash (node_env base cl i) = he_body_hash (base i)"
  "he_calc_id (node_env base cl i) = he_calc_id (base i)"
  "he_now (node_env base cl i) = he_now (base i)"
  "he_query_proposals (node_env base cl i) = he_query_proposals (base i)"
  "he_remove_proposals (node_env base cl i) = he_remove_proposals (base i)"
  "he_wait_proposals (node_env base cl i) = he_wait_proposals (base i)"
  "he_find_block_by_height (node_env base cl i) = he_find_block_by_height (base i)"
  by (simp_all add: node_env_def)

lemma node_env_weak: "node_env base cl i = node_env base cl i"
  ..

lemmas run_congs = hbind_weak hcont_weak rbind_weak let_weak obind_weak node_env_weak

lemmas run_eval = hbind_eval hcont_eval basic_eval htry_eval htry_out_eval on_store_def on_votes_def emit_def post_message_def
  broadcast_def send_message_def send_inner_def send_block_gen_def check_block_result_state_def
  check_empty_block_result_state_with_prev_def calc_time_delta_def check_timestamp_precision_def
  load_all_proposals_for_block_def check_block_proposal_result_state_by_app.simps get_leader_owner_def
  check_group_is_latest_def fetch_block_def check_block_linked_def update_max_quorum_round_def update_max_quorum_height_def
  update_high_qc_def advance_round_def process_qc_def with_tc_def is_synchronizing_def notify_sorted_def try_wait_proposals_def
  sign_block_def put_block_def package_block_with_proposals_def generate_block_def ok_or_false_def vote_mode_def is_valid_round_def
  vote_prev_block_def vote_proposals_def vote_checks_def make_vote_def process_block_qc_def handle_vote_def
  notify_block_committed_def on_new_block_commit_def process_block_def handle_block_def process_linked_block_def process_timeout_qc_def handle_timeout_def
  handle_tc_def local_timeout_round_def recover_def on_rx_block_def on_rx_message_def hs_step_def on_message_def hotstuff_new_def
  CHANNEL_CAPACITY_def BLOCK_COUNT_REST_TO_SYNC_def TIME_PRECISION_def PROPOSAL_MAX_TIMEOUT_def
  storage_cache_new_def header_round_def header_height_def max_height_def find_value_def option_or_def ok_or_not_found_def
  find_block_in_cache_def find_block_in_cache_by_round_def has_proposal_def is_proposal_finished_def block_with_max_round_def
  block_linked_def rem_prepares_def plan_push_def proposal_ids_def block_ops_def flips_def wrapping_sub_def wrap64_def write_push_def finish_header_def
  update_memory_def push_block_def set_last_vote_round_def save_qc_def save_tc_def PROPOSAL_MAX_TIMEOUT_AS_MICRO_SEC_def
  qc_maker_new_def qc_maker_on_block_def qc_maker_append_def tc_maker_new_def tc_maker_on_block_def tc_maker_append_def
  vote_mgr_new_def entry2_def insert2_def add_voting_block_def add_vote_def add_timeout_def vm_cleanup_def
  block_defs qc_round_of_def block_create_def vote_hash_def timeout_hash_def qc_vote_new_def timeout_vote_new_def
  quorum_threshold_def get_leader_def verify_sign_def verify_vote_def verify_qc_with_desc_def verify_qc_def verify_timeout_def
  verify_tc_def check_block_sign_def verify_block_def
  cluster_get_block_def node_env_sel returned_def net_step_def start_node_def Let_def
subsection \<open>A committee\<close>

definition demo_dev :: "nat \<Rightarrow> object_id" where
  "demo_dev i = word_of_nat (100 + i)"

definition demo_group :: group_info where
  "demo_group = \<lparr>gi_oods = [100, 101, 102, 103], gi_shell_id = 50\<rparr>"

definition demo_proposal :: "object_id \<Rightarrow> group_proposal" where
  "demo_proposal i = \<lparr>gp_id = i, gp_create_time = 4000000000, gp_effective_ending = None\<rparr>"

definition demo_key :: "object_id \<Rightarrow> bytes" where
  "demo_key d = [ucast d]"

definition demo_env :: "nat \<Rightarrow> hotstuff_env" where
  "demo_env i = \<lparr>ce_group = (\<lambda>_. Inr demo_group), ce_local_group = demo_group,
     ce_device = (\<lambda>d. Inr \<lparr>dev_id = d, dev_owner = Some (d + 100), dev_key = demo_key d\<rparr>),
     ce_verify = (\<lambda>key hash sig. sig = key @ hash),
     ce_verify_desc = (\<lambda>key b sig. Inr (bs_data sig = key @ gd_body_hash (gb_desc b))),
     ce_get_block = (\<lambda>_. Inl (Err NotFound)), ce_sha256 = (\<lambda>x. x),
     he_write = (\<lambda>_. Inr ()), he_put_qc = (\<lambda>_. Inr ()), he_put_block = (\<lambda>_. Inr ()),
     he_owner_ood = (\<lambda>d. Inr (d - 100)),
     he_get_proposal = (\<lambda>p _. Inr (demo_proposal p)),
     he_sub_tree = (\<lambda>_ _. Inr ()), he_on_verify = (\<lambda>_ _ _. Inr ()),
     he_on_execute = (\<lambda>p st. Inr \<lparr>er_result_state_id = Some (gp_id p), er_receipt = None, er_context = None\<rparr>),
     he_decode_receipt = (\<lambda>_. Inl (Err NotFound)),
     he_sign = (\<lambda>h. Inr (demo_key (demo_dev i) @ h)),
     he_desc_hash = (\<lambda>d. Inr (gd_body_hash d)), he_body_hash = (\<lambda>_. []),
     he_calc_id = (\<lambda>d. word_of_nat (gd_round d)), he_now = 4000000000,
     he_query_proposals = Inr (if i = 1 then [demo_proposal 11] else if i = 3 then [demo_proposal 13] else []),
     he_remove_proposals = (\<lambda>_. Inr ()), he_wait_proposals = True,
     he_find_block_by_height = (\<lambda>_. Inl (Err NotFound))\<rparr>"

definition demo_node :: "nat \<Rightarrow> hotstuff" where
  "demo_node i = hotstuff_new (demo_dev i + 100) (demo_dev i)
     \<lparr>rp_group_id = 1, rp_dec_id = 2, rp_rpath = []\<rparr> (storage_cache_new None)"

definition demo_cluster :: cluster where
  "demo_cluster = map (\<lambda>i. start_node demo_env i (demo_node i)) [0, 1, 2, 3]"

lemma demo_env_sel:
  "ce_group (demo_env i) = (\<lambda>_. Inr demo_group)"
  "ce_local_group (demo_env i) = demo_group"
  "ce_device (demo_env i) = (\<lambda>d. Inr \<lparr>dev_id = d, dev_owner = Some (d + 100), dev_key = demo_key d\<rparr>)"
  "ce_verify (demo_env i) = (\<lambda>key hash sig. sig = key @ hash)"
  "ce_verify_desc (demo_env i) = (\<lambda>key b sig. Inr (bs_data sig = key @ gd_body_hash (gb_desc b)))"
  "ce_get_block (demo_env i) = (\<lambda>_. Inl (Err NotFound))"
  "ce_sha256 (demo_env i) = (\<lambda>x. x)"
  "he_write (demo_env i) = (\<lambda>_. Inr ())"
  "he_put_qc (demo_env i) = (\<lambda>_. Inr ())"
  "he_put_block (demo_env i) = (\<lambda>_. Inr ())"
  "he_owner_ood (demo_env i) = (\<lambda>d. Inr (d - 100))"
  "he_get_proposal (demo_env i) = (\<lambda>p _. Inr (demo_proposal p))"
  "he_sub_tree (demo_env i) = (\<lambda>_ _. Inr ())"
  "he_on_verify (demo_env i) = (\<lambda>_ _ _. Inr ())"
  "he_on_execute (demo_env i) = (\<lambda>p st. Inr \<lparr>er_result_state_id = Some (gp_id p), er_receipt = None, er_context = None\<rparr>)"
  "he_decode_receipt (demo_env i) = (\<lambda>_. Inl (Err NotFound))"
  "he_sign (demo_env i) = (\<lambda>h. Inr (demo_key (demo_dev i) @ h))"
  "he_desc_hash (demo_env i) = (\<lambda>d. Inr (gd_body_hash d))"
  "he_body_hash (demo_env i) = (\<lambda>_. [])"
  "he_calc_id (demo_env i) = (\<lambda>d. word_of_nat (gd_round d))"
  "he_now (demo_env i) = 4000000000"
  "he_query_proposals (demo_env i) = Inr (if i = 1 then [demo_proposal 11] else if i = 3 then [demo_proposal 13] else [])"
  "he_remove_proposals (demo_env i) = (\<lambda>_. Inr ())"
  "he_wait_proposals (demo_env i) = True"
  "he_find_block_by_height (demo_env i) = (\<lambda>_. Inl (Err NotFound))"
  by (simp_all add: demo_env_def)

lemmas demo_defs = demo_dev_def demo_group_def demo_proposal_def demo_key_def demo_env_sel demo_node_def demo_cluster_def

text \<open>Runner 1 leads round 1: its block reaches the runners 0 and 3, and the three vote for it.\<close>

definition first_round :: "net_event list" where
  "first_round = [Run 1 RxBlockGen, Deliver 1 0 0, Run 0 RxMessage, Deliver 1 0 3, Run 3 RxMessage]"

lemma first_round_votes:
  "map_option (map (\<lambda>s. filter is_cast (hs_effects s))) (net_run demo_env first_round demo_cluster) =
     Some [[CastVote 1 None 1], [CastVote 1 None 1], [], [CastVote 1 None 1]]"
  by (simp add: run_eval demo_defs first_round_def is_cast_def cong: run_congs)

end
