(* ===== verification/GroupChain.thy ===== *)
theory GroupChain
  imports GroupStorage
begin

text \<open>
  What the chain cache of \<^verbatim>\<open>GroupStorage\<close> keeps. Its invariant says where prepared and pre-committed
  blocks hang; every push of a linked block that does not panic keeps it, and the cache refines a list of
  committed blocks that only grows at its end. A push panics exactly when the block that it commits
  repeats a proposal, which blocks with new proposals never do.
\<close>

subsection \<open>What the cache always satisfies\<close>

definition header_id :: "storage_cache \<Rightarrow> object_id option" where
  "header_id c = map_option gb_id (sc_header_block c)"

definition on_header :: "storage_cache \<Rightarrow> group_block \<Rightarrow> bool" where
  "on_header c b = (block_height b = header_height c + 1 \<and> prev_block_id b = header_id c \<and> header_round c < block_round b)"

definition store_inv :: "storage_cache \<Rightarrow> bool" where
  "store_inv c =
     (distinct (map fst (sc_prepares c)) \<and> distinct (map fst (sc_pre_commits c)) \<and>
      dom (map_of (sc_prepares c)) \<inter> dom (map_of (sc_pre_commits c)) = {} \<and>
      (\<forall>h. sc_header_block c = Some h \<longrightarrow> 1 \<le> block_height h \<and>
         gb_id h \<notin> dom (map_of (sc_prepares c)) \<and> gb_id h \<notin> dom (map_of (sc_pre_commits c))) \<and>
      (\<forall>k b. map_of (sc_pre_commits c) k = Some b \<longrightarrow> k = gb_id b \<and> on_header c b) \<and>
      (\<forall>k b. map_of (sc_prepares c) k = Some b \<longrightarrow> k = gb_id b \<and>
         (on_header c b \<or>
          (block_height b = header_height c + 2 \<and>
           (\<exists>i p. prev_block_id b = Some i \<and> map_of (sc_pre_commits c) i = Some p \<and> block_round p < block_round b)))))"

lemma store_inv_new: "store_inv (storage_cache_new d)"
  by (simp add: store_inv_def storage_cache_new_def)

lemma store_invD:
  assumes "store_inv c"
  shows "distinct (map fst (sc_prepares c))" "distinct (map fst (sc_pre_commits c))"
    "map_of (sc_prepares c) k = Some b \<Longrightarrow> map_of (sc_pre_commits c) k = None"
    "map_of (sc_pre_commits c) k = Some b \<Longrightarrow> map_of (sc_prepares c) k = None"
    "sc_header_block c = Some h \<Longrightarrow> 1 \<le> block_height h"
    "sc_header_block c = Some h \<Longrightarrow> map_of (sc_prepares c) (gb_id h) = None"
    "sc_header_block c = Some h \<Longrightarrow> map_of (sc_pre_commits c) (gb_id h) = None"
    "map_of (sc_pre_commits c) k = Some b \<Longrightarrow> gb_id b = k"
    "map_of (sc_pre_commits c) k = Some b \<Longrightarrow> on_header c b"
    "map_of (sc_prepares c) k = Some b \<Longrightarrow> gb_id b = k"
  using assms unfolding store_inv_def by (simp_all add: disjoint_iff domIff del: map_of_eq_Some_iff) (metis option.exhaust)+

lemma store_inv_prepare_cases:
  assumes "store_inv c" "map_of (sc_prepares c) k = Some b"
  obtains (header) "on_header c b"
  | (pre) i p where "block_height b = header_height c + 2" "prev_block_id b = Some i"
      "map_of (sc_pre_commits c) i = Some p" "block_round p < block_round b"
  using assms unfolding store_inv_def by blast

lemma header_height_None: "store_inv c \<Longrightarrow> header_height c = 0 \<longleftrightarrow> sc_header_block c = None"
  by (auto simp: header_height_def store_inv_def split: option.splits)

lemma find_block_in_cache_Inr:
  "find_block_in_cache c k = Inr q \<longleftrightarrow>
     (case sc_header_block c of Some h \<Rightarrow> gb_id h = k | None \<Rightarrow> False) \<and> sc_header_block c = Some q \<or>
     \<not> (case sc_header_block c of Some h \<Rightarrow> gb_id h = k | None \<Rightarrow> False) \<and>
       (map_of (sc_prepares c) k = Some q \<or> map_of (sc_prepares c) k = None \<and> map_of (sc_pre_commits c) k = Some q)"
  by (auto simp: find_block_in_cache_def ok_or_not_found_def option_or_def split: option.splits)

lemma find_block_in_cache_Inl:
  "find_block_in_cache c k = Inl e \<Longrightarrow>
     map_of (sc_prepares c) k = None \<and> map_of (sc_pre_commits c) k = None \<and> header_id c \<noteq> Some k"
  by (auto simp: find_block_in_cache_def ok_or_not_found_def option_or_def header_id_def split: option.splits if_splits)

lemma block_linked_LinkTo:
  assumes "block_linked c b = Inr (LinkTo p)"
  shows "header_height c < block_height b" "block_height b \<le> header_height c + 3" "header_round c < block_round b"
    "\<exists>e. find_block_in_cache c (gb_id b) = Inl e"
    "case prev_block_id b of
       None \<Rightarrow> p = None \<and> block_height b = 1 \<and> header_height c = 0
     | Some k \<Rightarrow> \<exists>q. p = Some q \<and> find_block_in_cache c k = Inr q \<and> block_height q + 1 = block_height b \<and>
         block_round q < block_round b"
  using assms by (auto simp: block_linked_def Let_def split: if_splits option.splits sum.splits)

text \<open>The five places where a linked block fits.\<close>

lemma link_cases:
  assumes inv: "store_inv c" and link: "block_linked c b = Inr (LinkTo p)"
  obtains (root) "on_header c b" "map_option (\<lambda>k. map_of (sc_prepares c) k) (prev_block_id b) \<in> {None, Some None}"
  | (first) k q where "prev_block_id b = Some k" "map_of (sc_prepares c) k = Some q" "on_header c q"
      "block_height b = header_height c + 2" "block_round q < block_round b"
  | (commit) k q i r where "prev_block_id b = Some k" "map_of (sc_prepares c) k = Some q" "prev_block_id q = Some i"
      "map_of (sc_pre_commits c) i = Some r" "block_height b = header_height c + 3" "block_round q < block_round b"
      "block_height q = header_height c + 2" "block_round r < block_round q"
  | (pre) k q where "prev_block_id b = Some k" "map_of (sc_prepares c) k = None" "map_of (sc_pre_commits c) k = Some q"
      "block_height b = header_height c + 2" "block_round q < block_round b"
proof (cases "prev_block_id b")
  case None
  with block_linked_LinkTo [OF link] header_height_None [OF inv] show ?thesis
    by (intro root) (auto simp: on_header_def header_id_def)
next
  case (Some k)
  with block_linked_LinkTo [OF link] obtain q where q: "find_block_in_cache c k = Inr q"
    "block_height q + 1 = block_height b" "block_round q < block_round b" by auto
  from q(1) consider (h) "sc_header_block c = Some q" "gb_id q = k"
    | (p) "map_of (sc_prepares c) k = Some q" | (c) "map_of (sc_prepares c) k = None" "map_of (sc_pre_commits c) k = Some q"
    unfolding find_block_in_cache_Inr by (auto split: option.splits)
  then show ?thesis
  proof cases
    case h
    with Some q store_invD(6) [OF inv h(1)] show ?thesis
      by (intro root) (auto simp: on_header_def header_id_def header_height_def header_round_def)
  next
    case p
    from inv p show ?thesis
    proof (cases rule: store_inv_prepare_cases)
      case header
      with Some p q show ?thesis by (intro first) (auto simp: on_header_def)
    next
      case (pre i r)
      with Some p q show ?thesis by (intro commit [of k q i r]) simp_all
    qed
  next
    case c
    with Some q store_invD(9) [OF inv c(2)] show ?thesis by (intro pre) (auto simp: on_header_def)
  qed
qed


lemma take_blocks_ok:
  assumes "distinct ks" "set ks \<subseteq> dom (map_of m)"
  shows "\<exists>m'. take_blocks ks m = Inr (map (\<lambda>k. the (map_of m k)) ks, m') \<and> map_of m' = (map_of m) |` (- set ks) \<and>
    (distinct (map fst m) \<longrightarrow> distinct (map fst m'))"
  using assms
proof (induction ks arbitrary: m)
  case Nil
  then show ?case by simp
next
  case (Cons k ks)
  then obtain b where b: "map_of m k = Some b" by auto
  have sub: "set ks \<subseteq> dom (map_of (AList.delete k m))" "distinct ks"
    using Cons.prems by (auto simp: AList.delete_conv')
  from Cons.IH [OF sub(2,1)] obtain m' where m':
    "take_blocks ks (AList.delete k m) = Inr (map (\<lambda>k'. the (map_of (AList.delete k m) k')) ks, m')"
    "map_of m' = (map_of (AList.delete k m)) |` (- set ks)"
    "distinct (map fst (AList.delete k m)) \<longrightarrow> distinct (map fst m')" by blast
  have same: "map (\<lambda>k'. the (map_of (AList.delete k m) k')) ks = map (\<lambda>k'. the (map_of m k')) ks"
    using Cons.prems by (auto simp: AList.delete_conv')
  have restr: "map_of m' = (map_of m) |` (- set (k # ks))"
    by (auto simp: m'(2) AList.delete_conv' restrict_map_def fun_eq_iff)
  from b m' same restr show ?case
    by (auto intro: distinct_delete)
qed

definition no_plan :: push_plan where
  "no_plan = \<lparr>pp_pre_commit = None, pp_header = None, pp_remove = []\<rparr>"

definition committed_block :: "storage_cache \<Rightarrow> group_block \<Rightarrow> group_block option" where
  "committed_block c b = (case plan_push c b of Inr p \<Rightarrow> pp_header p | Inl _ \<Rightarrow> None)"

text \<open>The proposals of a block can be added to the finished ones.\<close>

definition finishable :: "finish_proposal_mgr \<Rightarrow> group_block \<Rightarrow> bool" where
  "finishable fp h =
     (distinct (proposal_ids h) \<and> (flips fp h \<or> set (proposal_ids h) \<inter> fp_adding fp = {}))"

definition finish :: "finish_proposal_mgr \<Rightarrow> group_block \<Rightarrow> finish_proposal_mgr" where
  "finish fp h =
     (if block_proposals h = [] then fp
      else if flips fp h
      then \<lparr>fp_flip_timestamp = block_time h, fp_over = fp_adding fp, fp_adding = set (proposal_ids h)\<rparr>
      else fp\<lparr>fp_adding := fp_adding fp \<union> set (proposal_ids h)\<rparr>)"

lemma add_finished_eq: "add_finished ps A = (if distinct ps \<and> set ps \<inter> A = {} then Inr (A \<union> set ps) else Inl Panic)"
  by (induction ps arbitrary: A) (auto simp: rassert_def)

lemma finish_header_eq: "finish_header fp h = (if finishable fp h then Inr (finish fp h) else Inl Panic)"
  by (auto simp: finishable_def finish_header_def finish_def proposal_ids_def add_finished_eq Let_def)

lemma prepare_prev_not_prepare:
  assumes inv: "store_inv c" and k: "map_of (sc_prepares c) k = Some q" and b: "map_of (sc_prepares c) i = Some b"
  shows "prev_block_id b \<noteq> Some k"
  using inv b
proof (cases rule: store_inv_prepare_cases)
  case header
  with store_invD(6) [OF inv] k show ?thesis
    by (cases "sc_header_block c") (auto simp: on_header_def header_id_def simp del: map_of_eq_None_iff)
next
  case (pre j p)
  with store_invD(3) [OF inv k] show ?thesis by auto
qed

lemma rem_prepares_ok:
  assumes inv: "store_inv c" and k: "map_of (sc_prepares c) k = Some q"
  shows "rem_prepares h k (sc_prepares c) =
    Inr (map fst (filter (\<lambda>(i, b). prev_block_id b \<noteq> Some h \<and> i \<noteq> k) (sc_prepares c)))"
  using prepare_prev_not_prepare [OF inv k] store_invD(1) [OF inv] by (fastforce simp: rem_prepares_def)

lemma plan_push_cases:
  assumes inv: "store_inv c" and link: "block_linked c b = Inr (LinkTo p)"
  obtains (keep) "plan_push c b = Inr no_plan" "on_header c b \<or> (block_height b = header_height c + 2 \<and>
      (\<exists>k q. prev_block_id b = Some k \<and> map_of (sc_pre_commits c) k = Some q \<and> block_round q < block_round b))"
  | (first) k q where "plan_push c b = Inr (no_plan\<lparr>pp_pre_commit := Some (k, q)\<rparr>)" "prev_block_id b = Some k"
      "map_of (sc_prepares c) k = Some q" "on_header c q" "block_height b = header_height c + 2" "block_round q < block_round b"
  | (commit) k q i r where "plan_push c b = Inr \<lparr>pp_pre_commit = Some (k, q), pp_header = Some r,
        pp_remove = map fst (filter (\<lambda>(j, x). prev_block_id x \<noteq> Some i \<and> j \<noteq> k) (sc_prepares c))\<rparr>"
      "prev_block_id b = Some k" "map_of (sc_prepares c) k = Some q" "prev_block_id q = Some i" "gb_id r = i"
      "map_of (sc_pre_commits c) i = Some r" "block_height b = header_height c + 3" "block_round q < block_round b"
      "block_height q = header_height c + 2" "block_round r < block_round q"
  using inv link
proof (cases rule: link_cases)
  case root
  then show ?thesis
    by (intro keep) (auto simp: plan_push_def Let_def no_plan_def on_header_def split: option.splits)
next
  case (first k q)
  then have "prev_block_id q = header_id c" by (simp add: on_header_def)
  then have "\<forall>i. prev_block_id q = Some i \<longrightarrow> map_of (sc_pre_commits c) i = None"
    using store_invD(7) [OF inv] by (auto simp: header_id_def)
  with first that(2) [of k q] show ?thesis
    by (auto simp: plan_push_def Let_def no_plan_def split: option.splits)
next
  case (commit k q i r)
  note r = store_invD(8) [OF inv commit(4)] store_invD(9) [OF inv commit(4)]
  have "plan_push c b = Inr \<lparr>pp_pre_commit = Some (k, q), pp_header = Some r,
        pp_remove = map fst (filter (\<lambda>(j, x). prev_block_id x \<noteq> Some i \<and> j \<noteq> k) (sc_prepares c))\<rparr>"
    using commit r by (simp add: plan_push_def Let_def rem_prepares_ok [OF inv commit(2)] on_header_def header_id_def)
  with commit r(1) that(3) [of k q r i] show ?thesis by simp
next
  case (pre k q)
  then show ?thesis
    by (intro keep) (auto simp: plan_push_def Let_def no_plan_def)
qed


lemma store_invI:
  assumes "distinct (map fst (sc_prepares c))" "distinct (map fst (sc_pre_commits c))"
    "\<And>k p b. map_of (sc_prepares c) k = Some p \<Longrightarrow> map_of (sc_pre_commits c) k = Some b \<Longrightarrow> False"
    "\<And>h. sc_header_block c = Some h \<Longrightarrow> 1 \<le> block_height h \<and>
       map_of (sc_prepares c) (gb_id h) = None \<and> map_of (sc_pre_commits c) (gb_id h) = None"
    "\<And>k b. map_of (sc_pre_commits c) k = Some b \<Longrightarrow> k = gb_id b \<and> on_header c b"
    "\<And>k b. map_of (sc_prepares c) k = Some b \<Longrightarrow> k = gb_id b \<and>
       (on_header c b \<or>
        (block_height b = header_height c + 2 \<and>
         (\<exists>i p. prev_block_id b = Some i \<and> map_of (sc_pre_commits c) i = Some p \<and> block_round p < block_round b)))"
  shows "store_inv c"
proof -
  have "dom (map_of (sc_prepares c)) \<inter> dom (map_of (sc_pre_commits c)) = {}"
    using assms(3) by (force simp: dom_def simp del: map_of_eq_Some_iff)
  with assms(1,2,4-6) show ?thesis
    unfolding store_inv_def by (simp add: domIff del: map_of_eq_Some_iff map_of_eq_None_iff)
qed

lemma on_header_cong: "sc_header_block c = sc_header_block c' \<Longrightarrow> on_header c b = on_header c' b"
  by (simp add: on_header_def header_height_def header_round_def header_id_def)

lemma header_height_cong: "sc_header_block c = sc_header_block c' \<Longrightarrow> header_height c = header_height c'"
  by (simp add: header_height_def)

lemma on_header_update [simp]:
  "on_header (c\<lparr>sc_prepares := x\<rparr>) b = on_header c b"
  "on_header (c\<lparr>sc_pre_commits := y\<rparr>) b = on_header c b"
  "header_height (c\<lparr>sc_prepares := x\<rparr>) = header_height c"
  "header_height (c\<lparr>sc_pre_commits := y\<rparr>) = header_height c"
  by (simp_all add: on_header_def header_height_def header_round_def header_id_def)

definition fresh_id :: "storage_cache \<Rightarrow> object_id \<Rightarrow> bool" where
  "fresh_id c k = (map_of (sc_prepares c) k = None \<and> map_of (sc_pre_commits c) k = None \<and> header_id c \<noteq> Some k)"

lemma linked_fresh_id: "block_linked c b = Inr (LinkTo p) \<Longrightarrow> fresh_id c (gb_id b)"
  using block_linked_LinkTo(4) find_block_in_cache_Inl unfolding fresh_id_def by blast

lemma keep_inv:
  assumes inv: "store_inv c" and fresh: "fresh_id c (gb_id b)"
    and pos: "on_header c b \<or> (block_height b = header_height c + 2 \<and>
      (\<exists>k q. prev_block_id b = Some k \<and> map_of (sc_pre_commits c) k = Some q \<and> block_round q < block_round b))"
  shows "store_inv (c\<lparr>sc_prepares := AList.update (gb_id b) b (sc_prepares c)\<rparr>)" (is "store_inv ?c")
proof (rule store_invI)
  show "\<And>k p x. map_of (sc_prepares ?c) k = Some p \<Longrightarrow> map_of (sc_pre_commits ?c) k = Some x \<Longrightarrow> False"
    using fresh store_invD(3) [OF inv] by (auto simp: update_conv' fresh_id_def simp del: map_of_eq_Some_iff split: if_splits)
  show "\<And>h. sc_header_block ?c = Some h \<Longrightarrow> 1 \<le> block_height h \<and>
       map_of (sc_prepares ?c) (gb_id h) = None \<and> map_of (sc_pre_commits ?c) (gb_id h) = None"
    using fresh store_invD(5,6,7) [OF inv]
    by (auto simp: update_conv' fresh_id_def header_id_def simp del: map_of_eq_None_iff)
  show "\<And>k x. map_of (sc_pre_commits ?c) k = Some x \<Longrightarrow> k = gb_id x \<and> on_header ?c x"
    using store_invD(8,9) [OF inv] by (auto simp del: map_of_eq_Some_iff)
  show "\<And>k x. map_of (sc_prepares ?c) k = Some x \<Longrightarrow> k = gb_id x \<and>
       (on_header ?c x \<or>
        (block_height x = header_height ?c + 2 \<and>
         (\<exists>i p. prev_block_id x = Some i \<and> map_of (sc_pre_commits ?c) i = Some p \<and> block_round p < block_round x)))"
    using pos inv [unfolded store_inv_def]
    by (simp add: update_conv' del: map_of_eq_Some_iff split: if_splits)
  show "distinct (map fst (sc_prepares ?c))" "distinct (map fst (sc_pre_commits ?c))"
    using store_invD(1,2) [OF inv] by (simp_all add: distinct_update)
qed

lemma first_inv:
  assumes inv: "store_inv c" and fresh: "fresh_id c (gb_id b)" and prev: "prev_block_id b = Some k"
    and q: "map_of (sc_prepares c) k = Some q" "on_header c q"
    and b: "block_height b = header_height c + 2" "block_round q < block_round b"
  shows "store_inv (c\<lparr>sc_pre_commits := AList.update k q (sc_pre_commits c),
    sc_prepares := AList.delete k (AList.update (gb_id b) b (sc_prepares c))\<rparr>)" (is "store_inv ?c")
proof -
  have kb: "k \<noteq> gb_id b" using fresh q by (auto simp: fresh_id_def)
  have qid: "gb_id q = k" using store_invD(10) [OF inv q(1)] .
  have P: "map_of (sc_prepares ?c) = ((map_of (sc_prepares c))(gb_id b \<mapsto> b))(k := None)"
    and C: "map_of (sc_pre_commits ?c) = (map_of (sc_pre_commits c))(k \<mapsto> q)"
    by (simp_all add: update_conv' delete_conv')
  note del = map_of_eq_Some_iff map_of_eq_None_iff
  show ?thesis
  proof (rule store_invI)
    show "\<And>i p x. map_of (sc_prepares ?c) i = Some p \<Longrightarrow> map_of (sc_pre_commits ?c) i = Some x \<Longrightarrow> False"
      unfolding P C using fresh store_invD(3) [OF inv] by (auto simp: fresh_id_def simp del: del split: if_splits)
    show "\<And>h. sc_header_block ?c = Some h \<Longrightarrow> 1 \<le> block_height h \<and>
       map_of (sc_prepares ?c) (gb_id h) = None \<and> map_of (sc_pre_commits ?c) (gb_id h) = None"
      unfolding P C using fresh q(1) store_invD(5,6,7) [OF inv] by (auto simp: fresh_id_def header_id_def simp del: del)
    show "\<And>i x. map_of (sc_pre_commits ?c) i = Some x \<Longrightarrow> i = gb_id x \<and> on_header ?c x"
      unfolding C using store_invD(8,9) [OF inv] q qid by (auto simp del: del split: if_splits)
    show "i = gb_id x \<and>
       (on_header ?c x \<or>
        (block_height x = header_height ?c + 2 \<and>
         (\<exists>i p. prev_block_id x = Some i \<and> map_of (sc_pre_commits ?c) i = Some p \<and> block_round p < block_round x)))"
      if x: "map_of (sc_prepares ?c) i = Some x" for i x
    proof (cases "i = gb_id b")
      case True
      with x [unfolded P] kb have "x = b" by (simp del: del)
      with True prev b show ?thesis unfolding C by simp
    next
      case False
      with x [unfolded P] have old: "map_of (sc_prepares c) i = Some x" by (simp del: del split: if_splits)
      from inv old show ?thesis
      proof (cases rule: store_inv_prepare_cases)
        case header
        with store_invD(10) [OF inv old] show ?thesis by simp
      next
        case (pre j p)
        with store_invD(10) [OF inv old] store_invD(3) [OF inv q(1)] show ?thesis
          unfolding C by (auto simp del: del)
      qed
    qed
    show "distinct (map fst (sc_prepares ?c))" "distinct (map fst (sc_pre_commits ?c))"
      using store_invD(1,2) [OF inv] by (simp_all add: distinct_update distinct_delete)
  qed
qed


lemma commit_inv:
  assumes inv: "store_inv c" and fresh: "fresh_id c (gb_id b)" and prev: "prev_block_id b = Some k"
    and q: "map_of (sc_prepares c) k = Some q" "prev_block_id q = Some i" "block_height q = header_height c + 2"
    and r: "map_of (sc_pre_commits c) i = Some r" "block_round r < block_round q"
    and b: "block_height b = header_height c + 3" "block_round q < block_round b"
    and m: "map_of m = (map_of (AList.delete k (AList.update (gb_id b) b (sc_prepares c)))) |`
        (- set (map fst (filter (\<lambda>(j, x). prev_block_id x \<noteq> Some i \<and> j \<noteq> k) (sc_prepares c))))" "distinct (map fst m)"
    and c': "sc_prepares c' = m" "sc_pre_commits c' = [(k, q)]" "sc_header_block c' = Some r"
  shows "store_inv c'"
proof -
  note del = map_of_eq_Some_iff map_of_eq_None_iff
  have kb: "k \<noteq> gb_id b" using fresh q by (auto simp: fresh_id_def)
  have ids: "gb_id q = k" "gb_id r = i" using store_invD(10) [OF inv q(1)] store_invD(8) [OF inv r(1)] by auto
  have on_r: "on_header c r" using store_invD(9) [OF inv r(1)] .
  have ik: "i \<noteq> k" and iP: "map_of (sc_prepares c) i = None" and ib: "i \<noteq> gb_id b"
    using store_invD(4) [OF inv r(1)] q(1) fresh r(1) by (auto simp: fresh_id_def simp del: del)
  have hc: "header_height c' = header_height c + 1" "header_id c' = Some i" "header_round c' = block_round r"
    using c'(3) on_r ids by (simp_all add: header_height_def header_id_def header_round_def on_header_def)
  have hq: "on_header c' q" using q r(2) by (simp add: on_header_def hc)
  have old: "map_of (sc_prepares c) j = Some x \<and> prev_block_id x = Some i \<or> j = gb_id b \<and> x = b"
    and jk: "j \<noteq> k" if "map_of m j = Some x" for j x
  proof -
    have jx: "((map_of (sc_prepares c))(gb_id b \<mapsto> b)) j = Some x" "j \<noteq> k"
      "j \<notin> set (map fst (filter (\<lambda>(j, x). prev_block_id x \<noteq> Some i \<and> j \<noteq> k) (sc_prepares c)))"
      using that unfolding m(1) restrict_map_def by (auto simp: update_conv' delete_conv' simp del: del split: if_splits)
    show "j \<noteq> k" by (fact jx(2))
    show "map_of (sc_prepares c) j = Some x \<and> prev_block_id x = Some i \<or> j = gb_id b \<and> x = b"
    proof (cases "j = gb_id b")
      case True
      with jx(1) show ?thesis by simp
    next
      case False
      with jx(1) have P: "map_of (sc_prepares c) j = Some x" by (simp del: del)
      then have "(j, x) \<in> set (sc_prepares c)" by (rule map_of_SomeD)
      with jx(2,3) P show ?thesis by force
    qed
  qed
  show ?thesis
  proof (rule store_invI)
    show "distinct (map fst (sc_prepares c'))" "distinct (map fst (sc_pre_commits c'))"
      using m(2) c' by simp_all
    show "\<And>j p x. map_of (sc_prepares c') j = Some p \<Longrightarrow> map_of (sc_pre_commits c') j = Some x \<Longrightarrow> False"
      using jk by (simp add: c' del: del split: if_splits)
    have "map_of m i = None"
      using old [of i] iP ib by (cases "map_of m i") (auto simp del: del)
    then show "\<And>h. sc_header_block c' = Some h \<Longrightarrow> 1 \<le> block_height h \<and>
       map_of (sc_prepares c') (gb_id h) = None \<and> map_of (sc_pre_commits c') (gb_id h) = None"
      using on_r ids ik by (auto simp: c' on_header_def simp del: del)
    show "\<And>j x. map_of (sc_pre_commits c') j = Some x \<Longrightarrow> j = gb_id x \<and> on_header c' x"
      using ids hq by (simp add: c' split: if_splits)
    show "j = gb_id x \<and>
       (on_header c' x \<or>
        (block_height x = header_height c' + 2 \<and>
         (\<exists>i p. prev_block_id x = Some i \<and> map_of (sc_pre_commits c') i = Some p \<and> block_round p < block_round x)))"
      if "map_of (sc_prepares c') j = Some x" for j x
    proof -
      from that have "map_of m j = Some x" by (simp add: c')
      from old [OF this] show ?thesis
      proof
        assume "j = gb_id b \<and> x = b"
        with prev b show ?thesis by (simp add: c' hc)
      next
        assume P: "map_of (sc_prepares c) j = Some x \<and> prev_block_id x = Some i"
        with store_invD(10) [OF inv] have j: "j = gb_id x" by auto
        from inv P [THEN conjunct1] have "on_header c' x"
        proof (cases rule: store_inv_prepare_cases)
          case header
          with P store_invD(7) [OF inv] r(1) show ?thesis
            by (cases "sc_header_block c") (auto simp: on_header_def header_id_def simp del: del)
        next
          case (pre l p)
          with P r(1) show ?thesis by (simp add: on_header_def hc)
        qed
        with j show ?thesis by simp
      qed
    qed
  qed
qed

lemma update_memory_keep:
  "fresh_id c (gb_id b) \<Longrightarrow> update_memory c b no_plan = Inr (None, c\<lparr>sc_prepares := AList.update (gb_id b) b (sc_prepares c)\<rparr>)"
  by (simp add: update_memory_def no_plan_def fresh_id_def Let_def)

lemma update_memory_first:
  assumes "store_inv c" "fresh_id c (gb_id b)" "map_of (sc_prepares c) k = Some q"
  shows "update_memory c b (no_plan\<lparr>pp_pre_commit := Some (k, q)\<rparr>) =
    Inr (None, c\<lparr>sc_pre_commits := AList.update k q (sc_pre_commits c),
      sc_prepares := AList.delete k (AList.update (gb_id b) b (sc_prepares c))\<rparr>)"
  using assms store_invD(3) [OF assms(1,3)]
  by (cases "k = gb_id b") (simp_all add: update_memory_def no_plan_def fresh_id_def Let_def update_conv' del: map_of_eq_None_iff)

lemma update_memory_commit:
  assumes inv: "store_inv c" and fresh: "fresh_id c (gb_id b)" and q: "map_of (sc_prepares c) k = Some q"
    and rem: "rem = map fst (filter (\<lambda>(j, x). prev_block_id x \<noteq> Some i \<and> j \<noteq> k) (sc_prepares c))"
  obtains removed m where
    "update_memory c b \<lparr>pp_pre_commit = Some (k, q), pp_header = Some r, pp_remove = rem\<rparr> =
      (if finishable (sc_finish_proposals c) r then
       Inr (Some (r, sc_header_block c, map snd (sc_pre_commits c) @ removed),
        c\<lparr>sc_prepares := m, sc_dec_state_id := result_state_id r, sc_pre_commits := [(k, q)],
          sc_first_block := (case sc_first_block c of None \<Rightarrow> Some r | Some f \<Rightarrow> Some f),
          sc_finish_proposals := finish (sc_finish_proposals c) r, sc_header_block := Some r\<rparr>)
       else Inl Panic)"
    "map_of m = (map_of (AList.delete k (AList.update (gb_id b) b (sc_prepares c)))) |` (- set rem)"
    "distinct (map fst m)"
proof -
  let ?P = "AList.delete k (AList.update (gb_id b) b (sc_prepares c))"
  have d: "distinct rem" "distinct (map fst ?P)"
    using store_invD(1) [OF inv] by (simp_all add: rem distinct_map_filter distinct_update distinct_delete)
  have sub: "set rem \<subseteq> dom (map_of ?P)"
  proof
    fix j assume "j \<in> set rem"
    then obtain x where "(j, x) \<in> set (sc_prepares c)" "j \<noteq> k" by (auto simp: rem)
    then have "map_of (sc_prepares c) j \<noteq> None" "j \<noteq> k"
      using weak_map_of_SomeI [of j x "sc_prepares c"] by (auto simp del: map_of_eq_None_iff map_of_eq_Some_iff)
    then show "j \<in> dom (map_of ?P)" by (simp add: domIff update_conv' delete_conv' del: map_of_eq_None_iff)
  qed
  from take_blocks_ok [OF d(1) sub] d(2) obtain m where m: "take_blocks rem ?P = Inr (map (\<lambda>j. the (map_of ?P j)) rem, m)"
    "map_of m = (map_of ?P) |` (- set rem)" "distinct (map fst m)" by blast
  show ?thesis
    by (rule that [where removed = "map (\<lambda>j. the (map_of ?P j)) rem", OF _ m(2,3)])
      (use fresh m(1) in \<open>simp add: update_memory_def fresh_id_def Let_def finish_header_eq del: map_of_eq_None_iff\<close>)
qed


lemma write_push_safe: "(\<And>ops. safe (w ops)) \<Longrightarrow> safe (write_push w c b p)"
  by (auto simp: write_push_def Let_def intro!: safe_rbind split: option.split)

lemma write_push_ok: "(\<And>ops. w ops = Inr ()) \<Longrightarrow> write_push w c b p = Inr ()"
  by (simp add: write_push_def Let_def split: option.split)

lemma push_block_plan:
  "plan_push c b = Inr p \<Longrightarrow> push_block w b c =
     (case rbind (write_push w c b p) (\<lambda>_. update_memory c b p) of Inl e \<Rightarrow> (Inl e, c) | Inr (r, c') \<Rightarrow> (Inr r, c'))"
  by (simp add: push_block_def)

text \<open>A linked block changes the cache in one of three ways, or not at all when the writer fails; the push
  panics when the committed block repeats a proposal.\<close>

lemma push_block_cases:
  assumes inv: "store_inv c" and link: "block_linked c b = Inr (LinkTo p)"
  obtains (fail) e where "push_block w b c = (Inl e, c)" "(\<And>ops. safe (w ops)) \<Longrightarrow> \<exists>x. e = Err x"
      "\<exists>ops. w ops \<noteq> Inr ()"
  | (panic) h where "push_block w b c = (Inl Panic, c)" "committed_block c b = Some h" "\<not> finishable (sc_finish_proposals c) h"
  | (keep) "push_block w b c = (Inr None, c\<lparr>sc_prepares := AList.update (gb_id b) b (sc_prepares c)\<rparr>)"
      "committed_block c b = None"
      "on_header c b \<or> (block_height b = header_height c + 2 \<and>
      (\<exists>k q. prev_block_id b = Some k \<and> map_of (sc_pre_commits c) k = Some q \<and> block_round q < block_round b))"
  | (first) k q where "push_block w b c = (Inr None, c\<lparr>sc_pre_commits := AList.update k q (sc_pre_commits c),
      sc_prepares := AList.delete k (AList.update (gb_id b) b (sc_prepares c))\<rparr>)" "committed_block c b = None"
      "prev_block_id b = Some k" "map_of (sc_prepares c) k = Some q" "on_header c q"
      "block_height b = header_height c + 2" "block_round q < block_round b"
  | (commit) k q i r removed m where
      "push_block w b c = (Inr (Some (r, sc_header_block c, map snd (sc_pre_commits c) @ removed)),
        c\<lparr>sc_prepares := m, sc_dec_state_id := result_state_id r, sc_pre_commits := [(k, q)],
          sc_first_block := (case sc_first_block c of None \<Rightarrow> Some r | Some f \<Rightarrow> Some f),
          sc_finish_proposals := finish (sc_finish_proposals c) r, sc_header_block := Some r\<rparr>)" "committed_block c b = Some r"
      "map_of m = (map_of (AList.delete k (AList.update (gb_id b) b (sc_prepares c)))) |`
        (- set (map fst (filter (\<lambda>(j, x). prev_block_id x \<noteq> Some i \<and> j \<noteq> k) (sc_prepares c))))" "distinct (map fst m)"
      "finishable (sc_finish_proposals c) r"
      "prev_block_id b = Some k" "map_of (sc_prepares c) k = Some q" "prev_block_id q = Some i" "gb_id r = i"
      "map_of (sc_pre_commits c) i = Some r" "block_height b = header_height c + 3" "block_round q < block_round b"
      "block_height q = header_height c + 2" "block_round r < block_round q"
proof -
  note fresh = linked_fresh_id [OF link]
  have failed: ?thesis if "plan_push c b = Inr pl" "write_push w c b pl = Inl e" for pl e
  proof (rule fail [of e])
    show "push_block w b c = (Inl e, c)" using that by (simp add: push_block_plan)
    assume w: "\<And>ops. safe (w ops)"
    have "safe (write_push w c b pl)" using w by (rule write_push_safe)
    with that(2) show "\<exists>x. e = Err x" by (simp add: safe_Inl)
  next
    show "\<exists>ops. w ops \<noteq> Inr ()" using that(2) write_push_ok [of w c b pl] by auto
  qed
  from inv link show ?thesis
  proof (cases rule: plan_push_cases)
    case keep
    show ?thesis
    proof (cases "write_push w c b no_plan")
      case (Inl e) with keep(1) failed show ?thesis by blast
    next
      case (Inr u)
      with keep fresh that(3) show ?thesis
        by (simp add: push_block_plan update_memory_keep committed_block_def) (simp add: no_plan_def)
    qed
  next
    case (first k q)
    show ?thesis
    proof (cases "write_push w c b (no_plan\<lparr>pp_pre_commit := Some (k, q)\<rparr>)")
      case (Inl e) with first(1) failed show ?thesis by blast
    next
      case (Inr u)
      show ?thesis
        by (rule that(4) [of k q])
          (use first Inr in \<open>simp_all add: push_block_plan update_memory_first [OF inv fresh first(3)] committed_block_def\<close>,
           simp add: no_plan_def)
    qed
  next
    case (commit k q i r)
    let ?rem = "map fst (filter (\<lambda>(j, x). prev_block_id x \<noteq> Some i \<and> j \<noteq> k) (sc_prepares c))"
    have com: "committed_block c b = Some r" using commit(1) by (simp add: committed_block_def)
    from inv fresh commit(3) refl obtain removed m where mem:
      "update_memory c b \<lparr>pp_pre_commit = Some (k, q), pp_header = Some r, pp_remove = ?rem\<rparr> =
      (if finishable (sc_finish_proposals c) r then
       Inr (Some (r, sc_header_block c, map snd (sc_pre_commits c) @ removed),
        c\<lparr>sc_prepares := m, sc_dec_state_id := result_state_id r, sc_pre_commits := [(k, q)],
          sc_first_block := (case sc_first_block c of None \<Rightarrow> Some r | Some f \<Rightarrow> Some f),
          sc_finish_proposals := finish (sc_finish_proposals c) r, sc_header_block := Some r\<rparr>)
       else Inl Panic)"
      "map_of m = (map_of (AList.delete k (AList.update (gb_id b) b (sc_prepares c)))) |` (- set ?rem)"
      "distinct (map fst m)"
      by (rule update_memory_commit)
    show ?thesis
    proof (cases "write_push w c b \<lparr>pp_pre_commit = Some (k, q), pp_header = Some r, pp_remove = ?rem\<rparr>")
      case (Inl e) with commit(1) failed show ?thesis by blast
    next
      case (Inr u)
      show ?thesis
      proof (cases "finishable (sc_finish_proposals c) r")
        case True
        show ?thesis
          by (rule that(5) [where k = k and q = q and i = i and r = r and removed = removed and m = m, OF _ com mem(2,3) True commit(2-10)])
            (simp add: push_block_plan [OF commit(1)] Inr mem(1) True)
      next
        case False
        show ?thesis
          by (rule that(2) [OF _ com False]) (simp add: push_block_plan [OF commit(1)] Inr mem(1) False)
      qed
    qed
  qed
qed


lemma push_block_inv:
  assumes inv: "store_inv c" and link: "block_linked c b = Inr (LinkTo p)"
  shows "store_inv (snd (push_block w b c))"
  using inv link
proof (cases rule: push_block_cases [where w = w])
  case (fail e)
  then show ?thesis using inv by simp
next
  case (panic h)
  then show ?thesis using inv by simp
next
  case keep
  then show ?thesis using keep_inv [OF inv linked_fresh_id [OF link]] by simp
next
  case (first k q)
  then show ?thesis using first_inv [OF inv linked_fresh_id [OF link]] by simp
next
  case (commit k q i r removed m)
  show ?thesis
    unfolding commit(1) snd_conv
    by (rule commit_inv [OF inv linked_fresh_id [OF link] commit(6-8,13,10,14,11,12,3,4)]) simp_all
qed

subsection \<open>Proposals are not committed twice\<close>

definition finished :: "storage_cache \<Rightarrow> object_id set" where
  "finished c = fp_adding (sc_finish_proposals c) \<union> fp_over (sc_finish_proposals c)"

definition prop_inv :: "storage_cache \<Rightarrow> bool" where
  "prop_inv c =
     ((\<forall>k b. map_of (sc_pre_commits c) k = Some b \<or> map_of (sc_prepares c) k = Some b \<longrightarrow>
         distinct (proposal_ids b) \<and> set (proposal_ids b) \<inter> finished c = {}) \<and>
      (\<forall>k b i p. map_of (sc_prepares c) k = Some b \<longrightarrow> prev_block_id b = Some i \<longrightarrow> map_of (sc_pre_commits c) i = Some p \<longrightarrow>
         set (proposal_ids b) \<inter> set (proposal_ids p) = {}) \<and>
      (sc_header_block c = None \<longrightarrow> finished c = {}))"

text \<open>What the application check asks of a new block, and that its proposals differ.\<close>

definition unfinished :: "storage_cache \<Rightarrow> group_block \<Rightarrow> bool" where
  "unfinished c b =
     (distinct (proposal_ids b) \<and>
      (\<forall>i\<in>set (proposal_ids b). case prev_block_id b of Some k \<Rightarrow> \<not> is_proposal_finished c i k | None \<Rightarrow> True))"

lemma prop_inv_new: "prop_inv (storage_cache_new d)"
  by (simp add: prop_inv_def storage_cache_new_def finished_def)

lemma finish_finished: "fp_adding (finish fp h) \<union> fp_over (finish fp h) \<subseteq> fp_adding fp \<union> fp_over fp \<union> set (proposal_ids h)"
  by (auto simp: finish_def)

lemma finish_adds: "set (proposal_ids h) \<subseteq> fp_adding (finish fp h)"
  by (auto simp: finish_def proposal_ids_def)

lemma unfinishedD:
  assumes inv: "store_inv c" and link: "block_linked c b = Inr (LinkTo p)" and un: "unfinished c b"
    and pinv: "prop_inv c"
  shows "distinct (proposal_ids b)" "set (proposal_ids b) \<inter> finished c = {}"
    "prev_block_id b = Some k \<Longrightarrow> find_block_in_cache c k = Inr q \<Longrightarrow> set (proposal_ids b) \<inter> set (proposal_ids q) = {}"
    "prev_block_id b = Some k \<Longrightarrow> find_block_in_cache c k = Inr q \<Longrightarrow> prev_block_id q = Some i \<Longrightarrow>
       find_block_in_cache c i = Inr r \<Longrightarrow> set (proposal_ids b) \<inter> set (proposal_ids r) = {}"
proof -
  show "distinct (proposal_ids b)" using un by (simp add: unfinished_def)
  show "set (proposal_ids b) \<inter> finished c = {}"
  proof (cases "prev_block_id b")
    case None
    with block_linked_LinkTo(5) [OF link] header_height_None [OF inv] pinv show ?thesis
      by (auto simp: prop_inv_def)
  next
    case (Some k)
    with un show ?thesis by (auto simp: unfinished_def is_proposal_finished_def finished_def)
  qed
  show "prev_block_id b = Some k \<Longrightarrow> find_block_in_cache c k = Inr q \<Longrightarrow> set (proposal_ids b) \<inter> set (proposal_ids q) = {}"
    using un by (auto simp: unfinished_def is_proposal_finished_def has_proposal_def proposal_ids_def)
  show "prev_block_id b = Some k \<Longrightarrow> find_block_in_cache c k = Inr q \<Longrightarrow> prev_block_id q = Some i \<Longrightarrow>
       find_block_in_cache c i = Inr r \<Longrightarrow> set (proposal_ids b) \<inter> set (proposal_ids r) = {}"
    using un by (auto simp: unfinished_def is_proposal_finished_def has_proposal_def proposal_ids_def)
qed

lemma find_prepare: "store_inv c \<Longrightarrow> map_of (sc_prepares c) k = Some q \<Longrightarrow> find_block_in_cache c k = Inr q"
  using store_invD(6) [of c] by (auto simp: find_block_in_cache_Inr simp del: map_of_eq_None_iff map_of_eq_Some_iff split: option.splits)

lemma find_pre_commit: "store_inv c \<Longrightarrow> map_of (sc_pre_commits c) k = Some q \<Longrightarrow> find_block_in_cache c k = Inr q"
  using store_invD(4,7) [of c]
  by (auto simp: find_block_in_cache_Inr simp del: map_of_eq_None_iff map_of_eq_Some_iff split: option.splits)

lemma prop_invD:
  assumes "prop_inv c"
  shows "map_of (sc_pre_commits c) k = Some b \<Longrightarrow> distinct (proposal_ids b) \<and> set (proposal_ids b) \<inter> finished c = {}"
    "map_of (sc_prepares c) k = Some b \<Longrightarrow> distinct (proposal_ids b) \<and> set (proposal_ids b) \<inter> finished c = {}"
    "map_of (sc_prepares c) k = Some b \<Longrightarrow> prev_block_id b = Some i \<Longrightarrow> map_of (sc_pre_commits c) i = Some p \<Longrightarrow>
         set (proposal_ids b) \<inter> set (proposal_ids p) = {}"
    "sc_header_block c = None \<Longrightarrow> finished c = {}"
  using assms unfolding prop_inv_def by blast+

lemma prop_invI:
  assumes "\<And>k b. map_of (sc_pre_commits c) k = Some b \<Longrightarrow> distinct (proposal_ids b) \<and> set (proposal_ids b) \<inter> finished c = {}"
    "\<And>k b. map_of (sc_prepares c) k = Some b \<Longrightarrow> distinct (proposal_ids b) \<and> set (proposal_ids b) \<inter> finished c = {}"
    "\<And>k b i p. map_of (sc_prepares c) k = Some b \<Longrightarrow> prev_block_id b = Some i \<Longrightarrow> map_of (sc_pre_commits c) i = Some p \<Longrightarrow>
         set (proposal_ids b) \<inter> set (proposal_ids p) = {}"
    "sc_header_block c = None \<Longrightarrow> finished c = {}"
  shows "prop_inv c"
  using assms unfolding prop_inv_def by blast


lemma committed_finishable:
  assumes inv: "store_inv c" and pinv: "prop_inv c" and link: "block_linked c b = Inr (LinkTo p)"
  shows "\<forall>h. committed_block c b = Some h \<longrightarrow> finishable (sc_finish_proposals c) h"
  using inv link
proof (cases rule: plan_push_cases)
  case (commit k q i r)
  then have "committed_block c b = Some r" by (simp add: committed_block_def)
  with prop_invD(1) [OF pinv commit(6)] show ?thesis by (auto simp: finishable_def finished_def)
qed (simp_all add: committed_block_def no_plan_def)

lemma finished_update [simp]:
  "finished (c\<lparr>sc_prepares := x\<rparr>) = finished c"
  "finished (c\<lparr>sc_pre_commits := y\<rparr>) = finished c"
  by (simp_all add: finished_def)

lemma push_block_prop:
  assumes inv: "store_inv c" and pinv: "prop_inv c" and link: "block_linked c b = Inr (LinkTo p)" and un: "unfinished c b"
  shows "prop_inv (snd (push_block w b c))"
proof -
  note del = map_of_eq_Some_iff map_of_eq_None_iff
  note ub = unfinishedD [OF inv link un pinv]
  note fresh = linked_fresh_id [OF link]
  from inv link show ?thesis
  proof (cases rule: push_block_cases [where w = w])
    case (fail e)
    then show ?thesis using pinv by simp
  next
    case (panic h)
    then show ?thesis using pinv by simp
  next
    case keep
    let ?c = "c\<lparr>sc_prepares := AList.update (gb_id b) b (sc_prepares c)\<rparr>"
    have "prop_inv ?c"
    proof (rule prop_invI)
      fix k x assume "map_of (sc_pre_commits ?c) k = Some x"
      then show "distinct (proposal_ids x) \<and> set (proposal_ids x) \<inter> finished ?c = {}"
        using prop_invD(1) [OF pinv] by (simp del: del)
    next
      fix k x assume "map_of (sc_prepares ?c) k = Some x"
      then show "distinct (proposal_ids x) \<and> set (proposal_ids x) \<inter> finished ?c = {}"
        using prop_invD(2) [OF pinv] ub(1,2) by (simp add: update_conv' del: del split: if_splits)
    next
      fix k x i y
      assume "map_of (sc_prepares ?c) k = Some x" "prev_block_id x = Some i" "map_of (sc_pre_commits ?c) i = Some y"
      then show "set (proposal_ids x) \<inter> set (proposal_ids y) = {}"
        using prop_invD(3) [OF pinv] ub(3) find_pre_commit [OF inv]
        by (simp add: update_conv' del: del split: if_splits)
    qed (use prop_invD(4) [OF pinv] in simp)
    with keep show ?thesis by simp
  next
    case (first k q)
    let ?c = "c\<lparr>sc_pre_commits := AList.update k q (sc_pre_commits c),
      sc_prepares := AList.delete k (AList.update (gb_id b) b (sc_prepares c))\<rparr>"
    have P: "map_of (sc_prepares ?c) = ((map_of (sc_prepares c))(gb_id b \<mapsto> b))(k := None)"
      and C: "map_of (sc_pre_commits ?c) = (map_of (sc_pre_commits c))(k \<mapsto> q)"
      by (simp_all add: update_conv' delete_conv')
    have "prop_inv ?c"
    proof (rule prop_invI)
      fix j x assume "map_of (sc_pre_commits ?c) j = Some x"
      then show "distinct (proposal_ids x) \<and> set (proposal_ids x) \<inter> finished ?c = {}"
        using prop_invD(1) [OF pinv] prop_invD(2) [OF pinv first(4)] unfolding C by (simp del: del split: if_splits)
    next
      fix j x assume "map_of (sc_prepares ?c) j = Some x"
      then show "distinct (proposal_ids x) \<and> set (proposal_ids x) \<inter> finished ?c = {}"
        using prop_invD(2) [OF pinv] ub(1,2) unfolding P by (simp del: del split: if_splits)
    next
      fix j x i y
      assume x: "map_of (sc_prepares ?c) j = Some x" "prev_block_id x = Some i" "map_of (sc_pre_commits ?c) i = Some y"
      show "set (proposal_ids x) \<inter> set (proposal_ids y) = {}"
      proof (cases "j = gb_id b")
        case True
        with x(1) have "x = b" unfolding P by (simp del: del split: if_splits)
        with x first(3) have "y = q" unfolding C by simp
        with \<open>x = b\<close> ub(3) [OF first(3) find_prepare [OF inv first(4)]] show ?thesis by simp
      next
        case False
        with x(1) have old: "map_of (sc_prepares c) j = Some x" unfolding P by (simp del: del split: if_splits)
        with x(2) prepare_prev_not_prepare [OF inv first(4) old] have "i \<noteq> k" by auto
        with x(3) have "map_of (sc_pre_commits c) i = Some y" unfolding C by (simp del: del)
        with prop_invD(3) [OF pinv old x(2)] show ?thesis by blast
      qed
    qed (use prop_invD(4) [OF pinv] in simp)
    with first show ?thesis by simp
  next
    case (commit k q i r removed m)
    let ?c = "snd (push_block w b c)"
    have C: "map_of (sc_pre_commits ?c) = [k \<mapsto> q]" and hd: "sc_header_block ?c = Some r"
      and M: "map_of (sc_prepares ?c) = map_of m" and F: "finished ?c \<subseteq> finished c \<union> set (proposal_ids r)"
      using finish_finished [of "sc_finish_proposals c" r] by (auto simp: commit(1) finished_def)
    have fk: "find_block_in_cache c k = Inr q" "find_block_in_cache c i = Inr r"
      using find_prepare [OF inv commit(7)] find_pre_commit [OF inv commit(10)] .
    have ids: "\<And>x. set (proposal_ids x) \<inter> finished c = {} \<Longrightarrow> set (proposal_ids x) \<inter> set (proposal_ids r) = {} \<Longrightarrow>
       set (proposal_ids x) \<inter> finished ?c = {}" using F by blast
    have old: "map_of (sc_prepares c) j = Some x \<and> prev_block_id x = Some i \<or> j = gb_id b \<and> x = b"
      if "map_of m j = Some x" for j x
      using that store_invD(1) [OF inv] map_of_SomeD [of "sc_prepares c" j x] unfolding commit(3) restrict_map_def
      by (auto simp: update_conv' delete_conv' split: if_splits) (force simp: image_iff)
    have "prop_inv ?c"
    proof (rule prop_invI)
      fix j x assume "map_of (sc_pre_commits ?c) j = Some x"
      then have "x = q" by (simp add: C split: if_splits)
      with prop_invD(2) [OF pinv commit(7)] prop_invD(3) [OF pinv commit(7,8,10)] ids [of q]
      show "distinct (proposal_ids x) \<and> set (proposal_ids x) \<inter> finished ?c = {}" by blast
    next
      fix j x assume "map_of (sc_prepares ?c) j = Some x"
      then have "map_of m j = Some x" by (simp add: M)
      from old [OF this]
      show "distinct (proposal_ids x) \<and> set (proposal_ids x) \<inter> finished ?c = {}"
        using prop_invD(2) [OF pinv, of j x] prop_invD(3) [OF pinv, of j x i r] commit(10) ids
          ub(1,2) ub(4) [OF commit(6) fk(1) commit(8) fk(2)] by blast
    next
      fix j x l y
      assume x: "map_of (sc_prepares ?c) j = Some x" "prev_block_id x = Some l" "map_of (sc_pre_commits ?c) l = Some y"
      from x(3) have ly: "l = k" "y = q" by (auto simp: C split: if_splits)
      have "i \<noteq> k" using commit(7,10) store_invD(4) [OF inv commit(10)] by auto
      with x ly old [of j x] have "x = b" by (auto simp: M simp del: del)
      with ly ub(3) [OF commit(6) fk(1)] show "set (proposal_ids x) \<inter> set (proposal_ids y) = {}" by simp
    qed (simp add: hd)
    then show ?thesis .
  qed
qed


subsection \<open>The committed chain\<close>

definition committed_log :: "push_result result \<Rightarrow> group_block list" where
  "committed_log r = (case r of Inr (Some (h, _, _)) \<Rightarrow> [h] | _ \<Rightarrow> [])"

text \<open>The caches of a node in one run, from an empty store, with the blocks it has committed: it pushes
  linked blocks that satisfy \<open>P\<close>, and stores rounds and certificates. The results of the storage writer are
  arbitrary; a run ends with the first panic.\<close>

inductive store_reach :: "(storage_cache \<Rightarrow> group_block \<Rightarrow> bool) \<Rightarrow> storage_cache \<Rightarrow> group_block list \<Rightarrow> bool" for P where
  create: "store_reach P (storage_cache_new None) []"
| push: "store_reach P c H \<Longrightarrow> block_linked c b = Inr (LinkTo p) \<Longrightarrow> P c b \<Longrightarrow> push_block w b c = (r, c') \<Longrightarrow> safe r \<Longrightarrow>
    store_reach P c' (H @ committed_log r)"
| vote: "store_reach P c H \<Longrightarrow> set_last_vote_round w round c = (u, c') \<Longrightarrow> store_reach P c' H"
| qc: "store_reach P c H \<Longrightarrow> save_qc w put_qc qc c = (u, c') \<Longrightarrow> store_reach P c' H"
| tc: "store_reach P c H \<Longrightarrow> save_tc w put_qc tc shell c = (u, c') \<Longrightarrow> store_reach P c' H"

definition any_block :: "storage_cache \<Rightarrow> group_block \<Rightarrow> bool" where
  "any_block c b = True"

text \<open>The abstract state is a list of blocks that is only extended at its end.\<close>

definition chain_ok :: "group_block list \<Rightarrow> bool" where
  "chain_ok H =
     (\<forall>i < length H. block_height (H ! i) = i + 1 \<and>
        prev_block_id (H ! i) = (if i = 0 then None else Some (gb_id (H ! (i - 1)))) \<and>
        (if i = 0 then 0 else block_round (H ! (i - 1))) < block_round (H ! i))"

definition chain_rel :: "storage_cache \<Rightarrow> group_block list \<Rightarrow> bool" where
  "chain_rel c H =
     (store_inv c \<and> chain_ok H \<and>
      sc_header_block c = (if H = [] then None else Some (last H)) \<and>
      sc_first_block c = (if H = [] then None else Some (hd H)) \<and>
      sc_dec_state_id c = (if H = [] then None else result_state_id (last H)))"

lemma store_reach_mono:
  assumes "store_reach P c H" "\<And>c b. P c b \<Longrightarrow> Q c b"
  shows "store_reach Q c H"
  using assms(1) by induction (auto intro: store_reach.intros assms(2))

lemma store_reach_any: "store_reach P c H \<Longrightarrow> store_reach any_block c H"
  by (erule store_reach_mono) (simp add: any_block_def)

text \<open>What storing rounds and certificates leaves alone.\<close>

definition same_blocks :: "storage_cache \<Rightarrow> storage_cache \<Rightarrow> bool" where
  "same_blocks c c' =
     (sc_prepares c' = sc_prepares c \<and> sc_pre_commits c' = sc_pre_commits c \<and> sc_header_block c' = sc_header_block c \<and>
      sc_first_block c' = sc_first_block c \<and> sc_dec_state_id c' = sc_dec_state_id c \<and>
      sc_finish_proposals c' = sc_finish_proposals c)"

lemma same_blocks_saves:
  "set_last_vote_round w round c = (u, c') \<Longrightarrow> same_blocks c c'"
  "save_qc w put_qc qc c = (u, c') \<Longrightarrow> same_blocks c c'"
  "save_tc w put_qc tc shell c = (u, c') \<Longrightarrow> same_blocks c c'"
  by (auto simp: same_blocks_def set_last_vote_round_def save_qc_def save_tc_def Let_def split: if_splits sum.splits)

lemma same_blocks_inv:
  assumes "same_blocks c c'"
  shows "store_inv c' = store_inv c" "prop_inv c' = prop_inv c" "chain_rel c' H = chain_rel c H"
proof -
  show inv: "store_inv c' = store_inv c" "prop_inv c' = prop_inv c"
    using assms by (simp_all add: same_blocks_def store_inv_def prop_inv_def on_header_def header_height_def header_round_def
      header_id_def finished_def)
  with assms show "chain_rel c' H = chain_rel c H" by (simp add: chain_rel_def same_blocks_def)
qed

lemma chain_ok_snoc:
  assumes "chain_ok H" "block_height h = length H + 1"
    "prev_block_id h = (if H = [] then None else Some (gb_id (last H)))"
    "(if H = [] then 0 else block_round (last H)) < block_round h"
  shows "chain_ok (H @ [h])"
  using assms by (auto simp: chain_ok_def nth_append less_Suc_eq last_conv_nth)

lemma chain_ok_last: "chain_ok H \<Longrightarrow> H \<noteq> [] \<Longrightarrow> block_height (last H) = length H"
  by (simp add: chain_ok_def last_conv_nth)

lemma push_chain_rel:
  assumes rel: "chain_rel c H" and link: "block_linked c b = Inr (LinkTo p)"
  shows "chain_rel (snd (push_block w b c)) (H @ committed_log (fst (push_block w b c)))"
proof -
  have inv: "store_inv c" using rel by (auto simp: chain_rel_def)
  have inv': "store_inv (snd (push_block w b c))" using push_block_inv [OF inv link] .
  from inv link show ?thesis
  proof (cases rule: push_block_cases [where w = w])
    case (commit k q i r removed m)
    have "on_header c r" using store_invD(9) [OF inv commit(10)] .
    then have r: "block_height r = length H + 1" "prev_block_id r = (if H = [] then None else Some (gb_id (last H)))"
      "(if H = [] then 0 else block_round (last H)) < block_round r"
      using rel chain_ok_last [of H]
      by (auto simp: on_header_def chain_rel_def header_height_def header_id_def header_round_def split: if_splits)
    have "chain_ok (H @ [r])" using rel r by (intro chain_ok_snoc) (simp_all add: chain_rel_def)
    with inv' rel show ?thesis
      by (simp add: commit(1) committed_log_def chain_rel_def)
  qed (use rel inv' in \<open>simp_all add: chain_rel_def committed_log_def\<close>)
qed

lemma reach_chain_rel: "store_reach P c H \<Longrightarrow> chain_rel c H"
proof (induction rule: store_reach.induct)
  case create
  then show ?case
    by (simp add: chain_rel_def store_inv_new chain_ok_def) (simp add: storage_cache_new_def)
next
  case (push c H b p w r c')
  with push_chain_rel [of c H b p w] show ?case by simp
qed (simp_all add: same_blocks_inv(3) [OF same_blocks_saves(1)] same_blocks_inv(3) [OF same_blocks_saves(2)]
    same_blocks_inv(3) [OF same_blocks_saves(3)])

lemma reach_inv: "store_reach P c H \<Longrightarrow> store_inv c"
  using reach_chain_rel [of P c H] by (simp add: chain_rel_def)

lemma reach_prop_inv: "store_reach unfinished c H \<Longrightarrow> prop_inv c"
proof (induction rule: store_reach.induct)
  case (push c H b p w r c')
  with push_block_prop [OF reach_inv [OF push(1)], of b p w] show ?case by simp
qed (simp_all add: prop_inv_new same_blocks_inv(2) [OF same_blocks_saves(1)] same_blocks_inv(2) [OF same_blocks_saves(2)]
    same_blocks_inv(2) [OF same_blocks_saves(3)])

text \<open>Pushing the sample blocks one after the other.\<close>

definition sample_push :: "group_block \<Rightarrow> storage_cache \<Rightarrow> storage_cache" where
  "sample_push b c = snd (push_block (\<lambda>_. Inr ()) b c)"

definition sample_store :: "nat \<Rightarrow> storage_cache" where
  "sample_store n = fold sample_push (map sample_block [1..<Suc n]) (storage_cache_new None)"

lemmas store_eval = sample_block_def sample_push_def sample_store_def storage_cache_new_def upt_rec push_block_def plan_push_def
  write_push_def update_memory_def block_ops_def rem_prepares_def finish_header_def flips_def wrapping_sub_def proposal_ids_def
  PROPOSAL_MAX_TIMEOUT_AS_MICRO_SEC_def block_linked_def unfinished_def committed_block_def is_proposal_finished_def
  find_block_in_cache_def ok_or_not_found_def option_or_def has_proposal_def header_height_def header_round_def
  qc_round_of_def block_defs Let_def committed_log_def

lemma sample_links:
  "block_linked (sample_store 0) (sample_block 1) = Inr (LinkTo None)" "unfinished (sample_store 0) (sample_block 1)"
  "block_linked (sample_store 1) (sample_block 2) = Inr (LinkTo (Some (sample_block 1)))" "unfinished (sample_store 1) (sample_block 2)"
  "block_linked (sample_store 2) (sample_block 3) = Inr (LinkTo (Some (sample_block 2)))" "unfinished (sample_store 2) (sample_block 3)"
  "block_linked (sample_store 3) (sample_block 4) = Inr (LinkTo (Some (sample_block 3)))" "unfinished (sample_store 3) (sample_block 4)"
  "block_linked (sample_store 4) (sample_block 5) = Inr (LinkTo (Some (sample_block 4)))" "unfinished (sample_store 4) (sample_block 5)"
  "block_linked (sample_store 5) (sample_block 6) = Inr (LinkTo (Some (sample_block 5)))" "unfinished (sample_store 5) (sample_block 6)"
  by (simp_all add: store_eval)

lemma sample_logs:
  "fst (push_block (\<lambda>_. Inr ()) (sample_block 1) (sample_store 0)) = Inr None"
  "fst (push_block (\<lambda>_. Inr ()) (sample_block 2) (sample_store 1)) = Inr None"
  "\<exists>x. fst (push_block (\<lambda>_. Inr ()) (sample_block 3) (sample_store 2)) = Inr (Some (sample_block 1, x))"
  "\<exists>x. fst (push_block (\<lambda>_. Inr ()) (sample_block 4) (sample_store 3)) = Inr (Some (sample_block 2, x))"
  "\<exists>x. fst (push_block (\<lambda>_. Inr ()) (sample_block 5) (sample_store 4)) = Inr (Some (sample_block 3, x))"
  "\<exists>x. fst (push_block (\<lambda>_. Inr ()) (sample_block 6) (sample_store 5)) = Inr (Some (sample_block 4, x))"
  by (simp_all add: store_eval)

lemma sample_step:
  assumes "store_reach unfinished (sample_store n) H" "block_linked (sample_store n) (sample_block (Suc n)) = Inr (LinkTo p)"
    "unfinished (sample_store n) (sample_block (Suc n))"
    "fst (push_block (\<lambda>_. Inr ()) (sample_block (Suc n)) (sample_store n)) = Inr r"
  shows "store_reach unfinished (sample_store (Suc n)) (H @ committed_log (Inr r))"
  using store_reach.push [OF assms(1-3) prod.collapse [symmetric], where w = "\<lambda>_. Inr ()"] assms(4)
  by (simp add: sample_store_def sample_push_def)

lemma sample_commit:
  assumes "store_reach unfinished (sample_store n) H" "block_linked (sample_store n) (sample_block (Suc n)) = Inr (LinkTo p)"
    "unfinished (sample_store n) (sample_block (Suc n))"
    "\<exists>x. fst (push_block (\<lambda>_. Inr ()) (sample_block (Suc n)) (sample_store n)) = Inr (Some (h, x))"
  shows "store_reach unfinished (sample_store (Suc n)) (H @ [h])"
proof -
  from assms(4) obtain x where "fst (push_block (\<lambda>_. Inr ()) (sample_block (Suc n)) (sample_store n)) = Inr (Some (h, x))" by blast
  from sample_step [OF assms(1-3) this] show ?thesis by (cases x) (simp add: committed_log_def)
qed

lemma sample_reach:
  "store_reach unfinished (sample_store 2) []"
  "store_reach unfinished (sample_store 3) [sample_block 1]"
  "store_reach unfinished (sample_store 4) [sample_block 1, sample_block 2]"
  "store_reach unfinished (sample_store 6) [sample_block 1, sample_block 2, sample_block 3, sample_block 4]"
proof -
  have sucs: "Suc 0 = 1" "Suc 1 = 2" "Suc 2 = 3" "Suc 3 = 4" "Suc 4 = 5" "Suc 5 = 6" by simp_all
  have r0: "store_reach unfinished (sample_store 0) []"
    using store_reach.create by (simp add: sample_store_def)
  have r1: "store_reach unfinished (sample_store 1) []"
    using sample_step [OF r0, unfolded sucs, OF sample_links(1,2) sample_logs(1)] by (simp add: committed_log_def)
  show r2: "store_reach unfinished (sample_store 2) []"
    using sample_step [OF r1, unfolded sucs, OF sample_links(3,4) sample_logs(2)] by (simp add: committed_log_def)
  show r3: "store_reach unfinished (sample_store 3) [sample_block 1]"
    using sample_commit [OF r2, unfolded sucs, OF sample_links(5,6) sample_logs(3)] by simp
  show r4: "store_reach unfinished (sample_store 4) [sample_block 1, sample_block 2]"
    using sample_commit [OF r3, unfolded sucs, OF sample_links(7,8) sample_logs(4)] by simp
  have r5: "store_reach unfinished (sample_store 5) [sample_block 1, sample_block 2, sample_block 3]"
    using sample_commit [OF r4, unfolded sucs, OF sample_links(9,10) sample_logs(5)] by simp
  show "store_reach unfinished (sample_store 6) [sample_block 1, sample_block 2, sample_block 3, sample_block 4]"
    using sample_commit [OF r5, unfolded sucs, OF sample_links(11,12) sample_logs(6)] by simp
qed

text \<open>C3: whatever linked blocks a node pushes in a run from an empty store, whatever the storage writer
  answers, the cache refines a chain as long as no push panics: the committed blocks form a list that is
  only extended at its end, in which every block names the one before it, has the next height and a later
  round; the header is its last block, the first block its first, and the current state of the
  application the result state of the last block. \<^verbatim>\<open>handle_block\<close> pushes linked blocks only; a block that the
  node made itself is pushed without the check, and is covered when it is still linked.\<close>

theorem store_refines_chain:
  assumes "store_reach any_block c H"
  shows "chain_rel c H"
  using assms by (rule reach_chain_rel)

theorem store_refines_chain_witness:
  "store_reach any_block (sample_store 4) [sample_block 1, sample_block 2] \<and> chain_rel (sample_store 4) [sample_block 1, sample_block 2]"
  using store_refines_chain [OF store_reach_any [OF sample_reach(3)]] store_reach_any [OF sample_reach(3)] by blast

text \<open>C12: when a push of a linked block panics. On every such cache, with a writer that does not fail, it
  panics if and only if the block that it commits contains a proposal twice, or one that is in the set
  of the current period while no new period begins. None of the assertions on heights and maps fails.\<close>

theorem push_block_panics_iff:
  assumes "store_reach any_block c H" "block_linked c b = Inr (LinkTo p)" "\<And>ops. w ops = Inr ()"
  shows "(\<exists>r. fst (push_block w b c) = Inr r) \<noteq> (fst (push_block w b c) = Inl Panic) \<and>
    (fst (push_block w b c) = Inl Panic \<longleftrightarrow>
      (\<exists>h. committed_block c b = Some h \<and>
        (\<not> distinct (proposal_ids h) \<or>
         \<not> flips (sc_finish_proposals c) h \<and> set (proposal_ids h) \<inter> fp_adding (sc_finish_proposals c) \<noteq> {})))"
  using reach_inv [OF assms(1)] assms(2)
  by (cases rule: push_block_cases [where w = w]) (use assms(3) in \<open>auto simp: finishable_def\<close>)

theorem push_block_panics_iff_witness:
  "\<exists>r. fst (push_block (\<lambda>_. Inr ()) (sample_block 5) (sample_store 4)) = Inr r"
  using push_block_panics_iff [OF store_reach_any [OF sample_reach(3)] sample_links(9), of "\<lambda>_. Inr ()"]
  by (simp add: store_eval)

text \<open>C25: no push panics in a run in which every pushed block has different proposals of which none is
  finished, if the writer does not: the second half is the check of \<^verbatim>\<open>handle_block\<close>, the first is checked
  nowhere. The proposals of a block that is committed were not committed in the two periods that are
  remembered, and are remembered then.\<close>

theorem push_block_never_panics:
  assumes "store_reach unfinished c H" "block_linked c b = Inr (LinkTo p)" "\<And>ops. safe (w ops)"
  shows "safe (fst (push_block w b c)) \<and>
    (\<forall>h\<in>set (committed_log (fst (push_block w b c))).
       distinct (proposal_ids h) \<and> set (proposal_ids h) \<inter> finished c = {} \<and>
       set (proposal_ids h) \<subseteq> fp_adding (sc_finish_proposals (snd (push_block w b c))))"
proof -
  note inv = reach_inv [OF assms(1)] reach_prop_inv [OF assms(1)]
  from inv(1) assms(2) show ?thesis
  proof (cases rule: push_block_cases [where w = w])
    case (panic h)
    with committed_finishable [OF inv assms(2)] show ?thesis by blast
  next
    case (commit k q i r removed m)
    with prop_invD(1) [OF inv(2) commit(10)] finish_adds show ?thesis
      by (simp add: committed_log_def)
  qed (use assms(3) in \<open>auto simp: committed_log_def\<close>)
qed

theorem push_block_never_panics_witness:
  "safe (fst (push_block (\<lambda>_. Inr ()) (sample_block 4) (sample_store 3))) \<and>
   sc_header_block (sample_store 4) = Some (sample_block 2)"
proof -
  have "sc_header_block (sample_store 4) = Some (sample_block 2)" by (simp add: store_eval)
  with push_block_never_panics [OF sample_reach(2) sample_links(7), of "\<lambda>_. Inr ()"] show ?thesis by simp
qed

text \<open>C38: a committed block with proposals whose time lies before the start of the current period starts a
  new period at once, since the difference of the two times is taken unsigned and wraps: the current
  set becomes the last one, the last one is forgotten, and the start of the period moves back. A
  proposal that was finished in the forgotten set counts as new again. Nothing on the way compares
  these times, only the times of a block and its predecessor, which may run backwards by a minute.\<close>

theorem push_block_earlier_time_forgets:
  assumes "store_reach any_block c H" "block_linked c b = Inr (LinkTo p)" "\<And>ops. w ops = Inr ()"
    "committed_block c b = Some h" "block_proposals h \<noteq> []" "distinct (proposal_ids h)"
    "block_time h < fp_flip_timestamp (sc_finish_proposals c)"
    "fp_flip_timestamp (sc_finish_proposals c) < 2 ^ 64 - PROPOSAL_MAX_TIMEOUT_AS_MICRO_SEC"
  shows "\<exists>r. push_block w b c = (Inr (Some (h, r)), snd (push_block w b c)) \<and>
    sc_finish_proposals (snd (push_block w b c)) =
      \<lparr>fp_flip_timestamp = block_time h, fp_over = fp_adding (sc_finish_proposals c), fp_adding = set (proposal_ids h)\<rparr> \<and>
    finished (snd (push_block w b c)) = fp_adding (sc_finish_proposals c) \<union> set (proposal_ids h)"
proof -
  have flip: "flips (sc_finish_proposals c) h"
    using assms(7,8) by (simp add: flips_def wrapping_sub_def PROPOSAL_MAX_TIMEOUT_AS_MICRO_SEC_def)
  with assms(5) have fin: "finish (sc_finish_proposals c) h =
      \<lparr>fp_flip_timestamp = block_time h, fp_over = fp_adding (sc_finish_proposals c), fp_adding = set (proposal_ids h)\<rparr>"
    by (simp add: finish_def)
  from reach_inv [OF assms(1)] assms(2) show ?thesis
  proof (cases rule: push_block_cases [where w = w])
    case (commit k q i r removed m)
    with assms(4) have "r = h" by simp
    with commit(1) fin show ?thesis by (auto simp: finished_def)
  qed (use assms(3,4,6) flip in \<open>auto simp: finishable_def\<close>)
qed

theorem push_block_earlier_time_forgets_witness:
  "101 \<in> finished (sample_store 4) \<and> 101 \<notin> finished (snd (push_block (\<lambda>_. Inr ()) (sample_block 5) (sample_store 4)))"
proof -
  have c: "committed_block (sample_store 4) (sample_block 5) = Some (sample_block 3)"
    "sc_finish_proposals (sample_store 4) = \<lparr>fp_flip_timestamp = 3999999998, fp_over = {101}, fp_adding = {102}\<rparr>"
    by (simp_all add: store_eval)
  have "finished (snd (push_block (\<lambda>_. Inr ()) (sample_block 5) (sample_store 4))) =
      fp_adding (sc_finish_proposals (sample_store 4)) \<union> set (proposal_ids (sample_block 3))"
    using push_block_earlier_time_forgets [OF store_reach_any [OF sample_reach(3)] sample_links(9) _ c(1), of "\<lambda>_. Inr ()"]
    by (auto simp: c(2) sample_block_def proposal_ids_def block_defs PROPOSAL_MAX_TIMEOUT_AS_MICRO_SEC_def)
  then show ?thesis by (simp add: finished_def c(2) sample_block_def proposal_ids_def block_defs)
qed

subsection \<open>The certificate of the state\<close>

lemma push_pre_commits:
  assumes "store_inv c" "block_linked c b = Inr (LinkTo p)"
    "sc_pre_commits c \<noteq> [] \<or> committed_log (fst (push_block w b c)) \<noteq> []"
  shows "sc_pre_commits (snd (push_block w b c)) \<noteq> []"
  using assms(1,2)
  by (cases rule: push_block_cases [where w = w]) (use assms(3) in \<open>auto simp: committed_log_def update_Some_unfold\<close>)

lemma reach_pre_commits: "store_reach P c H \<Longrightarrow> H \<noteq> [] \<longrightarrow> sc_pre_commits c \<noteq> []"
proof (induction rule: store_reach.induct)
  case (push c H b p w r c')
  with push_pre_commits [OF reach_inv [OF push(1)] push(2), of w] show ?case by auto
qed (auto simp: set_last_vote_round_def save_qc_def save_tc_def Let_def split: if_splits sum.splits)

text \<open>C40: once a block is committed, the certificate that answers a query of the state is never missing and
  certifies the last committed block: the pre-committed block that carries it is a child of the header.\<close>

theorem state_certificate_of_header:
  assumes "store_reach any_block c H" "H \<noteq> []"
  shows "\<exists>qc. state_certificate c = Inr (gb_desc (last H), qc) \<and> qc_block_id qc = gb_id (last H)"
proof -
  have hd: "sc_header_block c = Some (last H)"
    using reach_chain_rel [OF assms(1)] assms(2) by (simp add: chain_rel_def)
  from reach_pre_commits [OF assms(1)] assms(2) obtain k q rest where pre: "sc_pre_commits c = (k, q) # rest"
    by (auto simp: neq_Nil_conv)
  then have "prev_block_id q = Some (gb_id (last H))"
    using store_invD(9) [OF reach_inv [OF assms(1)], of k q] hd by (simp add: on_header_def header_id_def)
  then obtain qc where "block_qc_of q = Some qc" "qc_block_id qc = gb_id (last H)" by (auto simp: prev_block_id_def)
  with hd pre \<open>prev_block_id q = _\<close> show ?thesis by (simp add: state_certificate_def)
qed

theorem state_certificate_of_header_witness:
  "\<exists>qc. state_certificate (sample_store 3) = Inr (gb_desc (sample_block 1), qc) \<and> qc_block_id qc = 1"
  using state_certificate_of_header [OF store_reach_any [OF sample_reach(2)]] by (simp add: sample_block_def)

subsection \<open>Searching by round\<close>

text \<open>The index of the storage engine and the object store together answer with the committed blocks.\<close>

definition indexed :: "(nat \<Rightarrow> object_id result) \<Rightarrow> (object_id \<Rightarrow> group_block result) \<Rightarrow> group_block list \<Rightarrow> bool" where
  "indexed find_height get_block H =
     ((\<forall>i < length H. find_height (i + 1) = Inr (gb_id (H ! i)) \<and> get_block (gb_id (H ! i)) = Inr (H ! i)) \<and>
      (\<exists>e. find_height 0 = Inl e))"

lemma chain_ok_rounds:
  assumes "chain_ok H" "i < j" "j < length H"
  shows "block_round (H ! i) < block_round (H ! j)"
  using assms(2,3)
proof (induction j)
  case (Suc j)
  have "block_round (H ! j) < block_round (H ! Suc j)"
    using assms(1) Suc.prems(2) by (auto simp: chain_ok_def dest!: spec [of _ "Suc j"])
  with Suc show ?case by (cases "i = j") auto
qed simp

lemma chain_ok_round_height: "chain_ok H \<Longrightarrow> i < length H \<Longrightarrow> i + 1 \<le> block_round (H ! i)"
proof (induction i)
  case 0
  then show ?case by (auto simp: chain_ok_def)
next
  case (Suc i)
  with chain_ok_rounds [of H i "Suc i"] show ?case by simp
qed

lemma find_value_Some: "find_value P m = Some b \<Longrightarrow> \<exists>k. (k, b) \<in> set m \<and> P b"
  unfolding find_value_def find_Some_iff by (auto simp: find_Some_iff) (metis nth_mem)

lemma get_block_by_height_committed:
  assumes "chain_rel c H" "indexed find_height get_block H" "1 \<le> h" "h \<le> length H"
  shows "get_block_by_height find_height get_block c h = Inr (H ! (h - 1))"
proof -
  from assms(3,4) have "H \<noteq> []" by auto
  with assms(1) have c: "sc_header_block c = Some (last H)" "sc_first_block c = Some (hd H)" "chain_ok H"
    by (auto simp: chain_rel_def)
  have hh: "header_height c = length H" "block_height (hd H) = 1"
    using c \<open>H \<noteq> []\<close> chain_ok_last [of H] by (auto simp: header_height_def chain_ok_def hd_conv_nth)
  from assms(2,3,4) have "find_height h = Inr (gb_id (H ! (h - 1)))" "get_block (gb_id (H ! (h - 1))) = Inr (H ! (h - 1))"
    by (auto simp: indexed_def dest!: spec [of _ "h - 1"])
  with assms(3,4) c hh \<open>H \<noteq> []\<close> show ?thesis
    by (auto simp: get_block_by_height_def Let_def ok_or_not_found_def hd_conv_nth last_conv_nth)
qed

lemma get_block_by_height_other:
  assumes "chain_rel c H" "H \<noteq> []" "indexed find_height get_block H" "h = 0 \<or> length H < h"
    "get_block_by_height find_height get_block c h = Inr b"
  shows "block_round (last H) < block_round b"
proof -
  from assms(1,2) have c: "sc_header_block c = Some (last H)" "sc_first_block c = Some (hd H)" "chain_ok H" "store_inv c"
    by (auto simp: chain_rel_def)
  have hh: "header_height c = length H" "block_height (hd H) = 1" "header_round c = block_round (last H)"
    using c \<open>H \<noteq> []\<close> chain_ok_last [of H] by (auto simp: header_height_def header_round_def chain_ok_def hd_conv_nth)
  from assms(4) show ?thesis
  proof
    assume "h = 0"
    with assms(2,3,5) c hh show ?thesis by (auto simp: get_block_by_height_def Let_def indexed_def)
  next
    assume "length H < h"
    with assms(5) hh obtain k where "(k, b) \<in> set (sc_pre_commits c) \<or> (k, b) \<in> set (sc_prepares c)"
      by (auto simp: get_block_by_height_def Let_def ok_or_not_found_def option_or_def dest!: find_value_Some
          split: if_splits option.splits)
    with store_invD(1,2) [OF c(4)] have "map_of (sc_pre_commits c) k = Some b \<or> map_of (sc_prepares c) k = Some b" by auto
    moreover have "header_round c < block_round b" if "map_of (sc_pre_commits c) k = Some b" for k b
      using store_invD(9) [OF c(4) that] by (simp add: on_header_def)
    moreover have "header_round c < block_round b" if "map_of (sc_prepares c) k = Some b"
      using c(4) that
    proof (cases rule: store_inv_prepare_cases)
      case (pre i p)
      with store_invD(9) [OF c(4) pre(3)] show ?thesis by (simp add: on_header_def)
    qed (simp add: on_header_def)
    ultimately show ?thesis using hh by auto
  qed
qed

text \<open>Between a lower and an upper bound that have not crossed, the interpolated height lies between them even
  when the product wraps.\<close>

lemma search_height_bounds:
  assumes "search_height r min_h min_r top_h max_r = Inr h" "min_r \<le> r" "r \<le> max_r" "min_h \<le> top_h" "top_h < 2 ^ 64"
  shows "min_h \<le> h" "h \<le> top_h"
proof -
  let ?a = "r - min_r" and ?d = "top_h - min_h" and ?e = "max_r - min_r"
  have "wrap64 (?a * ?d) div ?e \<le> ?a * ?d div ?e"
    unfolding wrap64_def by (rule div_le_mono) (rule mod_less_eq_dividend)
  also have "\<dots> \<le> ?e * ?d div ?e" using assms(3) by (intro div_le_mono mult_le_mono1) simp
  also have "\<dots> \<le> ?d" by simp
  finally have q: "min_h + wrap64 (?a * ?d) div ?e \<le> top_h" using assms(4) by linarith
  have h: "h = wrap64 (min_h + wrap64 (?a * ?d) div ?e)"
    using assms by (simp add: search_height_def Let_def wrapping_sub_def split: if_splits)
  with q assms(5) have "h = min_h + wrap64 (?a * ?d) div ?e" by (simp add: wrap64_def [of "min_h + _"])
  with q show "min_h \<le> h" "h \<le> top_h" by simp_all
qed

text \<open>The outcome of a search for round \<open>r\<close> in the committed blocks: the block of this round, an error if there is
  none, or the panic of a division by zero.\<close>

definition search_found :: "nat \<Rightarrow> group_block list \<Rightarrow> (group_block result \<times> group_block list) option \<Rightarrow> bool" where
  "search_found r H x =
     (\<exists>res bs. x = Some (res, bs) \<and>
        (res = Inl Panic \<or>
         (\<forall>b\<in>set H. block_round b = r \<longrightarrow> res = Inr b) \<and>
         ((\<forall>b\<in>set H. block_round b \<noteq> r) \<longrightarrow> (\<exists>e. res = Inl e))))"

definition round_search :: "(nat \<Rightarrow> group_block result) \<Rightarrow> group_block list \<Rightarrow> nat \<Rightarrow> bool" where
  "round_search get H r =
     (chain_ok H \<and> H \<noteq> [] \<and> r \<le> block_round (last H) \<and> block_round (last H) < 2 ^ 64 \<and>
      (\<forall>h. 1 \<le> h \<and> h \<le> length H \<longrightarrow> get h = Inr (H ! (h - 1))) \<and>
      (\<forall>h b. (h = 0 \<or> length H < h) \<and> get h = Inr b \<longrightarrow> block_round (last H) < block_round b))"

lemma round_searchD:
  assumes "round_search get H r"
  shows "chain_ok H" "H \<noteq> []" "r \<le> block_round (last H)" "block_round (last H) < 2 ^ 64"
    "1 \<le> h \<Longrightarrow> h \<le> length H \<Longrightarrow> get h = Inr (H ! (h - 1))"
    "h = 0 \<or> length H < h \<Longrightarrow> get h = Inr b \<Longrightarrow> block_round (last H) < block_round b"
  using assms unfolding round_search_def by blast+

lemma round_search_length:
  assumes S: "round_search get H r"
  shows "length H < 2 ^ 64"
proof -
  have "length H \<le> block_round (last H)"
    using chain_ok_round_height [OF round_searchD(1) [OF S], of "length H - 1"] round_searchD(2) [OF S] by (simp add: last_conv_nth)
  with round_searchD(4) [OF S] show ?thesis by linarith
qed

text \<open>The bounds of the loop: they may cross, but a block of the round lies between them.\<close>

definition within :: "group_block list \<Rightarrow> nat \<Rightarrow> nat \<Rightarrow> nat \<Rightarrow> nat \<Rightarrow> nat \<Rightarrow> bool" where
  "within H r n m t x =
     (1 \<le> n \<and> n \<le> t + 1 \<and> t \<le> length H \<and> m \<le> r \<and> r \<le> x \<and>
      (\<forall>i < length H. block_round (H ! i) = r \<longrightarrow> n \<le> i + 1 \<and> i + 1 \<le> t))"

lemma chain_ok_round_inj:
  "chain_ok H \<Longrightarrow> i < length H \<Longrightarrow> j < length H \<Longrightarrow> block_round (H ! i) = block_round (H ! j) \<Longrightarrow> i = j"
  using chain_ok_rounds [of H i j] chain_ok_rounds [of H j i] by (cases i j rule: linorder_cases) auto

lemma found_block:
  assumes "chain_ok H" "i < length H" "block_round (H ! i) = r"
  shows "search_found r H (Some (Inr (H ! i), bs))"
proof -
  have only: "b = H ! i" if "b \<in> set H" "block_round b = r" for b
  proof -
    from that(1) obtain j where j: "j < length H" "b = H ! j" by (auto simp: in_set_conv_nth)
    then have "j = i" using that(2) assms(3) by (intro chain_ok_round_inj [OF assms(1) j(1) assms(2)]) simp
    with j show ?thesis by simp
  qed
  have "H ! i \<in> set H" using assms(2) by simp
  with assms(3) have "\<not> (\<forall>b\<in>set H. block_round b \<noteq> r)" by (intro notI) (drule (1) bspec, simp)
  with only show ?thesis unfolding search_found_def by simp
qed

lemma found_none:
  assumes "\<forall>i < length H. block_round (H ! i) \<noteq> r"
  shows "search_found r H (Some (Inl e, bs))"
proof -
  have "block_round b \<noteq> r" if "b \<in> set H" for b
    using that assms by (fastforce simp: in_set_conv_nth simp del: One_nat_def)
  then show ?thesis unfolding search_found_def by simp
qed

lemma get_round_target:
  assumes S: "round_search get H r" and b: "get h = Inr b" "block_round b = r"
  shows "\<exists>i < length H. b = H ! i"
proof (cases "1 \<le> h \<and> h \<le> length H")
  case True
  with round_searchD(5) [OF S, of h] b(1) show ?thesis by (intro exI [of _ "h - 1"]) auto
next
  case False
  with round_searchD(6) [OF S _ b(1)] round_searchD(3) [OF S] b(2) show ?thesis by auto
qed

text \<open>The end of the loop.\<close>

lemma search_end:
  assumes S: "round_search get H r" and "\<not> n < t" and h: "get h = Inr b"
    and only: "\<forall>i < length H. block_round (H ! i) = r \<longrightarrow> b = H ! i"
  shows "search_found r H (search_round get r b n m t x bs)"
proof (cases "block_round b = r")
  case True
  with get_round_target [OF S h] obtain i where "i < length H" "b = H ! i" by blast
  with True assms(2) found_block [OF round_searchD(1) [OF S]] show ?thesis by (subst search_round.simps) simp
next
  case False
  with only have "\<forall>i < length H. block_round (H ! i) \<noteq> r" by auto
  with False assms(2) show ?thesis by (subst search_round.simps) (simp add: found_none)
qed

text \<open>One step of the loop: the new height, the block there, and the rest of the search.\<close>

lemma search_step:
  assumes S: "round_search get H r" and I: "within H r n m t x"
    and rest: "\<And>k. n \<le> k \<Longrightarrow> k \<le> t \<Longrightarrow> search_found r H (search_round get r (H ! (k - 1)) n m t x bs)"
  shows "search_found r H (case rbind (search_height r n m t x) get of
      Inl e \<Rightarrow> Some (Inl e, bs) | Inr b' \<Rightarrow> search_round get r b' n m t x bs)"
proof (cases "search_height r n m t x")
  case (Inl e)
  then have "e = Panic" by (simp add: search_height_def Let_def split: if_splits)
  with Inl show ?thesis by (simp add: search_found_def)
next
  case (Inr h)
  show ?thesis
  proof (cases "n \<le> t")
    case True
    from I round_search_length [OF S] have "m \<le> r" "r \<le> x" "t < 2 ^ 64" by (auto simp: within_def)
    with search_height_bounds [OF Inr _ _ True] have h: "n \<le> h" "h \<le> t" by blast+
    with I have "get h = Inr (H ! (h - 1))" by (intro round_searchD(5) [OF S]) (auto simp: within_def)
    with Inr rest [OF h] show ?thesis by simp
  next
    case False
    have none: "\<forall>i < length H. block_round (H ! i) \<noteq> r"
    proof (intro allI impI notI)
      fix i assume "i < length H" "block_round (H ! i) = r"
      with I have "n \<le> i + 1" "i + 1 \<le> t" unfolding within_def by blast+
      with False show False by simp
    qed
    show ?thesis
    proof (cases "get h")
      case (Inl e)
      with Inr found_none [OF none] show ?thesis by simp
    next
      case b': (Inr b')
      have "search_found r H (search_round get r b' n m t x bs)"
        by (rule search_end [OF S _ b']) (use False none in auto)
      with Inr b' show ?thesis by simp
    qed
  qed
qed

lemma search_round_lower:
  assumes "n < t" "block_round b < r" "wrap64 (block_height b + 1) = n'" "wrap64 (block_round b + 1) = m'"
  shows "search_round get r b n m t x bs =
    (case rbind (search_height r n' m' t x) get of
       Inl e \<Rightarrow> Some (Inl e, bs @ [b]) | Inr b' \<Rightarrow> search_round get r b' n' m' t x (bs @ [b]))"
  using assms(1,2) unfolding assms(3,4) [symmetric] by (subst search_round.simps) (simp split: sum.split)

lemma search_round_upper:
  assumes "n < t" "r < block_round b" "wrapping_sub (block_height b) 1 = t'" "wrapping_sub (block_round b) 1 = x'"
  shows "search_round get r b n m t x bs =
    (case rbind (search_height r n m t' x') get of
       Inl e \<Rightarrow> Some (Inl e, bs @ [b]) | Inr b' \<Rightarrow> search_round get r b' n m t' x' (bs @ [b]))"
  using assms(1,2) unfolding assms(3,4) [symmetric] by (subst search_round.simps) (simp split: sum.split)

lemma search_found_within:
  assumes S: "round_search get H r" and "within H r n m t x" "n \<le> k" "k \<le> t"
  shows "search_found r H (search_round get r (H ! (k - 1)) n m t x bs)"
  using assms(2-)
proof (induction "t + 1 - n" arbitrary: k n m t x bs rule: less_induct)
  case less
  define b where "b = H ! (k - 1)"
  note chain = round_searchD(1) [OF S]
  have k: "1 \<le> k" "k \<le> length H" "k - 1 < length H" using less.prems by (auto simp: within_def)
  have hk: "block_height b = k" using chain k by (auto simp: chain_ok_def b_def)
  have step: "search_found r H (case rbind (search_height r n' m' t' x') get of
      Inl e \<Rightarrow> Some (Inl e, bs') | Inr b' \<Rightarrow> search_round get r b' n' m' t' x' bs')"
    if "within H r n' m' t' x'" "t' + 1 - n' < t + 1 - n" for n' m' t' x' bs'
    using that by (intro search_step [OF S] less.hyps)
  have other: "i < k - 1 \<longrightarrow> block_round (H ! i) < block_round b" "k - 1 < i \<longrightarrow> block_round b < block_round (H ! i)"
    if "i < length H" for i
    using that k chain_ok_rounds [OF chain] by (auto simp: b_def)
  have inside: "n \<le> i + 1 \<and> i + 1 \<le> t" if "i < length H" "block_round (H ! i) = r" for i
    using that less.prems(1) unfolding within_def by blast
  consider (last) "\<not> n < t" | (eq) "n < t" "block_round b = r" | (lower) "n < t" "block_round b < r"
    | (upper) "n < t" "r < block_round b" by linarith
  then have "search_found r H (search_round get r b n m t x bs)"
  proof cases
    case last
    have "b = H ! i" if "i < length H" "block_round (H ! i) = r" for i
    proof -
      from inside [OF that] last less.prems have "k = i + 1" by linarith
      then show ?thesis by (simp add: b_def)
    qed
    moreover have "get k = Inr b" unfolding b_def by (rule round_searchD(5) [OF S k(1,2)])
    ultimately show ?thesis by (intro search_end [OF S last]) auto
  next
    case eq
    with found_block [OF chain k(3), folded b_def] show ?thesis by (subst search_round.simps) simp
  next
    case lower
    have "k \<noteq> length H" using lower(2) round_searchD(2,3) [OF S] by (auto simp: last_conv_nth b_def)
    then have w: "wrap64 (block_height b + 1) = k + 1" "wrap64 (block_round b + 1) = block_round b + 1"
      using k round_search_length [OF S] lower(2) round_searchD(3,4) [OF S] by (simp_all add: wrap64_def hk)
    have "k \<le> i" if "i < length H" "block_round (H ! i) = r" for i
      using that other(1) [OF that(1)] lower(2) k(1) by (cases i "k - 1" rule: linorder_cases) (auto simp: b_def)
    then have "within H r (k + 1) (block_round b + 1) t x"
      using less.prems lower(2) inside unfolding within_def by auto
    from step [OF this] lower(1) less.prems(2) show ?thesis
      unfolding search_round_lower [OF lower w] by simp
  next
    case upper
    have w: "wrapping_sub (block_height b) 1 = k - 1" "wrapping_sub (block_round b) 1 = block_round b - 1"
      using k(1) upper(2) by (simp_all add: wrapping_sub_def hk)
    have "i + 1 \<le> k - 1" if "i < length H" "block_round (H ! i) = r" for i
      using that other(2) [OF that(1)] upper(2) k(1) by (cases i "k - 1" rule: linorder_cases) (auto simp: b_def)
    then have "within H r n m (k - 1) (block_round b - 1)"
      using less.prems upper(2) inside k unfolding within_def by auto
    from step [OF this] upper(1) less.prems(2,3) k(1) show ?thesis
      unfolding search_round_upper [OF upper w] by simp
  qed
  then show ?case by (simp add: b_def)
qed

text \<open>C24: the interpolation search for the committed block of a round always ends. On every cache of a run that
  has committed blocks, if the index answers with these blocks, the round lies between 1 and the round
  of the header and that fits into 64 bits, it returns the block of the round if there is one and an error
  otherwise, unless it divides by zero.\<close>

theorem find_block_by_round_returns:
  assumes "store_reach any_block c H" "H \<noteq> []" "indexed find_height get_block H"
    "1 \<le> r" "r \<le> block_round (last H)" "block_round (last H) < 2 ^ 64"
  shows "search_found r H (find_block_by_round find_height get_block c r)"
proof -
  note rel = reach_chain_rel [OF assms(1)]
  have S: "round_search (get_block_by_height find_height get_block c) H r"
    using rel assms get_block_by_height_committed [OF rel assms(3)] get_block_by_height_other [OF rel assms(2,3)]
    by (auto simp: round_search_def chain_rel_def)
  have I: "within H r 1 1 (length H) (block_round (last H))" using assms(4,5) by (auto simp: within_def)
  have "1 \<le> length H" "H ! (length H - 1) = last H" using assms(2) by (simp_all add: last_conv_nth Suc_le_eq)
  with search_found_within [OF S I, of "length H" "[]"]
  have "search_found r H (search_round (get_block_by_height find_height get_block c) r (last H) 1 1 (length H) (block_round (last H)) [])"
    by simp
  moreover have "sc_header_block c = Some (last H)" "block_height (last H) = length H"
    using rel assms(2) by (simp_all add: chain_rel_def chain_ok_last)
  ultimately show ?thesis by (simp add: find_block_by_round_def)
qed

theorem find_block_by_round_returns_witness:
  "\<exists>x. x = find_block_by_round (\<lambda>h. if h = 0 then Inl (Err NotFound) else Inr (word_of_nat h))
       (\<lambda>i. Inr (sample_block (unat i))) (sample_store 6) 3 \<and>
     search_found 3 [sample_block 1, sample_block 2, sample_block 3, sample_block 4] x \<and>
     x = Some (Inr (sample_block 3), [sample_block 4, sample_block 3])"
  (is "\<exists>x. x = find_block_by_round ?f ?g _ _ \<and> search_found _ ?H x \<and> _")
proof -
  have c: "sc_header_block (sample_store 6) = Some (sample_block 4)" "sc_first_block (sample_store 6) = Some (sample_block 1)"
    using reach_chain_rel [OF sample_reach(4)] by (simp_all add: chain_rel_def)
  have "indexed ?f ?g ?H" by (auto simp: indexed_def less_Suc_eq sample_block_def)
  then have "search_found 3 ?H (find_block_by_round ?f ?g (sample_store 6) 3)"
    by (intro find_block_by_round_returns [OF store_reach_any [OF sample_reach(4)]]) (simp_all add: sample_block_def block_defs)
  moreover have b: "block_height (sample_block n) = n" "block_round (sample_block n) = n" for n
    by (simp_all add: sample_block_def block_defs)
  have "find_block_by_round ?f ?g (sample_store 6) 3 = Some (Inr (sample_block 3), [sample_block 4, sample_block 3])"
    by (simp add: find_block_by_round_def c b search_round.simps search_height_def wrapping_sub_def wrap64_def
        get_block_by_height_def header_height_def)
  ultimately show ?thesis by simp
qed

text \<open>Below a header of height and round 2 the search for round 1 divides by zero.\<close>

lemma find_block_by_round_panics:
  assumes "sc_header_block c = Some header" "block_height header = 2" "block_round header = 2"
  shows "find_block_by_round find_height get_block c 1 = Some (Inl Panic, [header])"
  using assms by (simp add: find_block_by_round_def search_round.simps search_height_def wrapping_sub_def)

end
