(* ===== verification/ConsensusSafety.thy ===== *)
theory ConsensusSafety
  imports ConsensusSample GroupChain
begin

subsection \<open>Runs of a cluster\<close>

lemma net_step_reach:
  assumes "net_step base ev cl = Some cl'" "\<forall>s\<in>set cl. runner_reach s"
  shows "\<forall>s\<in>set cl'. runner_reach s"
proof (cases ev)
  case (Run i input)
  with assms(1) obtain r t where t: "i < length cl" "hs_step (node_env base cl i) input (cl ! i) = Some (r, t)" "cl' = cl[i := t]"
    by (auto simp: net_step_def split: if_splits option.splits prod.splits)
  from runner_reach.step [OF _ t(2)] t(1) assms(2) have "runner_reach t" by simp
  with t(3) assms(2) show ?thesis by (auto dest: subsetD [OF set_update_subset_insert])
next
  case (Deliver i k j)
  with assms(1) obtain m r t where m: "j < length cl" "on_message m (hs_local_device_id (cl ! i)) (cl ! j) = Some (r, t)" "cl' = cl[j := t]"
    by (auto simp: net_step_def split: if_splits option.splits prod.splits)
  have "runner_reach t" using runner_reach.message [OF _ m(2)] m(1) assms(2) by simp
  with m(3) assms(2) show ?thesis by (auto dest: subsetD [OF set_update_subset_insert])
qed

lemma net_run_reach: "net_run base evs cl = Some cl' \<Longrightarrow> \<forall>s\<in>set cl. runner_reach s \<Longrightarrow> \<forall>s\<in>set cl'. runner_reach s"
proof (induction evs arbitrary: cl)
  case (Cons ev evs)
  then obtain cl1 where "net_step base ev cl = Some cl1" "net_run base evs cl1 = Some cl'" by (auto simp: bind_eq_Some_conv)
  with Cons.IH [of cl1] net_step_reach [of base ev cl cl1] Cons.prems(2) show ?case by blast
qed simp

lemma start_node_reach: "runner_reach s \<Longrightarrow> runner_reach (start_node base i s)"
  by (simp add: start_node_def runner_reach.recover)

lemma demo_cluster_reach: "\<forall>s\<in>set demo_cluster. runner_reach s"
  by (simp add: demo_cluster_def demo_node_def start_node_reach runner_reach.start)

text \<open>The cluster after the votes of the first round.\<close>

lemma first_round_cluster:
  obtains cl where "\<forall>s\<in>set cl. runner_reach s" "length cl = 4"
    "\<And>i. i < 4 \<Longrightarrow> i \<noteq> 2 \<Longrightarrow> cast_votes (cl ! i) = [(1, None, 1)]"
proof -
  from first_round_votes obtain cl where cl: "net_run demo_env first_round demo_cluster = Some cl"
    "map (\<lambda>s. filter is_cast (hs_effects s)) cl = [[CastVote 1 None 1], [CastVote 1 None 1], [], [CastVote 1 None 1]]"
    by (auto simp: option.map_sel)
  have len: "length cl = 4" using arg_cong [OF cl(2), of length] by simp
  have "cast_votes (cl ! i) = [(1, None, 1)]" if i: "i < 4" "i \<noteq> 2" for i
  proof -
    have "cast_votes s = map (\<lambda>e. case e of CastVote b p r \<Rightarrow> (b, p, r)) (filter is_cast (hs_effects s))" for s
    proof -
      have "List.map_filter (\<lambda>e. case e of CastVote b p r \<Rightarrow> Some (b, p, r) | _ \<Rightarrow> None) es =
        map (\<lambda>e. case e of CastVote b p r \<Rightarrow> (b, p, r)) (filter is_cast es)" for es
      proof (induction es)
        case (Cons e es)
        then show ?case by (cases e) (simp_all add: List.map_filter_simps is_cast_def)
      qed (simp add: List.map_filter_simps)
      then show ?thesis by (simp add: cast_votes_def)
    qed
    moreover have "filter is_cast (hs_effects (cl ! i)) = [[CastVote 1 None 1], [CastVote 1 None 1], [], [CastVote 1 None 1]] ! i"
      using arg_cong [OF cl(2), of "\<lambda>l. l ! i"] i len by simp
    moreover from i have "i = 0 \<or> i = 1 \<or> i = 3" by linarith
    ultimately show ?thesis by auto
  qed
  with that cl(1) len net_run_reach [OF cl(1) demo_cluster_reach] show ?thesis by blast
qed

subsection \<open>Votes and certificates\<close>

text \<open>C2: a runner casts at most one vote in a round, over all its steps, whatever messages it is sent and
  whatever its environment answers, a failing storage included, and over all restarts that load a vote
  round not behind the one it had stored: the rounds of its votes strictly increase and are not above
  the round it has stored. The condition on restarts is needed: without a stored block the storage
  loads nothing, and the vote round begins at 0 again.\<close>

theorem one_vote_per_round:
  assumes "runner_reach s"
  shows "sorted_wrt (<) (map (snd \<circ> snd) (cast_votes s)) \<and>
    (\<forall>(_, _, r)\<in>set (cast_votes s). r \<le> sc_last_vote_round (hs_store s)) \<and>
    (\<forall>b p b' p' r. CastVote b p r \<in> set (hs_effects s) \<and> CastVote b' p' r \<in> set (hs_effects s) \<longrightarrow> b = b' \<and> p = p')"
  using reach_vote_inv [OF assms] cast_once [OF reach_vote_inv [OF assms]] by (auto simp: vote_inv_def cast_votes_set)

theorem one_vote_per_round_witness:
  "\<exists>s. runner_reach s \<and> cast_votes s = [(1, None, 1)] \<and> 1 \<le> sc_last_vote_round (hs_store s)"
proof -
  obtain cl where cl: "\<forall>s\<in>set cl. runner_reach s" "length cl = 4" "cast_votes (cl ! 0) = [(1, None, 1)]"
    by (rule first_round_cluster) fastforce
  have "runner_reach (cl ! 0)" using cl(1,2) by simp
  with one_vote_per_round [OF this] cl(3) show ?thesis by auto
qed

text \<open>C4: two certificates of the same round that verify certify the same block, when less than a third of the
  members are faulty. A member that is not faulty runs the runner above, under any schedule and with
  any messages, and only the hashes it has signed verify under its key; the hash function has no
  collisions and keeps descriptions apart from votes; rounds fit their 64 bits.\<close>

theorem certificates_agree_in_round:
  assumes "ce_group E (Some (gd_group_shell_id d)) = Inr g" "ce_group E (Some (gd_group_shell_id d')) = Inr g"
    "distinct (gi_oods g)" "3 * card (faulty \<inter> set (gi_oods g)) < length (gi_oods g)"
    "\<And>v. v \<in> set (gi_oods g) \<Longrightarrow> v \<notin> faulty \<Longrightarrow> runner_reach (node v)"
    "\<And>v. v \<in> set (gi_oods g) \<Longrightarrow> v \<notin> faulty \<Longrightarrow> verifies_only E v (signed_hashes (ce_sha256 E) desc_hash (node v))"
    "\<And>v. v \<in> set (gi_oods g) \<Longrightarrow> v \<notin> faulty \<Longrightarrow> \<forall>(_, _, r)\<in>set (cast_votes (node v)). r < 2 ^ 64"
    "inj (ce_sha256 E)" "\<And>d h b p r. desc_hash d = Inr h \<Longrightarrow> h \<noteq> ce_sha256 E (vote_content b p r)"
    "verify_qc_with_desc E qc d = Inr ()" "verify_qc_with_desc E qc' d' = Inr ()"
    "qc_round qc = qc_round qc'" "qc_round qc < 2 ^ 64"
  shows "qc_block_id qc = qc_block_id qc' \<and> qc_prev_block_id qc = qc_prev_block_id qc'"
proof -
  let ?V = "\<lambda>qc. set (map qs_voter (qc_votes qc)) \<inter> set (gi_oods g)"
  obtain v where v: "v \<in> ?V qc" "v \<in> ?V qc'" "v \<notin> faulty"
    using quorums_intersect [of "set (gi_oods g)" _ "?V qc" "?V qc'" faulty] assms(3,4)
      verify_qc_votes(1) [OF assms(10,1)] verify_qc_votes(1) [OF assms(11,2)] by (auto simp: distinct_card)
  have cast: "(qc_block_id q, qc_prev_block_id q, qc_round q) \<in> set (cast_votes (node v))"
    if "verify_qc_with_desc E q e = Inr ()" "ce_group E (Some (gd_group_shell_id e)) = Inr g" "v \<in> ?V q" "qc_round q < 2 ^ 64" for q e
  proof -
    have vg: "v \<in> set (gi_oods g)" "v \<in> set (map qs_voter (qc_votes q))" using that(3) by auto
    from verify_qc_votes(2) [OF that(1,2) vg(2)] assms(6) [OF vg(1) v(3)] show ?thesis
      by (intro signed_vote_cast [OF assms(8,9) assms(7) [OF vg(1) v(3)] that(4)]) (auto simp: verifies_only_def)
  qed
  have "v \<in> set (gi_oods g)" using v(1) by auto
  from cast_once [OF reach_vote_inv [OF assms(5) [OF this v(3)]] cast [OF assms(10,1) v(1) assms(13)]] show ?thesis
    using cast [OF assms(11,2) v(2)] assms(12,13) by simp
qed

text \<open>Three members have voted for block 1, and their keys verify nothing else.\<close>

definition voted_env :: committee_env where
  "voted_env = \<lparr>ce_group = (\<lambda>_. Inr demo_group), ce_local_group = demo_group,
     ce_device = (\<lambda>d. Inr \<lparr>dev_id = d, dev_owner = None, dev_key = demo_key d\<rparr>),
     ce_verify = (\<lambda>key hash sig. hash = vote_content 1 None 1), ce_verify_desc = (\<lambda>_ _ _. Inr False),
     ce_get_block = (\<lambda>_. Inl (Err NotFound)), ce_sha256 = (\<lambda>x. x)\<rparr>"

definition voted_qc :: "bytes \<Rightarrow> block_qc" where
  "voted_qc sig = \<lparr>qc_block_id = 1, qc_prev_block_id = None, qc_round = 1,
     qc_votes = map (\<lambda>v. \<lparr>qs_voter = v, qs_signature = sig\<rparr>) [100, 101, 103]\<rparr>"

lemma voted_qc_verifies: "verify_qc_with_desc voted_env (voted_qc sig) (gb_desc (sample_block 1)) = Inr ()"
  by (simp add: voted_env_def voted_qc_def verify_qc_with_desc_def sample_block_def quorum_threshold_def demo_group_def
      verify_vote_def verify_sign_def vote_hash_def Let_def)

theorem certificates_agree_in_round_witness:
  "verify_qc_with_desc voted_env (voted_qc [1]) (gb_desc (sample_block 1)) = Inr () \<and>
   verify_qc_with_desc voted_env (voted_qc [2]) (gb_desc (sample_block 1)) = Inr () \<and>
   qc_block_id (voted_qc [1]) = qc_block_id (voted_qc [2])"
proof -
  obtain cl where cl: "\<forall>s\<in>set cl. runner_reach s" "length cl = 4"
    "\<And>i. i < 4 \<Longrightarrow> i \<noteq> 2 \<Longrightarrow> cast_votes (cl ! i) = [(1, None, 1)]" by (rule first_round_cluster) blast
  define node where "node v = cl ! unat (v - 100)" for v :: object_id
  have node: "runner_reach (node v)" "cast_votes (node v) = [(1, None, 1)]" if "v \<in> set (gi_oods demo_group)" "v \<notin> {102}" for v
    using that cl by (auto simp: demo_group_def node_def)
  have "qc_block_id (voted_qc [1]) = qc_block_id (voted_qc [2]) \<and> qc_prev_block_id (voted_qc [1]) = qc_prev_block_id (voted_qc [2])"
  proof (rule certificates_agree_in_round [where E = voted_env and g = demo_group and faulty = "{102}" and node = node and
        desc_hash = "\<lambda>_. Inl (Err NotFound)" and d = "gb_desc (sample_block 1)" and d' = "gb_desc (sample_block 1)"])
    fix v assume v: "v \<in> set (gi_oods demo_group)" "v \<notin> {102}"
    have "CastVote 1 None 1 \<in> set (hs_effects (node v))" using node(2) [OF v] cast_votes_set [of 1 None 1 "node v"] by simp
    then show "verifies_only voted_env v (signed_hashes (ce_sha256 voted_env) (\<lambda>_. Inl (Err NotFound)) (node v))"
      by (auto simp: verifies_only_def signed_hashes_def voted_env_def verify_sign_def split: if_splits)
  qed (use node voted_qc_verifies in \<open>auto simp: voted_env_def voted_qc_def demo_group_def\<close>)
  with voted_qc_verifies show ?thesis by blast
qed

subsection \<open>Steps\<close>

text \<open>no step of the loop, and no message of another node, lets a runner fall back: its round, the highest
  round with a quorum and the round of its last vote never decrease, its identity stays, and the log
  of what it has done is only extended.\<close>

theorem runner_never_falls_back:
  "(hs_step E i s = Some (r, t) \<longrightarrow> grows s t) \<and> (on_message m remote s = Some (q, u) \<longrightarrow> grows s u) \<and>
   grows s (snd (recover E s))"
  using logs.R_hs_step [of E i s r t] logs.R_message [of m remote s q u] logs.keepsD [OF logs.keeps_recover] by blast

theorem runner_never_falls_back_witness:
  "\<exists>r t. hs_step (demo_env 0) TimerFired (demo_node 0) = Some (r, t) \<and> grows (demo_node 0) t"
proof -
  obtain r t where "local_timeout_round (demo_env 0) (demo_node 0) = (r, t)" by fastforce
  then have "hs_step (demo_env 0) TimerFired (demo_node 0) = Some (r, t)" by (simp add: hs_step_def)
  with runner_never_falls_back [of "demo_env 0" TimerFired "demo_node 0" r t] show ?thesis by blast
qed

text \<open>C39: while its header is the block of height 2 and round 2, a runner panics on a request for the blocks
  from round 1 on, whoever sends it: the search for round 1 divides by zero.\<close>

theorem sync_request_panics:
  assumes "sc_header_block (hs_store s) = Some header" "block_height header = 2" "block_round header = 2"
  shows "on_rx_message E (MSyncRequest (BoundRound 1) hi) remote s = (Some (Inl Panic), s)"
  using assms(1,3) find_block_by_round_panics [OF assms, of "he_find_block_by_height E" "ce_get_block E"]
  by (simp add: on_rx_message_def process_sync_request_def hbind_def hget_def hlift_def Let_def)

theorem sync_request_panics_witness:
  "sc_header_block (sample_store 4) = Some (sample_block 2) \<and>
   on_rx_message (demo_env 0) (MSyncRequest (BoundRound 1) (BoundRound 9)) 77 ((demo_node 0)\<lparr>hs_store := sample_store 4\<rparr>) =
   (Some (Inl Panic), (demo_node 0)\<lparr>hs_store := sample_store 4\<rparr>)"
proof
  show hd: "sc_header_block (sample_store 4) = Some (sample_block 2)"
    using reach_chain_rel [OF sample_reach(3)] by (simp add: chain_rel_def)
  show "on_rx_message (demo_env 0) (MSyncRequest (BoundRound 1) (BoundRound 9)) 77 ((demo_node 0)\<lparr>hs_store := sample_store 4\<rparr>) =
   (Some (Inl Panic), (demo_node 0)\<lparr>hs_store := sample_store 4\<rparr>)"
    by (rule sync_request_panics [of _ "sample_block 2"]) (use hd in \<open>simp_all add: sample_block_def block_defs\<close>)
qed

subsection \<open>Blocks of other nodes\<close>

lemma verify_proposals_unfinished:
  "verify_proposals E c b m ps st = Inr st' \<Longrightarrow> p \<in> set ps \<Longrightarrow> prev_block_id b = Some k \<Longrightarrow> \<not> is_proposal_finished c (bp_proposal p) k"
  by (induction ps arbitrary: st) (auto simp: rbind_eq_Inr split: if_splits option.splits)

lemma check_result_state_unfinished:
  assumes "check_block_proposal_result_state_by_app E c remote b m prev = Some (Inr ())"
    "p \<in> set (block_proposals b)" "prev_block_id b = Some k"
  shows "\<not> is_proposal_finished c (bp_proposal p) k"
  using assms(1)
  by (subst (asm) check_block_proposal_result_state_by_app.simps)
    (auto simp: bind_eq_Some_conv rbind_eq_Inr dest: verify_proposals_unfinished [OF _ assms(2,3)])

lemma handle_block_checks:
  assumes "handle_block E b remote s = (r, t)" "hs_store t \<noteq> hs_store s"
  obtains g owner s' where "ce_group E None = Inr g" "remote \<in> set (gi_oods g)" "block_owner b = Inr owner"
    "get_leader_owner E (Some (block_shell b)) (block_round b) = Inr owner" "verify_block E b = Inr ()" "hs_store s' = hs_store s"
    "hbind (check_block_linked E b remote) (\<lambda>link. case link of Inl r \<Rightarrow> hlift r
       | Inr prev_block \<Rightarrow> process_linked_block E (hs_store s) b remote prev_block) s' = (r, t)"
proof -
  have ne: "t \<noteq> s" using assms(2) by auto
  note h = assms(1) [unfolded handle_block_def]
  from h ne have height: "\<not> block_height b \<le> header_height (hs_store s)" by (auto simp: hbind_simps)
  from h ne height obtain g where g: "ce_group E None = Inr g" "remote \<in> set (gi_oods g)"
    by (cases "ce_group E None") (auto simp: hbind_simps split: if_splits)
  from h ne height g have state: "check_block_result_state b = Inr ()"
    by (cases "check_block_result_state b") (auto simp: hbind_simps)
  from h ne height g state obtain lo where lo: "get_leader_owner E (Some (block_shell b)) (block_round b) = Inr lo"
    by (cases "get_leader_owner E (Some (block_shell b)) (block_round b)") (auto simp: hbind_simps)
  from h ne height g state lo have owner: "block_owner b = Inr lo"
    by (cases "block_owner b") (auto simp: hbind_simps split: if_splits)
  from h ne height g state lo owner have verified: "verify_block E b = Inr ()"
    by (cases "verify_block E b") (auto simp: hbind_simps)
  let ?s = "update_max_quorum_height (block_height b - 1) (update_max_quorum_round (qc_round_of (block_qc_of b)) s)"
  have "hs_store ?s = hs_store s" by (simp add: update_max_quorum_height_def update_max_quorum_round_def)
  with that [of g lo ?s] g lo owner verified h height state show ?thesis by (simp add: hbind_simps)
qed

lemma process_linked_block_checks:
  assumes "process_linked_block E c b remote prev s = (r, t)" "hs_store t \<noteq> hs_store s"
  shows "\<exists>m. check_block_proposal_result_state_by_app E c remote b m prev = Some (Inr ())"
proof -
  have ne: "t \<noteq> s" using assms(2) by auto
  note h = assms(1) [unfolded process_linked_block_def]
  from h ne obtain m where m: "load_all_proposals_for_block E b = Inr m"
    by (cases "load_all_proposals_for_block E b") (auto simp: hbind_simps)
  obtain x where x: "check_block_proposal_result_state_by_app E c remote b m prev = x" by blast
  with h ne m have "x = Some (Inr ())"
    by (cases x; (cases "the x")?) (auto simp: hbind_simps)
  with x show ?thesis by blast
qed

text \<open>C13: a block of another node changes what is stored only after all its checks: it comes from a member, its
  owner is the leader of its round, its signature and certificates verify, it is linked to the chain,
  and none of its proposals is in the two blocks before it or among the finished ones.\<close>

theorem handle_block_stores_checked:
  assumes "handle_block E b remote s = (r, t)" "hs_store t \<noteq> hs_store s"
  shows "(\<exists>g. ce_group E None = Inr g \<and> remote \<in> set (gi_oods g)) \<and>
    (\<exists>owner. block_owner b = Inr owner \<and> get_leader_owner E (Some (block_shell b)) (block_round b) = Inr owner) \<and>
    verify_block E b = Inr () \<and> (\<exists>p. block_linked (hs_store s) b = Inr (LinkTo p)) \<and>
    (\<forall>p\<in>set (block_proposals b). \<forall>k. prev_block_id b = Some k \<longrightarrow> \<not> is_proposal_finished (hs_store s) (bp_proposal p) k)"
proof -
  from assms obtain g owner s1 where g: "ce_group E None = Inr g" "remote \<in> set (gi_oods g)" "block_owner b = Inr owner"
    "get_leader_owner E (Some (block_shell b)) (block_round b) = Inr owner" "verify_block E b = Inr ()" "hs_store s1 = hs_store s"
    and h: "hbind (check_block_linked E b remote) (\<lambda>link. case link of Inl r \<Rightarrow> hlift r
       | Inr prev_block \<Rightarrow> process_linked_block E (hs_store s) b remote prev_block) s1 = (r, t)" by (rule handle_block_checks)
  from h obtain p s2 where p: "check_block_linked E b remote s1 = (Some (Inr (Inr p)), s2)"
    "process_linked_block E (hs_store s) b remote p s2 = (r, t)"
  proof (cases rule: hbind_result)
    case stop
    then show ?thesis
      using alone.keepsD [OF alone.keeps_linked, of s1 E b remote] g(6) assms(2) by (simp add: same_store_def)
  next
    case (go x s2)
    with check_block_linked_store [OF go(1)] g(6) assms(2) that [of _ s2] show ?thesis
      by (cases x) (auto simp: hbind_simps)
  qed
  obtain m where m: "check_block_proposal_result_state_by_app E (hs_store s) remote b m p = Some (Inr ())"
    using process_linked_block_checks [OF p(2)] check_block_linked_store [OF p(1)] g(6) assms(2) by auto
  show ?thesis
    using g(1-5) check_block_linked_Inr(1) [OF p(1)] g(6) check_result_state_unfinished [OF m] by auto
qed

text \<open>The block of the first leader at a new runner.\<close>

definition demo_block :: group_block where
  "demo_block = (block_create (\<lambda>_. []) (\<lambda>d. word_of_nat (gd_round d)) 4000000000 \<lparr>rp_group_id = 1, rp_dec_id = 2, rp_rpath = []\<rparr>
     [\<lparr>bp_proposal = 11, bp_result_state = Some 11, bp_receipt = None, bp_context = None\<rparr>] (Some 11) 1 0 1 50 None None 201)
     \<lparr>gb_signs := Some [\<lparr>bs_source = SsObject 101, bs_data = demo_key 101\<rparr>]\<rparr>"

theorem handle_block_stores_checked_witness:
  "\<exists>r t. handle_block (demo_env 0) demo_block 101 (demo_node 0) = (r, t) \<and> hs_store t \<noteq> hs_store (demo_node 0) \<and>
     verify_block (demo_env 0) demo_block = Inr ()"
proof -
  obtain r t where t: "handle_block (demo_env 0) demo_block 101 (demo_node 0) = (r, t)" by fastforce
  have "map fst (sc_prepares (hs_store (snd (handle_block (demo_env 0) demo_block 101 (demo_node 0))))) = [1]"
    by (simp add: run_eval demo_defs demo_block_def cong: run_congs)
  then have "hs_store t \<noteq> hs_store (demo_node 0)"
    using t by (auto simp: demo_node_def hotstuff_new_def storage_cache_new_def Let_def)
  with handle_block_stores_checked [OF t] t show ?thesis by blast
qed

end
