(* ===== verification/ConsensusFork.thy ===== *)
theory ConsensusFork
  imports ConsensusSample
begin

text \<open>
  A schedule on which two runners commit different blocks at the same height, although all four follow the
  code. In round 1 the runners 0, 1 and 3 vote for block 1, and only runner 2 learns the certificate.
  Rounds 1 and 2 time out. In round 3 runner 3 proposes block 3, also at height 1; it gets its
  certificate, block 4 of runner 0 on top of it gets one, and runner 1, which pushes block 5 on top of
  that, commits block 3. The block does not reach the others, round 5 times out, and in round 6 runner
  2 proposes block 6 on top of block 1. Runners 0 and 3 vote for it: a vote for block 4 does not lock
  them, since the test on the certificates in the timeout certificate is commented out in \<^verbatim>\<open>make_vote\<close>.
  With block 7 on top of block 6, runner 3 commits block 1.
\<close>

definition fork_1 :: "net_event list" where
  "fork_1 =
    [Run 1 RxBlockGen, Deliver 1 0 0, Run 0 RxMessage, Deliver 1 0 3, Run 3 RxMessage, Deliver 1 0 2,
    Run 2 RxMessage, Deliver 1 1 2, Run 2 RxMessage, Deliver 0 0 2, Run 2 RxMessage, Run 2 RxBlockGen]"

definition fork_2 :: "net_event list" where
  "fork_2 =
    [Run 0 TimerFired, Run 0 RxMessage, Run 1 TimerFired, Run 1 RxMessage, Run 3 TimerFired, Run 3 RxMessage,
    Deliver 0 1 3, Run 3 RxMessage, Deliver 1 2 3, Run 3 RxMessage]"

definition fork_3 :: "net_event list" where
  "fork_3 =
    [Deliver 3 2 0, Run 0 RxMessage, Deliver 3 2 1, Run 1 RxMessage, Run 3 TimerFired, Run 3 RxMessage,
    Run 0 TimerFired, Run 0 RxMessage, Run 1 TimerFired, Run 1 RxMessage, Deliver 0 2 3, Run 3 RxMessage,
    Deliver 1 3 3, Run 3 RxMessage, Run 3 RxBlockGen]"

definition fork_4 :: "net_event list" where
  "fork_4 =
    [Deliver 3 4 0, Run 0 RxMessage, Deliver 3 4 1, Run 1 RxMessage, Deliver 1 4 0, Run 0 RxMessage,
    Deliver 3 5 0, Run 0 RxMessage, Run 0 RxBlockGen, Deliver 0 3 1, Run 1 RxMessage, Deliver 0 3 3,
    Run 3 RxMessage]"

definition fork_5 :: "net_event list" where
  "fork_5 =
    [Run 0 TimerFired, Run 0 RxMessage, Run 1 TimerFired, Run 1 RxMessage, Run 3 TimerFired, Run 3 RxMessage,
    Deliver 0 4 1, Run 1 RxMessage, Deliver 3 6 1, Run 1 RxMessage, Run 1 RxBlockGen]"

definition fork_6 :: "net_event list" where
  "fork_6 =
    [Deliver 0 5 3, Run 3 RxMessage, Deliver 1 5 3, Run 3 RxMessage, Deliver 3 8 0, Run 0 RxMessage,
    Deliver 3 8 2, Run 2 RxMessage]"

definition fork_7 :: "net_event list" where
  "fork_7 =
    [Run 3 TimerFired, Run 3 RxMessage, Run 0 TimerFired, Run 0 RxMessage, Run 2 TimerFired, Run 2 RxMessage,
    Deliver 0 6 3, Run 3 RxMessage, Deliver 2 2 3, Run 3 RxMessage, Deliver 3 10 2, Run 2 RxMessage,
    Run 2 RxBlockGen]"

definition fork_8 :: "net_event list" where
  "fork_8 =
    [Deliver 2 3 0, Run 0 RxMessage, Deliver 2 3 3, Run 3 RxMessage, Deliver 2 4 3, Run 3 RxMessage,
    Deliver 0 7 3, Run 3 RxMessage, Run 3 RxBlockGen]"

lemmas fork_defs = fork_1_def fork_2_def fork_3_def fork_4_def fork_5_def fork_6_def fork_7_def fork_8_def

definition fork_schedule :: "net_event list" where
  "fork_schedule = fork_1 @ fork_2 @ fork_3 @ fork_4 @ fork_5 @ fork_6 @ fork_7 @ fork_8"

lemma fork_headers:
  "map_option (map (\<lambda>s. map_option (\<lambda>b. (gb_id b, block_height b)) (sc_header_block (hs_store s))))
     (net_run demo_env fork_schedule demo_cluster) = Some [None, Some (3, 1), None, Some (1, 1)]"
  by (simp add: run_eval demo_defs fork_schedule_def fork_defs cong: run_congs)

text \<open>C6: the consensus can fork without any faulty member: from the start of a group of four there is a
  schedule of steps and deliveries, with every message unchanged, after which two runners have
  committed different blocks at height 1.\<close>

theorem consensus_forks:
  "\<exists>cl b b'. net_run demo_env fork_schedule demo_cluster = Some cl \<and>
     sc_header_block (hs_store (cl ! 1)) = Some b \<and> sc_header_block (hs_store (cl ! 3)) = Some b' \<and>
     block_height b = 1 \<and> block_height b' = 1 \<and> gb_id b \<noteq> gb_id b'"
proof -
  from fork_headers obtain cl where cl: "net_run demo_env fork_schedule demo_cluster = Some cl"
    "map (\<lambda>s. map_option (\<lambda>b. (gb_id b, block_height b)) (sc_header_block (hs_store s))) cl =
       [None, Some (3, 1), None, Some (1, 1)]" by auto
  have len: "length cl = 4" using arg_cong [OF cl(2), of length] by simp
  have "map_option (\<lambda>b. (gb_id b, block_height b)) (sc_header_block (hs_store (cl ! 1))) = Some (3, 1)"
    "map_option (\<lambda>b. (gb_id b, block_height b)) (sc_header_block (hs_store (cl ! 3))) = Some (1, 1)"
    using arg_cong [OF cl(2), of "\<lambda>l. l ! 1"] arg_cong [OF cl(2), of "\<lambda>l. l ! 3"] len by simp_all
  then obtain b b' where b: "sc_header_block (hs_store (cl ! 1)) = Some b" "sc_header_block (hs_store (cl ! 3)) = Some b'"
    "gb_id b = 3" "block_height b = 1" "gb_id b' = 1" "block_height b' = 1" by (auto simp: map_option_case split: option.splits)
  then have "gb_id b \<noteq> gb_id b'" by simp
  with cl(1) b show ?thesis by blast
qed

end
