(* ===== verification/Spec2Isabelle.thy ===== *)
theory Spec2Isabelle
  imports Endpoint AccessString PathLock PackageStream ConsensusSafety ConsensusFork
begin

text \<open>
  CYFS. The development models parts of three layers of the repository: the base library
  \<^verbatim>\<open>src/component/cyfs-base\<close>, the transport \<^verbatim>\<open>src/component/cyfs-bdt\<close> and the group consensus
  \<^verbatim>\<open>src/component/cyfs-group\<close>, with its blocks in \<^verbatim>\<open>cyfs-core\<close> and \<^verbatim>\<open>cyfs-group-lib\<close>. The properties
  numbered C1, C2, and so on are proved in the theories named below.

  \<^bold>\<open>Conventions.\<close> A function that may fail has a value of the sum type \<open>'a result\<close> of \<open>Prelude\<close>: \<open>Inr\<close>
  the value, \<open>Inl (Err e)\<close> an error code that the source returns, \<open>Inl Panic\<close> a panic (failed assertion,
  index out of range, division by zero) and \<open>Inl UB\<close> an access outside of a buffer in unsafe code. The
  release profile of \<^verbatim>\<open>src/src/Cargo.toml\<close> switches overflow checks off. The theories of the base library
  and the transport count a subtraction below zero as a panic, so that their theorems about the absence
  of panics also say that nothing wraps; those of the consensus, where such differences do occur, let
  them wrap (\<open>wrapping_sub\<close>, \<open>wrap64\<close>). Machine integers are words, lengths in memory (\<open>usize\<close>) are natural
  numbers, durations are natural numbers of nanoseconds. Structures are records, enumerations datatypes; an operation
  with \<open>&mut self\<close> returns the changed state. Every definition is total, so that each theorem about a
  result also says that the operation returns. There is no fuel: loops are recursions over lists or
  have a termination proof by the bytes that are left. Two loops of the consensus may not end; they
  are partial functions, where \<open>None\<close> is a run without end: the search of a block by its round, of which
  a theorem says when it returns, and the check that rebuilds the states of the ancestors of a block,
  which ends only if the blocks that other nodes answer with are really ancestors.

  \<^bold>\<open>Encodings.\<close> \<open>RawCodec\<close> has the traits of \<^verbatim>\<open>codec/raw/raw_codec.rs\<close> and, as the locales \<open>raw_codec\<close>
  and \<open>safe_decoder\<close>, the contract that codecs keep: the encoder writes as many bytes as were measured,
  the decoder reads them back and leaves what follows, and a decoder returns a suffix of its input on
  any bytes. \<open>RawInts\<close>, \<open>RawContainers\<close> and \<open>RawStrings\<close> model the implementations of
  \<^verbatim>\<open>codec/raw/raw_types.rs\<close> and interpret the locales on them: integers and variable-length sizes, then
  vectors, sets, maps, tuples, options for any element codec that keeps the contract, then strings, sized
  and tailing byte data, IP addresses. A hash map is encoded from its entries in any order of iteration. Where the code breaks the contract a theorem says how.
  \<open>ErrorCode\<close> models the conversions of \<^verbatim>\<open>base/error.rs\<close>, \<open>Endpoint\<close> the endpoints of \<^verbatim>\<open>base/endpoint.rs\<close>
  (codec, order, text form) and \<open>AccessString\<close> the permission bits of \<^verbatim>\<open>base/access_string.rs\<close>.

  \<^bold>\<open>Path lock.\<close> \<open>PathLock\<close> models \<^verbatim>\<open>objects/object_map/lock.rs\<close>: the list of locks with its operations, and
  sessions that wait for one another, as a step relation. Its theorems are that no reachable state
  panics unless a batch is empty, that overlapping locks belong to one session as far as the code
  ensures it and how this fails, that the list implements a table of counts, and that a batch of requests is granted as a whole or not at all.

  \<^bold>\<open>Package streams.\<close> The reliable byte stream of \<^verbatim>\<open>cyfs-bdt/src/stream/package\<close>, from the bottom up.
  \<open>BdtTypes\<close> has the sequence numbers and identifiers of \<^verbatim>\<open>types.rs\<close>; \<open>SessionData\<close> the packages of
  \<^verbatim>\<open>protocol/v0.rs\<close> that streams exchange; \<open>SendQueue\<close> and \<open>RecvQueue\<close> the two queues; \<open>CongestionControl\<close>
  the estimator and the wrapper of \<^verbatim>\<open>cc/cc.rs\<close>; \<open>WriteProvider\<close> and \<open>ReadProvider\<close> the sending half
  (\<^verbatim>\<open>write.rs\<close>) and the receiving half (\<^verbatim>\<open>read.rs\<close>); \<open>PackageStream\<close> puts them together (\<^verbatim>\<open>stream.rs\<close>) and
  connects two streams.

  The invariant of the send queue, \<open>sq_inv\<close>, relates it to all bytes written; that of the receive
  queue, \<open>rq_inv\<close>, to the stream of the peer. The ring buffer crate is the record \<open>ringbuf\<close> with the locale
  \<open>ring_buffer\<close>, the congestion algorithm the record \<open>cc_impl\<close>, of which nothing is assumed, and the
  clock a sequence of readings. A sender cuts its stream once: \<open>WriteProvider\<close> keeps, as a ghost, the
  history of all blocks it ever cut (\<open>hist_ok\<close>), and shows that whatever it sends is one of them. In
  \<open>PackageStream\<close> a step relation, \<open>conn_step\<close>, lets both applications write, flush, close and read at
  will, lets both timers fire, and delivers any package that the other side has ever sent, any
  number of times and in any order. Its invariant, \<open>conn_ok\<close>, gives the properties of the connection:
  bytes are delivered in order and unchanged, no step panics, bytes leave a send queue only when
  the peer holds them, a close completes only when everything was delivered, and the end of a stream
  is reported only when the peer closed it. An application is assumed not to write after it closed
  its stream, and to write fewer than \<open>2 ^ 64\<close> bytes less the size of the receive buffer. The executable
  schedules of \<open>demo_run\<close> give the concrete runs of the examples, among them one where the final block
  of a stream is lost.

  \<^bold>\<open>Group consensus.\<close> The members of a group agree on a chain of blocks by a protocol in the manner of
  HotStuff. \<open>GroupBlock\<close> has the blocks of \<^verbatim>\<open>cyfs-core/src/group/group_consensus_block.rs\<close>, the votes and
  certificates of \<^verbatim>\<open>cyfs-group-lib/src/objects/certificate.rs\<close> and the committee that verifies them
  (\<^verbatim>\<open>consensus/vote/committee.rs\<close>); \<open>VoteMgr\<close> the collection of votes (\<^verbatim>\<open>vote_mgr.rs\<close>); \<open>GroupStorage\<close> the
  chain in memory with the calls of the storage writer (\<^verbatim>\<open>storage/group_storage.rs\<close>); \<open>Hotstuff\<close> the
  runner (\<^verbatim>\<open>consensus/hotstuff/hotstuff.rs\<close>) with every handler and the loop as a step \<open>hs_step\<close>. A
  handler is a state transformer that returns, fails, panics or never returns. What the runner asks of
  the outside is the record \<open>hotstuff_env\<close>, which may differ from step to step; what it tells the
  outside is kept in logs. \<open>Cluster\<close> runs several of them against one another on a schedule.

  \<open>VoteMgr\<close> proves that a voter counts once and what a certificate contains. \<open>GroupChain\<close> proves the
  invariants of the chain (\<open>store_inv\<close>, \<open>prop_inv\<close>) over the pushes of linked blocks in one run: the
  cache refines a list of committed blocks that only grows, a push panics exactly when the committed
  block repeats a proposal, and the search by round ends. The handler of the blocks of other nodes
  pushes linked blocks only; a block that the node made itself is pushed without the check and covered
  when it is still linked. Loading a stored state is not modelled. \<open>HotstuffInv\<close> lifts a preorder that the primitive
  updates respect to all handlers (locales \<open>handler_frame\<close> and \<open>runner_order\<close>) and interprets it for the
  votes cast, for rounds and logs, and for the vote manager. \<open>ConsensusSafety\<close> draws the conclusions: one
  vote per round, agreement of the certificates of one round among fewer than a third of faulty
  members, that only checked blocks are stored, and a request that panics the runner. A restart of a
  runner is counted only if the vote round that it loads is not behind the one that it stored. \<open>ConsensusSample\<close> evaluates runs of a committee of four by rewriting, and
  \<open>ConsensusFork\<close> gives one in which correct members commit different blocks at the same height, since
  votes do not lock. Rounds, heights and times of the consensus are natural numbers; where a hash, a
  round in it or the wrap-around matters, the theorems assume that they fit 64 bits.

  \<^bold>\<open>Interfaces.\<close> Code outside of the repository is a parameter: the ring buffer, the text form of socket
  addresses, UTF-8 validation, the bit access of
  permissions, hashes and signatures. What the code relies on is a hypothesis of the theorems, and each such theorem has an
  example in which the parameter is a concrete function.

  \<^bold>\<open>Not modelled.\<close> Logging and tracing; the pacer of streams, which they create disabled, and the
  floating-point congestion algorithms behind \<open>cc_impl\<close>; sockets, tunnels, encryption and key exchange,
  which streams see as an unreliable network; connection set-up in the stream container; the other
  packages of \<^verbatim>\<open>protocol/v0.rs\<close>; signalling, distributed hash table and named data; object identifiers,
  objects and object maps apart from their lock, which rest on hashes and signatures of third-party
  crates; of the group consensus the generated protobuf codecs, the object map in which the storage
  engine keeps a group state, the walk over a result state, the task that asks for missing blocks, and
  the group shell and manager; the meta chain, the stack and the services.
\<close>

end
